(* ===== verification/Prelude.thy ===== *)
theory Prelude
  imports Main "HOL-Library.Word" "HOL-Library.AList"
begin

text \<open>
  Shared vocabulary of the development: the machine integers of the Rust sources, the saturating
  operations and byte-order conversions of \<^verbatim>\<open>core\<close> that the code calls, the byte encodings
  used on the wire and in files, the fold-and-carry arithmetic of the Internet checksum, and the
  generic list and map lemmas that several components use.  Nothing in this theory models a file
  of the repository.
\<close>

unbundle bit_operations_syntax

named_theorems codec \<comment> \<open>round-trip equations of the byte codecs\<close>
named_theorems frame \<comment> \<open>which parts of a state an operation leaves alone\<close>

section \<open>Machine integers\<close>

type_synonym u8 = "8 word"
type_synonym u16 = "16 word"
type_synonym u32 = "32 word"
type_synonym u64 = "64 word"
type_synonym bytes = "8 word list"

definition saturating_sub :: "'a::len word \<Rightarrow> 'a word \<Rightarrow> 'a word" where
  "saturating_sub x y = (if x < y then 0 else x - y)"

definition saturating_add :: "'a::len word \<Rightarrow> 'a word \<Rightarrow> 'a word" where
  "saturating_add x y = (if x + y < x then - 1 else x + y)"

definition saturating_mul :: "'a::len word \<Rightarrow> 'a word \<Rightarrow> 'a word" where
  "saturating_mul x y = (if unat x * unat y < 2 ^ LENGTH('a) then x * y else - 1)"

lemma unat_saturating_sub [simp]: "unat (saturating_sub x y) = unat x - unat y"
  by (simp add: saturating_sub_def unat_sub_if' word_less_nat_alt)

lemma saturating_sub_self [simp]: "saturating_sub x x = 0"
  by (simp add: saturating_sub_def)

lemma unat_minus_one [simp]: "unat (- 1 :: 'a::len word) = 2 ^ LENGTH('a) - 1"
  by (simp add: unsigned_minus_1_eq_mask mask_eq_exp_minus_1)

lemma unat_saturating_add:
  "unat (saturating_add x y) = min (unat x + unat y) (2 ^ LENGTH('a) - 1)"
  for x y :: "'a::len word"
proof (cases "unat x + unat y < 2 ^ LENGTH('a)")
  case True
  then have s: "unat (x + y) = unat x + unat y"
    by (simp add: unat_add_lem)
  then have "\<not> x + y < x"
    by (simp add: word_less_nat_alt)
  with s True show ?thesis
    by (simp add: saturating_add_def)
next
  case False
  then have "unat (x + y) = unat x + unat y - 2 ^ LENGTH('a)"
    by (simp add: unat_plus_if_size size_word.rep_eq)
  moreover have "unat y < 2 ^ LENGTH('a)"
    by (rule unsigned_less)
  ultimately have "x + y < x"
    using False unfolding word_less_nat_alt by linarith
  with False show ?thesis
    by (simp add: saturating_add_def)
qed

lemma unat_saturating_mul:
  "unat (saturating_mul x y) = min (unat x * unat y) (2 ^ LENGTH('a) - 1)"
  for x y :: "'a::len word"
  by (auto simp: saturating_mul_def unat_mult_lem [THEN iffD1] not_less)

lemma unat_word_lt [intro, simp]: "unat x < 2 ^ LENGTH('a)" for x :: "'a::len word"
  by (rule unsigned_less)

section \<open>Byte order\<close>

text \<open>
  Both build targets (x86-64 and \<^verbatim>\<open>bpfel\<close>) are little-endian: \<open>to_be\<close> and \<open>from_be\<close> swap the
  bytes, and the memory image of an integer starts with its least significant byte.
\<close>

definition be16 :: "u8 \<Rightarrow> u8 \<Rightarrow> u16" where
  "be16 a b = push_bit 8 (ucast a) OR ucast b"

definition be32 :: "u8 \<Rightarrow> u8 \<Rightarrow> u8 \<Rightarrow> u8 \<Rightarrow> u32" where
  "be32 a b c d = push_bit 24 (ucast a) OR push_bit 16 (ucast b) OR push_bit 8 (ucast c) OR ucast d"

definition swap16 :: "u16 \<Rightarrow> u16" where
  "swap16 x = be16 (ucast x) (ucast (drop_bit 8 x))"

definition swap32 :: "u32 \<Rightarrow> u32" where
  "swap32 x = be32 (ucast x) (ucast (drop_bit 8 x)) (ucast (drop_bit 16 x)) (ucast (drop_bit 24 x))"

abbreviation to_be16 :: "u16 \<Rightarrow> u16" where "to_be16 \<equiv> swap16"
abbreviation from_be16 :: "u16 \<Rightarrow> u16" where "from_be16 \<equiv> swap16"
abbreviation to_be32 :: "u32 \<Rightarrow> u32" where "to_be32 \<equiv> swap32"

definition be_bytes16 :: "u16 \<Rightarrow> bytes" where
  "be_bytes16 x = [ucast (drop_bit 8 x), ucast x]"

definition be_bytes32 :: "u32 \<Rightarrow> bytes" where
  "be_bytes32 x = [ucast (drop_bit 24 x), ucast (drop_bit 16 x), ucast (drop_bit 8 x), ucast x]"

text \<open>The memory image of an integer on the little-endian targets.\<close>

definition ne_bytes16 :: "u16 \<Rightarrow> bytes" where
  "ne_bytes16 x = [ucast x, ucast (drop_bit 8 x)]"

definition ne_bytes32 :: "u32 \<Rightarrow> bytes" where
  "ne_bytes32 x = [ucast x, ucast (drop_bit 8 x), ucast (drop_bit 16 x), ucast (drop_bit 24 x)]"

definition ne_u16 :: "u8 \<Rightarrow> u8 \<Rightarrow> u16" where
  "ne_u16 a b = be16 b a"

lemma bit_u8_high [simp]:
  "\<not> bit a (8 + n)" "\<not> bit a (16 + n)" "\<not> bit a (24 + n)" for a :: u8
  by (auto dest: bit_imp_le_length)

lemma be16_bytes [simp]: "be16 (ucast (drop_bit 8 x)) (ucast x) = x"
  by (rule bit_word_eqI) (auto simp: be16_def bit_simps)

lemma be32_bytes [simp]:
  "be32 (ucast (drop_bit 24 x)) (ucast (drop_bit 16 x)) (ucast (drop_bit 8 x)) (ucast x) = x"
proof (rule bit_word_eqI)
  fix n assume "n < LENGTH(32)"
  then consider "n < 8" | "8 \<le> n" "n < 16" | "16 \<le> n" "n < 24" | "24 \<le> n" "n < 32"
    by force
  then show "bit (be32 (ucast (drop_bit 24 x)) (ucast (drop_bit 16 x))
      (ucast (drop_bit 8 x)) (ucast x)) n = bit x n"
    by cases (auto simp: be32_def bit_simps)
qed

lemma ucast_be16 [simp]:
  "ucast (be16 a b) = b" "ucast (drop_bit 8 (be16 a b)) = a"
  by (auto intro!: bit_word_eqI simp: be16_def bit_simps)

lemma ucast_be32 [simp]:
  "ucast (be32 a b c d) = d" "ucast (drop_bit 8 (be32 a b c d)) = c"
  "ucast (drop_bit 16 (be32 a b c d)) = b" "ucast (drop_bit 24 (be32 a b c d)) = a"
  by (auto intro!: bit_word_eqI simp: be32_def bit_simps)

lemma be16_eq_iff [simp]: "be16 a b = be16 c d \<longleftrightarrow> a = c \<and> b = d"
  by (metis ucast_be16)

lemma be32_eq_iff [simp]:
  "be32 a b c d = be32 a' b' c' d' \<longleftrightarrow> a = a' \<and> b = b' \<and> c = c' \<and> d = d'"
  by (metis ucast_be32)

lemma swap16_swap16 [simp]: "swap16 (swap16 x) = x"
  by (simp add: swap16_def)

lemma swap16_eq_iff [simp]: "swap16 x = swap16 y \<longleftrightarrow> x = y"
  by (metis swap16_swap16)

lemma swap32_swap32 [simp]: "swap32 (swap32 x) = x"
  by (simp add: swap32_def)

lemma ne_bytes16_to_be: "ne_bytes16 (swap16 x) = be_bytes16 x"
  by (simp add: ne_bytes16_def be_bytes16_def swap16_def)

lemma ne_bytes32_to_be: "ne_bytes32 (swap32 x) = be_bytes32 x"
  by (simp add: ne_bytes32_def be_bytes32_def swap32_def)

lemma swap16_ne_u16 [simp]: "swap16 (ne_u16 a b) = be16 a b"
  by (simp add: swap16_def ne_u16_def)

lemma be16_add: "be16 a b = push_bit 8 (ucast a) + ucast b"
  unfolding be16_def
  by (rule disjunctive_add [symmetric]) (auto simp: bit_simps dest: bit_imp_le_length)

lemma unat_be16: "unat (be16 a b) = 256 * unat a + unat b"
proof -
  have a: "unat a < 256" and b: "unat b < 256"
    using unat_word_lt [of a] unat_word_lt [of b] by auto
  have "(of_nat (256 * unat a + unat b) :: u16) = 256 * ucast a + ucast b"
    by (simp add: unsigned_ucast_eq)
  then have "be16 a b = of_nat (256 * unat a + unat b)"
    by (simp add: be16_add push_bit_eq_mult mult.commute)
  then have "unat (be16 a b) = (256 * unat a + unat b) mod 2 ^ 16"
    by (simp only: unat_of_nat) simp
  with a b show ?thesis by simp
qed

section \<open>Little-endian byte strings\<close>

primrec le_enc :: "nat \<Rightarrow> nat \<Rightarrow> bytes" where
  "le_enc 0 n = []"
| "le_enc (Suc k) n = of_nat (n mod 256) # le_enc k (n div 256)"

primrec le_dec :: "bytes \<Rightarrow> nat" where
  "le_dec [] = 0"
| "le_dec (b # bs) = unat b + 256 * le_dec bs"

lemma length_le_enc [simp]: "length (le_enc k n) = k"
  by (induction k arbitrary: n) simp_all

lemma unat_of_nat_byte [simp]: "unat (of_nat (n mod 256) :: u8) = n mod 256"
  by (simp add: unat_of_nat)

lemma le_dec_enc [simp]: "le_dec (le_enc k n) = n mod 256 ^ k"
proof (induction k arbitrary: n)
  case (Suc k)
  have "n mod 256 + 256 * (n div 256 mod 256 ^ k) = n mod (256 * 256 ^ k)"
    by (metis add.commute mod_mult2_eq)
  with Suc show ?case by simp
qed simp

lemma le_enc_inj: "n < 256 ^ k \<Longrightarrow> m < 256 ^ k \<Longrightarrow> le_enc k n = le_enc k m \<longleftrightarrow> n = m"
  by (metis le_dec_enc mod_less)

section \<open>Folding a ones'-complement sum\<close>

definition fold16 :: "u32 \<Rightarrow> u32" where
  "fold16 s = (s AND 0xffff) + drop_bit 16 s"

lemma unat_and_ffff: "unat (s AND 0xffff) = unat s mod 65536" for s :: u32
proof -
  have "s AND 0xffff = take_bit 16 s"
    by (simp add: take_bit_eq_mask mask_eq_exp_minus_1)
  then show ?thesis
    by (simp add: unsigned_take_bit_eq take_bit_eq_mod unat_mod)
qed

lemma unat_fold16: "unat (fold16 s) = unat s mod 65536 + unat s div 65536"
proof -
  have lt: "unat s < 2 ^ 32" using unat_word_lt [of s] by simp
  have hi: "unat (drop_bit 16 s) = unat s div 65536"
    by (simp add: unat_drop_bit_eq drop_bit_eq_div unat_div)
  have "unat s div 65536 < 65536" using lt by simp
  moreover have "unat s mod 65536 < 65536" by simp
  ultimately have "unat s mod 65536 + unat s div 65536 < 2 ^ LENGTH(32)" by simp
  then show ?thesis
    unfolding fold16_def by (subst unat_add_lem [THEN iffD1]) (simp_all add: unat_and_ffff hi)
qed

lemma fold16_mod: "unat (fold16 s) mod 65535 = unat s mod 65535"
proof -
  let ?q = "unat s div 65536" and ?r = "unat s mod 65536"
  have "unat s = ?r + 65536 * ?q" by simp
  then have "unat s = (?r + ?q) + ?q * 65535" by linarith
  then have "unat s mod 65535 = (?r + ?q) mod 65535"
    by (metis mod_mult_self1)
  then show ?thesis by (simp add: unat_fold16)
qed

lemma fold16_pos: "0 < unat (fold16 s) \<longleftrightarrow> 0 < unat s"
proof -
  let ?q = "unat s div 65536" and ?r = "unat s mod 65536"
  have "unat s = ?r + 65536 * ?q" by simp
  then show ?thesis unfolding unat_fold16 by linarith
qed

lemma fold16_le: "unat s \<le> 65536 + n \<Longrightarrow> n \<le> 65534 \<Longrightarrow> unat (fold16 s) \<le> 65535"
proof -
  assume s: "unat s \<le> 65536 + n" and n: "n \<le> 65534"
  show ?thesis
  proof (cases "unat s < 65536")
    case True
    then show ?thesis by (simp add: unat_fold16)
  next
    case False
    with s n have "unat s = 65536 * 1 + (unat s - 65536)" "unat s - 65536 < 65536" by auto
    then have "unat s div 65536 = 1" "unat s mod 65536 = unat s - 65536"
      by (metis div_mult_self4 div_less add.right_neutral zero_neq_numeral, metis mod_mult_self4 mod_less)
    with s n show ?thesis by (simp add: unat_fold16)
  qed
qed

lemma fold16_twice_le: "unat (fold16 (fold16 s)) \<le> 65535"
proof -
  have "unat s < 65536 * 65536" using unat_word_lt [of s] by simp
  then have "unat s div 65536 < 65536" by (rule less_mult_imp_div_less)
  moreover have "unat s mod 65536 < 65536" by simp
  ultimately have "unat (fold16 s) \<le> 65536 + 65534" unfolding unat_fold16 by linarith
  then show ?thesis by (rule fold16_le) simp
qed

text \<open>The receiver's test: folding twice gives all ones exactly when the sum is a positive
  multiple of 65535.\<close>

lemma fold16_all_ones:
  "fold16 (fold16 s) = 0xffff \<longleftrightarrow> 0 < unat s \<and> 65535 dvd unat s"
proof -
  let ?f = "unat (fold16 (fold16 s))"
  have "fold16 (fold16 s) = 0xffff \<longleftrightarrow> ?f = 65535"
    by (simp add: word_unat_eq_iff)
  also have "\<dots> \<longleftrightarrow> 0 < ?f \<and> ?f mod 65535 = 0"
    using fold16_twice_le [of s] by (cases "?f = 65535") (auto simp: le_less)
  also have "\<dots> \<longleftrightarrow> 0 < unat s \<and> 65535 dvd unat s"
    by (simp only: fold16_pos fold16_mod dvd_eq_mod_eq_0)
  finally show ?thesis .
qed

section \<open>Words and natural numbers\<close>

lemma unat_eq_iff: "unat (a :: 'a :: len word) = unat b \<longleftrightarrow> a = b"
  using word_eq_iff_unsigned[of a b, where ?'a = nat] by auto

lemma unat_of_nat_lt: "n < 2 ^ LENGTH('a) \<Longrightarrow> unat (of_nat n :: 'a :: len word) = n"
  by (simp add: unsigned_of_nat take_bit_nat_eq_self)

lemma unat_add_lt:
  "unat a + unat b < 2 ^ LENGTH('a) \<Longrightarrow> unat (a + b) = unat a + unat (b :: 'a :: len word)"
  by (simp add: unat_word_ariths)

lemma unat_ucast_u16_u32 [simp]: "unat (ucast x :: u32) = unat x" for x :: u16
proof -
  have "unat x < 2 ^ 16" using unat_word_lt [of x] by simp
  then show ?thesis by (simp add: unsigned_ucast_eq take_bit_nat_eq_self)
qed

end
