(* ===== verification/Common.thy ===== *)
theory Common
  imports Prelude
begin

text \<open>
  The crate \<^verbatim>\<open>edge-lb-common\<close>: the map ABI shared by the eBPF programs and the daemon
  (\<^verbatim>\<open>lib.rs\<close>), the flow-key pairing functions, the flow and bucket hashes of the
  \<open>consistent_hash\<close> selector, and the redirect, return-lease and backend-return records with the
  packet-independent route validation (\<^verbatim>\<open>redirect.rs\<close>, \<^verbatim>\<open>return_redirect.rs\<close>,
  \<^verbatim>\<open>backend_redirect.rs\<close>).  Field names carry a two-letter prefix, because record fields are
  global constants.
\<close>

section \<open>Constants\<close>

abbreviation DEFAULT_DSCP :: u32 where "DEFAULT_DSCP \<equiv> 46"
abbreviation DEFAULT_PERSIST_TIMEOUT_SECS :: u32 where "DEFAULT_PERSIST_TIMEOUT_SECS \<equiv> 10800"
abbreviation NATIVE_SELECT_RR :: u32 where "NATIVE_SELECT_RR \<equiv> 0"
abbreviation NATIVE_SELECT_HASH :: u32 where "NATIVE_SELECT_HASH \<equiv> 1"
abbreviation NATIVE_SELECT_PRIORITY :: u32 where "NATIVE_SELECT_PRIORITY \<equiv> 2"
abbreviation NATIVE_SELECT_PERSIST :: u32 where "NATIVE_SELECT_PERSIST \<equiv> 3"
abbreviation NATIVE_SELECT_LC :: u32 where "NATIVE_SELECT_LC \<equiv> 4"
abbreviation NATIVE_SELECT_CONSISTENT_HASH :: u32 where "NATIVE_SELECT_CONSISTENT_HASH \<equiv> 5"
abbreviation MAX_TARGETS_PER_LISTENER :: u32 where "MAX_TARGETS_PER_LISTENER \<equiv> 64"
abbreviation NATIVE_CONSISTENT_HASH_BUCKETS :: u32 where "NATIVE_CONSISTENT_HASH_BUCKETS \<equiv> 1024"
abbreviation NATIVE_LISTENER_ID_CAPACITY :: u32 where "NATIVE_LISTENER_ID_CAPACITY \<equiv> 4096"
abbreviation BACKEND_RETURN_FLOW_TTL_NS :: u64 where "BACKEND_RETURN_FLOW_TTL_NS \<equiv> 10800000000000"

section \<open>Map keys and values of the native DNAT datapath\<close>

record Stats =
  st_matched :: u64
  st_changed :: u64

record NativeListenerLookupKey =
  lk_vip :: u32
  lk_port :: u16
  lk_proto :: u8
  lk_pad :: u8

record NativeListenerLookupValue =
  lv_listener_id :: u32
  lv_target_base :: u32
  lv_target_count :: u32
  lv_weight_total :: u32
  lv_select :: u32
  lv_flags :: u32
  lv_timeout_secs :: u32
  lv_dscp :: u32

record NativeTargetKey =
  tk_listener_id :: u32
  tk_target_id :: u32

record NativeTargetValue =
  tv_address :: u32
  tv_port :: u16
  tv_weight :: u16
  tv_flags :: u32

record NativeTargetLoadKey =
  ld_listener_id :: u32
  ld_target_id :: u32

record NativeConsistentHashBucketKey =
  bk_listener_id :: u32
  bk_bucket :: u32

record NativeConsistentHashBucketValue =
  bv_target_id :: u32

record NativeFlowKey =
  fk_src :: u32
  fk_dst :: u32
  fk_sport :: u16
  fk_dport :: u16
  fk_proto :: u8
  fk_pad :: bytes

record NativeFlowValue =
  fv_listener_id :: u32
  fv_target_id :: u32
  fv_vip :: u32
  fv_target :: u32
  fv_vip_port :: u16
  fv_target_port :: u16
  fv_timeout_secs :: u32
  fv_last_seen_ns :: u64

record NativeFlowEvent =
  ev_key :: NativeFlowKey
  ev_value :: NativeFlowValue
  ev_op :: u8

record NativeDatapathStats =
  ds_listener_hit :: u64
  ds_listener_miss :: u64
  ds_return_miss :: u64
  ds_target_miss :: u64
  ds_rewritten :: u64
  ds_checksum_error :: u64
  ds_chash_bucket_hit :: u64
  ds_chash_bucket_miss :: u64
  ds_chash_bucket_unusable :: u64
  ds_chash_fallback :: u64
  ds_flow_event_lost :: u64

section \<open>Forward and reverse flow keys\<close>

definition reverse_for :: "NativeFlowKey \<Rightarrow> NativeFlowValue \<Rightarrow> NativeFlowKey" where
  "reverse_for k v = \<lparr>
     fk_src = fv_target v,
     fk_dst = fk_src k,
     fk_sport = to_be16 (fv_target_port v),
     fk_dport = fk_sport k,
     fk_proto = fk_proto k,
     fk_pad = [0, 0, 0]\<rparr>"

definition forward_for :: "NativeFlowKey \<Rightarrow> NativeFlowValue \<Rightarrow> NativeFlowKey" where
  "forward_for k v = \<lparr>
     fk_src = fk_dst k,
     fk_dst = fv_vip v,
     fk_sport = fk_dport k,
     fk_dport = fv_vip_port v,
     fk_proto = fk_proto k,
     fk_pad = [0, 0, 0]\<rparr>"

text \<open>\<open>forward_key k v\<close>: the key is the client-side key of a flow stored with value \<open>v\<close>;
  \<open>reverse_key k v\<close>: it is the backend-side key.\<close>

definition forward_key :: "NativeFlowKey \<Rightarrow> NativeFlowValue \<Rightarrow> bool" where
  "forward_key k v \<longleftrightarrow> fk_dst k = fv_vip v \<and> fk_dport k = fv_vip_port v \<and> fk_pad k = [0, 0, 0]"

definition reverse_key :: "NativeFlowKey \<Rightarrow> NativeFlowValue \<Rightarrow> bool" where
  "reverse_key k v \<longleftrightarrow>
     fk_src k = fv_target v \<and> fk_sport k = to_be16 (fv_target_port v) \<and> fk_pad k = [0, 0, 0]"

lemma reverse_for_sel [simp]:
  "fk_src (reverse_for k v) = fv_target v" "fk_dst (reverse_for k v) = fk_src k"
  "fk_sport (reverse_for k v) = to_be16 (fv_target_port v)"
  "fk_dport (reverse_for k v) = fk_sport k" "fk_proto (reverse_for k v) = fk_proto k"
  "fk_pad (reverse_for k v) = [0, 0, 0]"
  by (simp_all add: reverse_for_def)

lemma forward_for_sel [simp]:
  "fk_src (forward_for k v) = fk_dst k" "fk_dst (forward_for k v) = fv_vip v"
  "fk_sport (forward_for k v) = fk_dport k" "fk_dport (forward_for k v) = fv_vip_port v"
  "fk_proto (forward_for k v) = fk_proto k" "fk_pad (forward_for k v) = [0, 0, 0]"
  by (simp_all add: forward_for_def)

lemma forward_reverse: "forward_key k v \<Longrightarrow> forward_for (reverse_for k v) v = k"
  by (cases k) (simp add: forward_key_def forward_for_def)

lemma reverse_forward: "reverse_key k v \<Longrightarrow> reverse_for (forward_for k v) v = k"
  by (cases k) (simp add: reverse_key_def reverse_for_def)

lemma reverse_key_reverse_for [simp, intro]: "reverse_key (reverse_for k v) v"
  by (simp add: reverse_key_def)

lemma forward_key_forward_for [simp, intro]: "forward_key (forward_for k v) v"
  by (simp add: forward_key_def)

text \<open>Only the addresses of the value matter to the pairing, not its timestamp.\<close>

lemma reverse_for_last_seen [simp]: "reverse_for k (v\<lparr>fv_last_seen_ns := n\<rparr>) = reverse_for k v"
  by (simp add: reverse_for_def)

lemma forward_for_last_seen [simp]: "forward_for k (v\<lparr>fv_last_seen_ns := n\<rparr>) = forward_for k v"
  by (simp add: forward_for_def)

section \<open>Hashes of the consistent-hash selector\<close>

definition mix32 :: "u32 \<Rightarrow> u32" where
  "mix32 value0 =
     (let value1 = value0 XOR drop_bit 16 value0;
          value2 = value1 * 0x7feb352d;
          value3 = value2 XOR drop_bit 15 value2;
          value4 = value3 * 0x846ca68b
      in value4 XOR drop_bit 16 value4)"

definition mix64 :: "u64 \<Rightarrow> u64" where
  "mix64 value0 =
     (let value1 = value0 XOR drop_bit 30 value0;
          value2 = value1 * 0xbf58476d1ce4e5b9;
          value3 = value2 XOR drop_bit 27 value2;
          value4 = value3 * 0x94d049bb133111eb
      in value4 XOR drop_bit 31 value4)"

definition hash_step :: "u32 \<Rightarrow> u32 \<Rightarrow> u32" where
  "hash_step hash v = (hash * 0x01000193) XOR v"

definition hash_step64 :: "u64 \<Rightarrow> u64 \<Rightarrow> u64" where
  "hash_step64 hash v = (hash * 0x00000100000001b3) XOR v"

definition native_consistent_flow_hash :: "NativeFlowKey \<Rightarrow> u32" where
  "native_consistent_flow_hash key =
     (let hash0 = 0x811c9dc5;
          hash1 = hash_step hash0 (fk_src key);
          hash2 = hash_step hash1 (push_bit 16 (ucast (fk_sport key)) OR ucast (fk_dport key));
          hash3 = hash_step hash2 (ucast (fk_proto key))
      in mix32 hash3)"

definition native_consistent_flow_bucket :: "NativeFlowKey \<Rightarrow> u32" where
  "native_consistent_flow_bucket key =
     native_consistent_flow_hash key AND (NATIVE_CONSISTENT_HASH_BUCKETS - 1)"

definition native_consistent_bucket_score :: "u32 \<Rightarrow> NativeTargetValue \<Rightarrow> u64" where
  "native_consistent_bucket_score bucket target =
     (let hash0 = 0xcbf29ce484222325;
          hash1 = hash_step64 hash0 (ucast bucket);
          hash2 = hash_step64 hash1 (ucast (tv_address target));
          hash3 = hash_step64 hash2 (ucast (tv_port target))
      in mix64 hash3)"

lemma flow_bucket_lt: "native_consistent_flow_bucket key < NATIVE_CONSISTENT_HASH_BUCKETS"
proof -
  have "native_consistent_flow_bucket key \<le> 1023"
    unfolding native_consistent_flow_bucket_def by (simp add: word_and_le1)
  then show ?thesis
    by (simp add: word_le_nat_alt word_less_nat_alt)
qed

lemma flow_hash_vip_independent:
  "native_consistent_flow_hash (key\<lparr>fk_dst := d\<rparr>) = native_consistent_flow_hash key"
  by (simp add: native_consistent_flow_hash_def)

lemma bucket_score_identity:
  "tv_address t = tv_address t' \<Longrightarrow> tv_port t = tv_port t' \<Longrightarrow>
    native_consistent_bucket_score b t = native_consistent_bucket_score b t'"
  by (simp add: native_consistent_bucket_score_def)

section \<open>Redirect routes\<close>

record NativeTargetRoute =
  tr_expires_ns :: u64
  tr_target :: u32
  tr_ingress_ifindex :: u32
  tr_ifindex :: u32
  tr_mtu :: u32
  tr_target_port :: u16
  tr_dscp :: u8
  tr_pad :: u8
  tr_source_mac :: bytes
  tr_destination_mac :: bytes

datatype RedirectFallback = InvalidRoute | Expired | TargetChanged | Ttl | Mtu | Unsupported

record RedirectPacket =
  rp_target :: u32
  rp_target_port :: u16
  rp_ingress_ifindex :: u32
  rp_ip_len :: u32
  rp_ttl :: u8
  rp_dscp :: u8

definition unicast_mac :: "bytes \<Rightarrow> bool" where
  "unicast_mac mac \<longleftrightarrow> mac \<noteq> replicate 6 0 \<and> mac ! 0 AND 1 = 0"

definition validate :: "NativeTargetRoute \<Rightarrow> RedirectPacket \<Rightarrow> u64 \<Rightarrow> RedirectFallback + unit" where
  "validate r p now_ns =
     (if tr_ifindex r = 0 \<or> tr_ingress_ifindex r = 0 \<or> tr_mtu r < 68 \<or> tr_dscp r > 63
         \<or> tr_pad r \<noteq> 0 \<or> \<not> unicast_mac (tr_source_mac r)
         \<or> \<not> unicast_mac (tr_destination_mac r)
      then Inl InvalidRoute
      else if tr_expires_ns r \<le> now_ns then Inl Expired
      else if tr_target r \<noteq> rp_target p \<or> tr_target_port r \<noteq> rp_target_port p
      then Inl TargetChanged
      else if tr_ingress_ifindex r \<noteq> rp_ingress_ifindex p \<or> tr_dscp r \<noteq> rp_dscp p
      then Inl Unsupported
      else if rp_ttl p \<le> 1 then Inl Ttl
      else if rp_ip_len p > tr_mtu r then Inl Mtu
      else Inr ())"

record NativeRedirectStats =
  rs_submitted :: u64
  rs_route_miss :: u64
  rs_route_invalid :: u64
  rs_expired :: u64
  rs_target_changed :: u64
  rs_ttl :: u64
  rs_mtu :: u64
  rs_unsupported :: u64
  rs_mutation_error :: u64

lemma validate_OkD:
  assumes "validate r p now = Inr ()"
  shows "tr_ifindex r \<noteq> 0" "unicast_mac (tr_source_mac r)" "unicast_mac (tr_destination_mac r)"
    "now < tr_expires_ns r" "tr_target r = rp_target p" "tr_target_port r = rp_target_port p"
    "tr_ingress_ifindex r = rp_ingress_ifindex p" "tr_dscp r = rp_dscp p"
    "1 < rp_ttl p" "rp_ip_len p \<le> tr_mtu r"
  using assms by (auto simp: validate_def not_le not_less split: if_splits)

section \<open>Return leases and the backend return path\<close>

record ReturnLeaseKey =
  rk_ingress_ifindex :: u32
  rk_ifindex :: u32
  rk_source :: u32

record ReturnLease =
  rl_expires_ns :: u64

record ReturnRedirectStats =
  rr_submitted :: u64
  rr_policy :: u64
  rr_expired :: u64
  rr_route :: u64
  rr_neighbor :: u64
  rr_ttl :: u64
  rr_mtu :: u64
  rr_unsupported :: u64
  rr_mutation_error :: u64

record BackendReturnDscp =
  bd_flags :: u32
  bd_return_ifindex :: u32
  bd_source_mac :: bytes
  bd_destination_mac :: bytes

record BackendReturnFlowKey =
  bf_src :: u32
  bf_dst :: u32
  bf_sport :: u16
  bf_dport :: u16
  bf_proto :: u8
  bf_pad :: bytes

record BackendReturnFlow =
  br_expires_ns :: u64
  br_return_ifindex :: u32
  br_source_mac :: bytes
  br_destination_mac :: bytes
  br_pad :: bytes

record BackendReturnStats =
  bs_learned :: u64
  bs_submitted :: u64
  bs_dscp_miss :: u64
  bs_flow_miss :: u64
  bs_expired :: u64
  bs_unsupported :: u64
  bs_mutation_error :: u64

end
