(* ===== verification/Skb.thy ===== *)
theory Skb
  imports Common
begin

text \<open>
  What the eBPF programs run on: the socket buffer, the maps (one record \<open>dp\<close> with a field per
  \<^verbatim>\<open>#[map]\<close> static of \<^verbatim>\<open>edge-lb-ebpf/src\<close>), and the environment record \<open>ebpf_env\<close> for the code
  that is not in the repository: the BPF helpers behind \<open>ctx.load\<close>, \<open>ctx.store\<close>, the checksum
  helpers, \<open>bpf_redirect\<close>, \<open>bpf_fib_lookup\<close>, the capacity behaviour of the kernel maps, and the
  header views of the crate \<^verbatim>\<open>network_types\<close>.  The predicates after the record state the
  documented behaviour of those functions; a theorem that needs one names it as a hypothesis.
  \<open>fresh_dp\<close> is the state of the maps when the object has just been loaded, and \<open>plain_env\<close> an
  environment that satisfies all the predicates: they serve the concrete examples.
\<close>

section \<open>Packets and verdicts\<close>

datatype tc_action = TC_ACT_PIPE | TC_ACT_SHOT | TC_ACT_REDIRECT | TC_ACT_CODE int

record skb =
  sk_data :: bytes
  sk_mark :: u32
  sk_pkt_type :: u32
  sk_vlan_present :: u32
  sk_gso_segs :: u32
  sk_gso_size :: u32
  sk_ingress_ifindex :: u32
  sk_ifindex :: u32

datatype IpProto = Tcp | Udp | OtherProto u8

primrec proto_u8 :: "IpProto \<Rightarrow> u8" where
  "proto_u8 Tcp = 6"
| "proto_u8 Udp = 17"
| "proto_u8 (OtherProto n) = n"

record Ipv4Hdr =
  ih_version :: u8
  ih_ihl :: u8
  ih_tos :: u8
  ih_proto :: IpProto
  ih_check :: bytes
  ih_frag_offset :: u16
  ih_frag_flags :: u8
  ih_src_addr :: bytes
  ih_dst_addr :: bytes

record fib_params =
  fp_family :: u8
  fp_l4_protocol :: u8
  fp_sport :: u16
  fp_dport :: u16
  fp_tot_len :: u16
  fp_tos :: u8
  fp_ipv4_src :: u32
  fp_ipv4_dst :: u32
  fp_ifindex :: u32
  fp_smac :: bytes
  fp_dmac :: bytes
  fp_vlan_proto :: u16

datatype fib_result = FIB_SUCCESS | FIB_NO_NEIGH | FIB_FRAG_NEEDED | FIB_OTHER int

section \<open>The maps of the eBPF object\<close>

type_synonym flow_map = "NativeFlowKey \<rightharpoonup> NativeFlowValue"

record dp =
  dp_target_ports :: "u32 \<rightharpoonup> u32"
  dp_dscp_cfg :: "u32 list"
  dp_stats :: Stats
  dp_listeners :: "NativeListenerLookupKey \<rightharpoonup> NativeListenerLookupValue"
  dp_targets :: "NativeTargetKey \<rightharpoonup> NativeTargetValue"
  dp_chash_buckets :: "NativeConsistentHashBucketKey \<rightharpoonup> NativeConsistentHashBucketValue"
  dp_rr_counters :: "u32 list"
  dp_active_flows :: "NativeTargetLoadKey \<rightharpoonup> u32"
  dp_flows :: flow_map
  dp_flow_events :: "NativeFlowEvent list"
  dp_native_stats :: NativeDatapathStats
  dp_target_routes :: "NativeTargetKey \<rightharpoonup> NativeTargetRoute"
  dp_redirect_stats :: NativeRedirectStats
  dp_local_addrs :: "u32 \<rightharpoonup> u32"
  dp_return_leases :: "ReturnLeaseKey \<rightharpoonup> ReturnLease"
  dp_return_stats :: ReturnRedirectStats
  dp_backend_dscp :: "u32 \<rightharpoonup> BackendReturnDscp"
  dp_backend_flows :: "BackendReturnFlowKey \<rightharpoonup> BackendReturnFlow"
  dp_backend_stats :: BackendReturnStats

section \<open>The environment: BPF helpers and header views\<close>

record ebpf_env =
  env_load :: "skb \<Rightarrow> nat \<Rightarrow> nat \<Rightarrow> bytes option"
  env_store :: "skb \<Rightarrow> nat \<Rightarrow> bytes \<Rightarrow> skb option"
  env_l3_csum_replace :: "skb \<Rightarrow> nat \<Rightarrow> u64 \<Rightarrow> u64 \<Rightarrow> u64 \<Rightarrow> skb option"
  env_l4_csum_replace :: "skb \<Rightarrow> nat \<Rightarrow> u64 \<Rightarrow> u64 \<Rightarrow> u64 \<Rightarrow> skb option"
  env_is_ipv4 :: "bytes \<Rightarrow> bool"
  env_ipv4 :: "bytes \<Rightarrow> Ipv4Hdr"
  env_l4_ports :: "IpProto \<Rightarrow> bytes \<Rightarrow> bytes \<times> bytes"
  env_redirect :: "u32 \<Rightarrow> tc_action"
  env_fib_lookup :: "skb \<Rightarrow> fib_params \<Rightarrow> fib_result \<times> fib_params"
  env_hash_recalc :: "skb \<Rightarrow> u32"
  env_flow_insert :: "flow_map \<Rightarrow> NativeFlowKey \<Rightarrow> NativeFlowValue \<Rightarrow> flow_map"
  env_active_insert ::
    "(NativeTargetLoadKey \<rightharpoonup> u32) \<Rightarrow> NativeTargetLoadKey \<Rightarrow> u32 \<Rightarrow> (NativeTargetLoadKey \<rightharpoonup> u32)"
  env_backend_insert ::
    "(BackendReturnFlowKey \<rightharpoonup> BackendReturnFlow) \<Rightarrow> BackendReturnFlowKey \<Rightarrow> BackendReturnFlow \<Rightarrow>
     (BackendReturnFlowKey \<rightharpoonup> BackendReturnFlow)"
  env_ring_output :: "NativeFlowEvent list \<Rightarrow> NativeFlowEvent \<Rightarrow> bool"

definition splice :: "nat \<Rightarrow> bytes \<Rightarrow> bytes \<Rightarrow> bytes" where
  "splice off bs d = take off d @ bs @ drop (off + length bs) d"

text \<open>\<^verbatim>\<open>bpf_skb_load_bytes\<close>: reads inside the packet, fails outside.\<close>

definition load_reads :: "ebpf_env \<Rightarrow> bool" where
  "load_reads env \<longleftrightarrow> (\<forall>s off n. env_load env s off n =
     (if off + n \<le> length (sk_data s) then Some (take n (drop off (sk_data s))) else None))"

text \<open>\<^verbatim>\<open>bpf_skb_store_bytes\<close>: on success exactly the addressed bytes change.  It may fail for
  other reasons than the range.\<close>

definition store_writes :: "ebpf_env \<Rightarrow> bool" where
  "store_writes env \<longleftrightarrow> (\<forall>s off bs s'. env_store env s off bs = Some s' \<longrightarrow>
     off + length bs \<le> length (sk_data s) \<and> s' = s\<lparr>sk_data := splice off bs (sk_data s)\<rparr>)"

text \<open>\<^verbatim>\<open>bpf_l3_csum_replace\<close> and \<^verbatim>\<open>bpf_l4_csum_replace\<close>: on success only the two bytes of the
  checksum field change.\<close>

definition csum_local :: "ebpf_env \<Rightarrow> bool" where
  "csum_local env \<longleftrightarrow> (\<forall>s off a b f s'.
     (env_l3_csum_replace env s off a b f = Some s' \<or> env_l4_csum_replace env s off a b f = Some s') \<longrightarrow>
     off + 2 \<le> length (sk_data s) \<and>
     (\<exists>c. length c = 2 \<and> s' = s\<lparr>sk_data := splice off c (sk_data s)\<rparr>))"

text \<open>The layout of the Ethernet, IPv4 and TCP/UDP headers, as the \<^verbatim>\<open>network_types\<close> structs lay
  them over the loaded bytes.\<close>

definition proto_of_u8 :: "u8 \<Rightarrow> IpProto" where
  "proto_of_u8 n = (if n = 6 then Tcp else if n = 17 then Udp else OtherProto n)"

definition ipv4_view :: "bytes \<Rightarrow> Ipv4Hdr" where
  "ipv4_view b = \<lparr>
     ih_version = drop_bit 4 (b ! 0), ih_ihl = push_bit 2 (b ! 0 AND 15), ih_tos = b ! 1,
     ih_proto = proto_of_u8 (b ! 9), ih_check = take 2 (drop 10 b),
     ih_frag_offset = be16 (b ! 6) (b ! 7) AND 0x1fff, ih_frag_flags = drop_bit 5 (b ! 6),
     ih_src_addr = take 4 (drop 12 b), ih_dst_addr = take 4 (drop 16 b)\<rparr>"

definition header_layout :: "ebpf_env \<Rightarrow> bool" where
  "header_layout env \<longleftrightarrow>
     (\<forall>b. env_is_ipv4 env b \<longleftrightarrow> be16 (b ! 12) (b ! 13) = 0x0800) \<and>
     (\<forall>b. env_ipv4 env b = ipv4_view b) \<and>
     (\<forall>p b. env_l4_ports env p b = (take 2 b, take 2 (drop 2 b)))"

text \<open>An LRU map insertion always stores the new entry and may evict others.\<close>

definition lru_insert :: "(('k \<rightharpoonup> 'v) \<Rightarrow> 'k \<Rightarrow> 'v \<Rightarrow> ('k \<rightharpoonup> 'v)) \<Rightarrow> bool" where
  "lru_insert ins \<longleftrightarrow> (\<forall>m k v. ins m k v k = Some v \<and>
     (\<forall>k'. k' \<noteq> k \<longrightarrow> ins m k v k' = m k' \<or> ins m k v k' = None))"

text \<open>A hash map insertion stores the entry or, when the map is full, changes nothing.\<close>

definition hash_insert :: "(('k \<rightharpoonup> 'v) \<Rightarrow> 'k \<Rightarrow> 'v \<Rightarrow> ('k \<rightharpoonup> 'v)) \<Rightarrow> bool" where
  "hash_insert ins \<longleftrightarrow> (\<forall>m k v. ins m k v = m(k \<mapsto> v) \<or> ins m k v = m)"

text \<open>\<^verbatim>\<open>u16::from_be_bytes\<close> and \<^verbatim>\<open>u32::from_be_bytes\<close> on byte arrays.\<close>

definition u16_from_be_bytes :: "bytes \<Rightarrow> u16" where
  "u16_from_be_bytes b = be16 (b ! 0) (b ! 1)"

definition u32_from_be_bytes :: "bytes \<Rightarrow> u32" where
  "u32_from_be_bytes b = be32 (b ! 0) (b ! 1) (b ! 2) (b ! 3)"

lemma u32_from_be_bytes_inv [simp]: "u32_from_be_bytes (be_bytes32 x) = x"
  by (simp add: u32_from_be_bytes_def be_bytes32_def)

lemma u16_from_be_bytes_inv [simp]: "u16_from_be_bytes (be_bytes16 x) = x"
  by (simp add: u16_from_be_bytes_def be_bytes16_def)

lemma load_readsD:
  "load_reads env \<Longrightarrow> env_load env s off n =
     (if off + n \<le> length (sk_data s) then Some (take n (drop off (sk_data s))) else None)"
  by (simp add: load_reads_def)

lemma store_writesD:
  "store_writes env \<Longrightarrow> env_store env s off bs = Some s' \<Longrightarrow>
     off + length bs \<le> length (sk_data s) \<and> s' = s\<lparr>sk_data := splice off bs (sk_data s)\<rparr>"
  by (simp add: store_writes_def)

lemma length_splice [simp]: "off + length bs \<le> length d \<Longrightarrow> length (splice off bs d) = length d"
  by (simp add: splice_def)

lemma nth_splice:
  "off + length bs \<le> length d \<Longrightarrow>
   splice off bs d ! i = (if off \<le> i \<and> i < off + length bs then bs ! (i - off) else d ! i)"
  by (auto simp: splice_def nth_append)

section \<open>The loaded object and a concrete environment\<close>

definition fresh_dp :: dp where
  "fresh_dp = \<lparr>
     dp_target_ports = Map.empty, dp_dscp_cfg = [0],
     dp_stats = \<lparr>st_matched = 0, st_changed = 0\<rparr>,
     dp_listeners = Map.empty, dp_targets = Map.empty, dp_chash_buckets = Map.empty,
     dp_rr_counters = replicate 4096 0, dp_active_flows = Map.empty, dp_flows = Map.empty,
     dp_flow_events = [],
     dp_native_stats = \<lparr>ds_listener_hit = 0, ds_listener_miss = 0, ds_return_miss = 0,
       ds_target_miss = 0, ds_rewritten = 0, ds_checksum_error = 0, ds_chash_bucket_hit = 0,
       ds_chash_bucket_miss = 0, ds_chash_bucket_unusable = 0, ds_chash_fallback = 0,
       ds_flow_event_lost = 0\<rparr>,
     dp_target_routes = Map.empty,
     dp_redirect_stats = \<lparr>rs_submitted = 0, rs_route_miss = 0, rs_route_invalid = 0, rs_expired = 0,
       rs_target_changed = 0, rs_ttl = 0, rs_mtu = 0, rs_unsupported = 0, rs_mutation_error = 0\<rparr>,
     dp_local_addrs = Map.empty, dp_return_leases = Map.empty,
     dp_return_stats = \<lparr>rr_submitted = 0, rr_policy = 0, rr_expired = 0, rr_route = 0,
       rr_neighbor = 0, rr_ttl = 0, rr_mtu = 0, rr_unsupported = 0, rr_mutation_error = 0\<rparr>,
     dp_backend_dscp = Map.empty, dp_backend_flows = Map.empty,
     dp_backend_stats = \<lparr>bs_learned = 0, bs_submitted = 0, bs_dscp_miss = 0, bs_flow_miss = 0,
       bs_expired = 0, bs_unsupported = 0, bs_mutation_error = 0\<rparr>\<rparr>"

definition plain_csum :: "skb \<Rightarrow> nat \<Rightarrow> u64 \<Rightarrow> u64 \<Rightarrow> u64 \<Rightarrow> skb option" where
  "plain_csum s off a b f =
     (if off + 2 \<le> length (sk_data s)
      then Some (s\<lparr>sk_data := splice off (be_bytes16 (be16 (sk_data s ! off) (sk_data s ! (off + 1))
                    + ucast a - ucast b)) (sk_data s)\<rparr>)
      else None)"

definition plain_env :: ebpf_env where
  "plain_env = \<lparr>
     env_load = (\<lambda>s off n. if off + n \<le> length (sk_data s)
        then Some (take n (drop off (sk_data s))) else None),
     env_store = (\<lambda>s off bs. if off + length bs \<le> length (sk_data s)
        then Some (s\<lparr>sk_data := splice off bs (sk_data s)\<rparr>) else None),
     env_l3_csum_replace = plain_csum, env_l4_csum_replace = plain_csum,
     env_is_ipv4 = (\<lambda>b. be16 (b ! 12) (b ! 13) = 0x0800),
     env_ipv4 = ipv4_view,
     env_l4_ports = (\<lambda>p b. (take 2 b, take 2 (drop 2 b))),
     env_redirect = (\<lambda>_. TC_ACT_REDIRECT),
     env_fib_lookup = (\<lambda>s p. (FIB_NO_NEIGH, p)),
     env_hash_recalc = (\<lambda>_. 0),
     env_flow_insert = (\<lambda>m k v. m(k \<mapsto> v)),
     env_active_insert = (\<lambda>m k v. m(k \<mapsto> v)),
     env_backend_insert = (\<lambda>m k v. m(k \<mapsto> v)),
     env_ring_output = (\<lambda>_ _. True)\<rparr>"

lemma length_be_bytes16 [simp]: "length (be_bytes16 x) = 2"
  by (simp add: be_bytes16_def)

lemma plain_csum_local:
  "plain_csum s off a b f = Some s' \<Longrightarrow> off + 2 \<le> length (sk_data s) \<and>
     (\<exists>c. length c = 2 \<and> s' = s\<lparr>sk_data := splice off c (sk_data s)\<rparr>)"
  unfolding plain_csum_def
  by (simp split: if_splits) (rule exI, rule conjI, rule length_be_bytes16, erule sym)

lemma plain_env_laws [simp]:
  "load_reads plain_env" "store_writes plain_env" "csum_local plain_env" "header_layout plain_env"
  "lru_insert (env_flow_insert plain_env)" "hash_insert (env_active_insert plain_env)"
  "lru_insert (env_backend_insert plain_env)"
        apply (simp add: load_reads_def plain_env_def)
       apply (simp add: store_writes_def plain_env_def)
      apply (use plain_csum_local in \<open>simp add: csum_local_def plain_env_def\<close>)
  by (simp_all add: header_layout_def plain_env_def lru_insert_def hash_insert_def)

end
