(* ===== verification/Selector.thy ===== *)
theory Selector
  imports Skb
begin

text \<open>
  Target selection of \<^verbatim>\<open>edge-lb-ebpf/src/main.rs\<close> (\<open>select_target\<close> and the routines below it).
  The bounded \<^verbatim>\<open>while\<close> loops over \<open>MAX_TARGETS_PER_LISTENER\<close> slots are recursions on the number
  of iterations left.  The contract of a selector (it answers with a usable slot or with the
  sentinel, it finds a slot whenever its precondition holds and one is usable, it writes only the
  round-robin counters and the statistics) is the locale \<open>target_selector\<close>; every selector of the
  source interprets it, and \<open>select_target\<close> inherits it.
\<close>

section \<open>Operations\<close>

definition native_bump :: "(NativeDatapathStats \<Rightarrow> NativeDatapathStats) \<Rightarrow> dp \<Rightarrow> dp" where
  "native_bump update d = d\<lparr>dp_native_stats := update (dp_native_stats d)\<rparr>"

definition target_slot_is_usable :: "dp \<Rightarrow> u32 \<Rightarrow> u32 \<Rightarrow> bool" where
  "target_slot_is_usable d listener_id target_id =
     (case dp_targets d \<lparr>tk_listener_id = listener_id, tk_target_id = target_id\<rparr> of
        Some target \<Rightarrow> tv_flags target AND 1 \<noteq> 0 \<and> tv_weight target > 0
      | None \<Rightarrow> False)"

primrec first_usable_from :: "dp \<Rightarrow> u32 \<Rightarrow> u32 \<Rightarrow> nat \<Rightarrow> u32 \<Rightarrow> u32" where
  "first_usable_from d listener_id count 0 index = MAX_TARGETS_PER_LISTENER"
| "first_usable_from d listener_id count (Suc left) index =
     (if index \<ge> count then MAX_TARGETS_PER_LISTENER
      else if target_slot_is_usable d listener_id index then index
      else first_usable_from d listener_id count left (index + 1))"

definition first_usable_target :: "dp \<Rightarrow> u32 \<Rightarrow> u32 \<Rightarrow> u32" where
  "first_usable_target d listener_id count = first_usable_from d listener_id count 64 0"

text \<open>The shared cursor: \<^verbatim>\<open>NATIVE_RR_COUNTERS.get_ptr_mut(id - 1)\<close>, read and incremented.\<close>

definition next_cursor :: "NativeListenerLookupValue \<Rightarrow> dp \<Rightarrow> u32 \<times> dp" where
  "next_cursor listener d =
     (let index = unat (saturating_sub (lv_listener_id listener) 1) in
      if index < length (dp_rr_counters d)
      then let current = dp_rr_counters d ! index
           in (current, d\<lparr>dp_rr_counters := (dp_rr_counters d)[index := current + 1]\<rparr>)
      else (0, d))"

primrec weighted_from ::
    "dp \<Rightarrow> NativeListenerLookupValue \<Rightarrow> u32 \<Rightarrow> nat \<Rightarrow> u32 \<Rightarrow> u32 \<Rightarrow> u32" where
  "weighted_from d listener count 0 index cursor = MAX_TARGETS_PER_LISTENER"
| "weighted_from d listener count (Suc left) index cursor =
     (if index \<ge> count then MAX_TARGETS_PER_LISTENER
      else case dp_targets d \<lparr>tk_listener_id = lv_listener_id listener, tk_target_id = index\<rparr> of
        Some target \<Rightarrow>
          if tv_flags target AND 1 \<noteq> 0 \<and> tv_weight target > 0
          then if cursor < ucast (tv_weight target) then index
               else weighted_from d listener count left (index + 1) (cursor - ucast (tv_weight target))
          else weighted_from d listener count left (index + 1) cursor
      | None \<Rightarrow> weighted_from d listener count left (index + 1) cursor)"

definition select_weighted_hash :: "dp \<Rightarrow> u32 \<Rightarrow> NativeListenerLookupValue \<Rightarrow> u32 \<Rightarrow> u32" where
  "select_weighted_hash d hash listener count =
     (if lv_weight_total listener = 0 then MAX_TARGETS_PER_LISTENER
      else weighted_from d listener count 64 0 (hash mod lv_weight_total listener))"

definition select_hash_slot :: "u32 \<Rightarrow> NativeListenerLookupValue \<Rightarrow> u32 \<Rightarrow> dp \<Rightarrow> u32 \<times> dp" where
  "select_hash_slot hash listener count d =
     (if count = 0 then (MAX_TARGETS_PER_LISTENER, d)
      else let candidate = hash mod count in
        if target_slot_is_usable d (lv_listener_id listener) candidate then (candidate, d)
        else (first_usable_target d (lv_listener_id listener) count, d))"

definition select_persist_slot :: "u32 \<Rightarrow> NativeListenerLookupValue \<Rightarrow> u32 \<Rightarrow> dp \<Rightarrow> u32 \<times> dp" where
  "select_persist_slot client_ip listener count d =
     (if count = 0 then (MAX_TARGETS_PER_LISTENER, d)
      else let primary = ((client_ip AND 0xff) XOR (drop_bit 24 client_ip AND 0xff)) mod count in
        if target_slot_is_usable d (lv_listener_id listener) primary then (primary, d)
        else let secondary =
               ((drop_bit 8 client_ip AND 0xff) XOR (drop_bit 16 client_ip AND 0xff)) mod count in
          if target_slot_is_usable d (lv_listener_id listener) secondary then (secondary, d)
          else (first_usable_target d (lv_listener_id listener) count, d))"

definition select_weighted_round_robin :: "NativeListenerLookupValue \<Rightarrow> u32 \<Rightarrow> dp \<Rightarrow> u32 \<times> dp" where
  "select_weighted_round_robin listener count d =
     (case next_cursor listener d of
        (cursor, d') \<Rightarrow> (select_weighted_hash d' cursor listener count, d'))"

primrec round_robin_from :: "dp \<Rightarrow> u32 \<Rightarrow> u32 \<Rightarrow> u32 \<Rightarrow> nat \<Rightarrow> u32 \<Rightarrow> u32" where
  "round_robin_from d listener_id count cursor 0 offset = MAX_TARGETS_PER_LISTENER"
| "round_robin_from d listener_id count cursor (Suc left) offset =
     (if offset \<ge> count then MAX_TARGETS_PER_LISTENER
      else let candidate = (cursor + offset) mod count in
        if target_slot_is_usable d listener_id candidate then candidate
        else round_robin_from d listener_id count cursor left (offset + 1))"

definition select_round_robin :: "NativeListenerLookupValue \<Rightarrow> u32 \<Rightarrow> dp \<Rightarrow> u32 \<times> dp" where
  "select_round_robin listener count d =
     (case next_cursor listener d of
        (cursor, d') \<Rightarrow> (round_robin_from d' (lv_listener_id listener) count cursor 64 0, d'))"

definition select_consistent_hash ::
    "NativeFlowKey \<Rightarrow> NativeListenerLookupValue \<Rightarrow> u32 \<Rightarrow> dp \<Rightarrow> u32 \<times> dp" where
  "select_consistent_hash key listener count d =
     (let fallback = (\<lambda>d'.
            (let d'' = native_bump (\<lambda>s. s\<lparr>ds_chash_fallback := ds_chash_fallback s + 1\<rparr>) d'
             in (first_usable_target d'' (lv_listener_id listener) count, d''))) in
      case dp_chash_buckets d \<lparr>bk_listener_id = lv_listener_id listener,
                               bk_bucket = native_consistent_flow_bucket key\<rparr> of
        Some val \<Rightarrow>
          let d1 = native_bump (\<lambda>s. s\<lparr>ds_chash_bucket_hit := ds_chash_bucket_hit s + 1\<rparr>) d;
              target_id = bv_target_id val in
          if target_id < count \<and> target_slot_is_usable d1 (lv_listener_id listener) target_id
          then (target_id, d1)
          else fallback (native_bump
                 (\<lambda>s. s\<lparr>ds_chash_bucket_unusable := ds_chash_bucket_unusable s + 1\<rparr>) d1)
      | None \<Rightarrow>
          fallback (native_bump (\<lambda>s. s\<lparr>ds_chash_bucket_miss := ds_chash_bucket_miss s + 1\<rparr>) d))"

definition flow_load :: "dp \<Rightarrow> u32 \<Rightarrow> u32 \<Rightarrow> u32" where
  "flow_load d listener_id target_id =
     (case dp_active_flows d \<lparr>ld_listener_id = listener_id, ld_target_id = target_id\<rparr> of
        Some load \<Rightarrow> load | None \<Rightarrow> 0)"

primrec least_connections_from ::
    "dp \<Rightarrow> u32 \<Rightarrow> u32 \<Rightarrow> u32 \<Rightarrow> nat \<Rightarrow> u32 \<Rightarrow> u32 \<Rightarrow> u32 \<Rightarrow> u32" where
  "least_connections_from d listener_id count cursor 0 index best best_load = best"
| "least_connections_from d listener_id count cursor (Suc left) index best best_load =
     (if index < count
      then let candidate = (cursor + index) mod count in
        if target_slot_is_usable d listener_id candidate
        then let load = flow_load d listener_id candidate in
          if load < best_load
          then least_connections_from d listener_id count cursor left (index + 1) candidate load
          else least_connections_from d listener_id count cursor left (index + 1) best best_load
        else least_connections_from d listener_id count cursor left (index + 1) best best_load
      else least_connections_from d listener_id count cursor left (index + 1) best best_load)"

definition select_least_connections :: "NativeListenerLookupValue \<Rightarrow> u32 \<Rightarrow> dp \<Rightarrow> u32 \<times> dp" where
  "select_least_connections listener count d =
     (case next_cursor listener d of
        (cursor, d') \<Rightarrow>
          (least_connections_from d' (lv_listener_id listener) count cursor 64 0
             MAX_TARGETS_PER_LISTENER (- 1), d'))"

definition select_target ::
    "NativeFlowKey \<Rightarrow> NativeListenerLookupValue \<Rightarrow> u32 \<Rightarrow> dp \<Rightarrow> u32 \<times> dp" where
  "select_target key listener packet_hash d =
     (if lv_target_count listener = 0 then (MAX_TARGETS_PER_LISTENER, d)
      else
        let count = (if lv_target_count listener < MAX_TARGETS_PER_LISTENER
                     then lv_target_count listener else MAX_TARGETS_PER_LISTENER) in
        if lv_weight_total listener = 0 \<or> lv_target_count listener = 0
        then (MAX_TARGETS_PER_LISTENER, d)
        else if lv_select listener = NATIVE_SELECT_RR then select_round_robin listener count d
        else if lv_select listener = NATIVE_SELECT_PRIORITY
          then select_weighted_round_robin listener count d
        else if lv_select listener = NATIVE_SELECT_HASH
          then select_hash_slot packet_hash listener count d
        else if lv_select listener = NATIVE_SELECT_PERSIST
          then select_persist_slot (fk_src key) listener count d
        else if lv_select listener = NATIVE_SELECT_CONSISTENT_HASH
          then select_consistent_hash key listener count d
        else if lv_select listener = NATIVE_SELECT_LC then select_least_connections listener count d
        else select_round_robin listener count d)"

section \<open>Scans\<close>

text \<open>The sum of the weights a weighted scan hands out to the slots \<open>[a, b)\<close>.\<close>

definition slot_weight :: "dp \<Rightarrow> u32 \<Rightarrow> nat \<Rightarrow> nat" where
  "slot_weight d listener_id i =
     (case dp_targets d \<lparr>tk_listener_id = listener_id, tk_target_id = of_nat i\<rparr> of
        Some target \<Rightarrow> if tv_flags target AND 1 \<noteq> 0 then unat (tv_weight target) else 0
      | None \<Rightarrow> 0)"

abbreviation weight_before :: "dp \<Rightarrow> u32 \<Rightarrow> nat \<Rightarrow> nat \<Rightarrow> nat" where
  "weight_before d listener_id a b \<equiv> (\<Sum>i\<leftarrow>[a..<b]. slot_weight d listener_id i)"

lemma slot_weight_usable:
  "0 < slot_weight d lid i \<longleftrightarrow> target_slot_is_usable d lid (of_nat i)"
  by (simp add: slot_weight_def target_slot_is_usable_def unat_gt_0 word_gt_0 split: option.splits)

lemma unat_Suc_word: "unat (i :: u32) < 64 \<Longrightarrow> unat (i + 1) = Suc (unat i)"
  by (simp add: unat_word_ariths)

lemma of_nat_64 [simp]: "(of_nat 64 :: u32) = 64" by simp

lemma first_usable_from_sound:
  "first_usable_from d lid count n i = t \<Longrightarrow> t = 64 \<or> t < count \<and> target_slot_is_usable d lid t"
  by (induction n arbitrary: i) (auto split: if_splits simp: not_le)

lemma first_usable_from_progress:
  assumes "count \<le> 64" "target_slot_is_usable d lid t" "t < count"
    "unat i \<le> unat t" "unat t < unat i + n"
  shows "first_usable_from d lid count n i < count"
  using assms(4-5)
proof (induction n arbitrary: i)
  case 0 then show ?case by simp
next
  case (Suc n)
  have t: "unat t < 64" using assms(1,3) by (simp add: word_less_nat_alt word_le_nat_alt)
  show ?case
  proof (cases "target_slot_is_usable d lid i")
    case False
    then have "unat i \<noteq> unat t" using assms(2) by (auto simp: unat_eq_iff)
    then show ?thesis using Suc t assms(3) False
      by (auto simp: word_le_nat_alt word_less_nat_alt unat_Suc_word)
  qed (use Suc.prems assms(3) in \<open>auto simp: word_le_nat_alt word_less_nat_alt\<close>)
qed

lemma first_usable_target_sound:
  "first_usable_target d lid count = t \<Longrightarrow> t = 64 \<or> t < count \<and> target_slot_is_usable d lid t"
  unfolding first_usable_target_def by (rule first_usable_from_sound)

lemma first_usable_target_progress:
  "count \<le> 64 \<Longrightarrow> t < count \<Longrightarrow> target_slot_is_usable d lid t \<Longrightarrow>
   first_usable_target d lid count < count"
  unfolding first_usable_target_def
  by (rule first_usable_from_progress[where t = t]) (auto simp: word_less_nat_alt word_le_nat_alt)

lemma mod_lt_count: "0 < (count :: u32) \<Longrightarrow> x mod count < count"
  by (simp add: word_less_nat_alt unat_mod)

lemma round_robin_from_sound:
  "0 < count \<Longrightarrow> round_robin_from d lid count c n off = t \<Longrightarrow>
   t = 64 \<or> t < count \<and> target_slot_is_usable d lid t"
  by (induction n arbitrary: off) (auto split: if_splits simp: Let_def mod_lt_count)

lemma round_robin_from_progress:
  assumes "0 < count" "count \<le> 64" "target_slot_is_usable d lid ((c + t) mod count)" "t < count"
    "unat i \<le> unat t" "unat t < unat i + n"
  shows "round_robin_from d lid count c n i < count"
  using assms(5-6)
proof (induction n arbitrary: i)
  case 0 then show ?case by simp
next
  case (Suc n)
  have t: "unat t < 64" using assms(2,4) by (simp add: word_less_nat_alt word_le_nat_alt)
  show ?case
  proof (cases "target_slot_is_usable d lid ((c + i) mod count)")
    case False
    then have "unat i \<noteq> unat t" using assms(3) by (auto simp: unat_eq_iff)
    then show ?thesis using Suc t assms(4) False
      by (auto simp: word_le_nat_alt word_less_nat_alt unat_Suc_word)
  qed (use Suc.prems assms(1,4) in \<open>auto simp: unat_mod word_le_nat_alt word_less_nat_alt\<close>)
qed

text \<open>While the cursor does not wrap around within the scan, the candidates are all slots.\<close>

lemma rotation_onto:
  assumes "0 < (count :: u32)" "t < count" "unat c + unat count \<le> 2 ^ 32"
  shows "\<exists>j < count. (c + j) mod count = t"
proof -
  let ?n = "unat count"
  define j where "j = (unat t + (?n - unat c mod ?n)) mod ?n"
  have n: "0 < ?n" "unat t < ?n" using assms by (simp_all add: word_less_nat_alt)
  have j: "j < ?n" using n by (simp add: j_def)
  have uj: "unat (of_nat j :: u32) = j"
    using j by (intro unat_of_nat_lt) (use unat_word_lt[of count] in linarith)
  have "unat (c + of_nat j) = unat c + j" using j assms(3) by (subst unat_add_lt) (auto simp: uj)
  then have "unat ((c + of_nat j) mod count) = (unat c + j) mod ?n" by (simp add: unat_mod)
  also have "\<dots> = (unat c mod ?n + (unat t + (?n - unat c mod ?n))) mod ?n"
    unfolding j_def by (simp only: mod_add_left_eq mod_add_right_eq)
  also have "unat c mod ?n + (unat t + (?n - unat c mod ?n)) = unat t + ?n"
    using mod_less_divisor[OF n(1), of "unat c"] by linarith
  also have "(unat t + ?n) mod ?n = unat t" using n by simp
  finally have "(c + of_nat j) mod count = t" by (simp only: unat_eq_iff)
  moreover have "of_nat j < count" using j by (simp add: word_less_nat_alt uj)
  ultimately show ?thesis by blast
qed

text \<open>The weighted scan answers with the slot whose interval of the cumulated weights contains
  the cursor, and with the sentinel when the cursor lies beyond all of them.\<close>

lemma weighted_from_step:
  "unat i < unat count \<Longrightarrow> weighted_from d l count (Suc n) i c =
     (if unat c < slot_weight d (lv_listener_id l) (unat i) then i
      else weighted_from d l count n (i + 1)
             (c - of_nat (slot_weight d (lv_listener_id l) (unat i))))"
  by (auto simp: slot_weight_def word_le_nat_alt word_less_nat_alt word_gt_0 unat_ucast_u16_u32
      split: option.splits if_splits)

lemma weighted_from_interval:
  assumes "count \<le> 64" "unat i + n = 64" "unat i \<le> unat count"
  shows "weighted_from d l count n i c =
     (case List.find (\<lambda>t. unat c < weight_before d (lv_listener_id l) (unat i) (Suc t))
             [unat i..<unat count] of
        Some t \<Rightarrow> of_nat t | None \<Rightarrow> 64)"
  using assms(2,3)
proof (induction n arbitrary: i c)
  case 0
  then have "unat count = 64" using assms(1) by (simp add: word_le_nat_alt)
  then show ?case using 0 by simp
next
  case (Suc n)
  let ?w = "slot_weight d (lv_listener_id l)"
  show ?case
  proof (cases "unat i < unat count")
    case False
    then show ?thesis by (simp add: word_le_nat_alt)
  next
    case True
    have u: "unat (i + 1) = Suc (unat i)" using Suc.prems by (simp add: unat_Suc_word)
    have w: "?w (unat i) < 2 ^ 16"
      using unat_word_lt[where ?'a = 16] by (auto simp: slot_weight_def split: option.splits)
    show ?thesis
    proof (cases "unat c < ?w (unat i)")
      case hit: True
      then show ?thesis using True by (subst weighted_from_step) (simp_all add: upt_conv_Cons)
    next
      case False
      then have c: "unat (c - of_nat (?w (unat i))) = unat c - ?w (unat i)"
        using w by (subst unat_sub) (auto simp: word_le_nat_alt unat_of_nat_lt)
      have f: "unat c < weight_before d (lv_listener_id l) (unat i) (Suc t) \<longleftrightarrow>
          unat c - ?w (unat i) < weight_before d (lv_listener_id l) (Suc (unat i)) (Suc t)"
        if "t \<in> set [Suc (unat i)..<unat count]" for t
        using that False by (simp del: upt_Suc add: upt_conv_Cons) linarith
      have "List.find (\<lambda>t. unat c < weight_before d (lv_listener_id l) (unat i) (Suc t))
              [Suc (unat i)..<unat count] =
            List.find (\<lambda>t. unat c - ?w (unat i) <
                weight_before d (lv_listener_id l) (Suc (unat i)) (Suc t))
              [Suc (unat i)..<unat count]"
        by (rule find_cong) (use f in auto)
      then show ?thesis
        using Suc.IH[of "i + 1" "c - of_nat (?w (unat i))"] Suc.prems True False
        by (subst weighted_from_step) (simp_all add: u c upt_conv_Cons[of "unat i" "unat count"])
    qed
  qed
qed

text \<open>The least-connections scan over the offsets \<open>[i, count)\<close>.\<close>

definition usable_offsets :: "dp \<Rightarrow> u32 \<Rightarrow> u32 \<Rightarrow> u32 \<Rightarrow> u32 \<Rightarrow> u32 set" where
  "usable_offsets d lid count c i =
     {j. i \<le> j \<and> j < count \<and> target_slot_is_usable d lid ((c + j) mod count)}"

lemma usable_offsets_end: "count \<le> 64 \<Longrightarrow> unat i = 64 \<Longrightarrow> usable_offsets d lid count c i = {}"
  by (auto simp: usable_offsets_def word_le_nat_alt word_less_nat_alt)

lemma usable_offsets_step:
  assumes "unat i < 64"
  shows "usable_offsets d lid count c i =
    (if i < count \<and> target_slot_is_usable d lid ((c + i) mod count)
     then insert i (usable_offsets d lid count c (i + 1)) else usable_offsets d lid count c (i + 1))"
proof -
  have "i + 1 \<le> j \<longleftrightarrow> i \<le> j \<and> j \<noteq> i" for j
    using unat_Suc_word[OF assms] by (auto simp: word_le_nat_alt unat_eq_iff[symmetric])
  then show ?thesis by (auto simp: usable_offsets_def)
qed

lemma least_connections_from_spec:
  assumes "count \<le> 64" "0 < count" "unat i + n = 64"
    "least_connections_from d lid count c n i best load = r"
  shows "(r = best \<and> (\<forall>j \<in> usable_offsets d lid count c i. load \<le> flow_load d lid ((c + j) mod count))) \<or>
     (r < count \<and> target_slot_is_usable d lid r \<and> flow_load d lid r < load \<and>
      (\<forall>j \<in> usable_offsets d lid count c i. flow_load d lid r \<le> flow_load d lid ((c + j) mod count)))"
  using assms(3,4)
proof (induction n arbitrary: i best load)
  case 0
  then show ?case using usable_offsets_end[OF assms(1), of i] by simp
next
  case (Suc n)
  let ?c = "(c + i) mod count" and ?S = "usable_offsets d lid count c"
  have u: "unat (i + 1) + n = 64" using Suc.prems by (simp add: unat_Suc_word)
  have S: "?S i = (if i < count \<and> target_slot_is_usable d lid ?c then insert i (?S (i + 1)) else ?S (i + 1))"
    using Suc.prems by (intro usable_offsets_step) simp
  show ?case
  proof (cases "i < count \<and> target_slot_is_usable d lid ?c \<and> flow_load d lid ?c < load")
    case True
    then have "least_connections_from d lid count c n (i + 1) ?c (flow_load d lid ?c) = r"
      using Suc.prems(2) by (simp add: Let_def)
    from Suc.IH[OF u this] show ?thesis
      using True mod_lt_count[OF assms(2), of "c + i"] unfolding S by (elim disjE) auto
  next
    case False
    then have "least_connections_from d lid count c n (i + 1) best load = r"
      using Suc.prems(2) by (auto simp: Let_def split: if_splits)
    from Suc.IH[OF u this] show ?thesis using False unfolding S by (elim disjE) auto
  qed
qed

section \<open>The contract of a selector\<close>

text \<open>What a selector may write: the cursors and the statistics.\<close>

definition selection_frame :: "dp \<Rightarrow> dp \<Rightarrow> bool" where
  "selection_frame d d' \<longleftrightarrow>
     d' = d\<lparr>dp_rr_counters := dp_rr_counters d', dp_native_stats := dp_native_stats d'\<rparr>"

lemma selection_frame_refl [simp]: "selection_frame d d"
  by (simp add: selection_frame_def)

lemma selection_frame_bump [simp]: "selection_frame d (native_bump f d') \<longleftrightarrow> selection_frame d d'"
  by (cases d, cases d') (simp add: selection_frame_def native_bump_def)

lemma selection_frame_cursor: "next_cursor l d = (c, d') \<Longrightarrow> selection_frame d d'"
  by (auto simp: next_cursor_def selection_frame_def Let_def split: if_splits)

lemma selection_frame_fields:
  assumes "selection_frame d d'"
  shows "dp_flows d' = dp_flows d" "dp_targets d' = dp_targets d"
    "dp_active_flows d' = dp_active_flows d" "dp_chash_buckets d' = dp_chash_buckets d"
    "dp_listeners d' = dp_listeners d" "dp_flow_events d' = dp_flow_events d"
    "dp_target_routes d' = dp_target_routes d" "dp_local_addrs d' = dp_local_addrs d"
  by (subst assms[unfolded selection_frame_def], simp)+

lemma selection_frame_same:
  assumes "selection_frame d d'"
  shows "target_slot_is_usable d' = target_slot_is_usable d" "flow_load d' = flow_load d"
    "slot_weight d' = slot_weight d"
  by (simp_all add: fun_eq_iff target_slot_is_usable_def flow_load_def slot_weight_def
      selection_frame_fields[OF assms])

lemma usable_bump [simp]: "target_slot_is_usable (native_bump f d) = target_slot_is_usable d"
  by (simp add: fun_eq_iff target_slot_is_usable_def native_bump_def)

locale target_selector =
  fixes select :: "NativeFlowKey \<Rightarrow> u32 \<Rightarrow> NativeListenerLookupValue \<Rightarrow> u32 \<Rightarrow> dp \<Rightarrow> u32 \<times> dp"
    and ready :: "NativeListenerLookupValue \<Rightarrow> u32 \<Rightarrow> dp \<Rightarrow> bool"
  assumes sound: "0 < count \<Longrightarrow> count \<le> 64 \<Longrightarrow> select key hash l count d = (t, d') \<Longrightarrow>
      t = MAX_TARGETS_PER_LISTENER \<or> t < count \<and> target_slot_is_usable d (lv_listener_id l) t"
    and progress: "0 < count \<Longrightarrow> count \<le> 64 \<Longrightarrow> ready l count d \<Longrightarrow> u < count \<Longrightarrow>
      target_slot_is_usable d (lv_listener_id l) u \<Longrightarrow> fst (select key hash l count d) < count"
    and frames: "select key hash l count d = (t, d') \<Longrightarrow> selection_frame d d'"
begin

lemma miss_iff:
  assumes "0 < count" "count \<le> 64" "ready l count d"
  shows "fst (select key hash l count d) = MAX_TARGETS_PER_LISTENER \<longleftrightarrow>
    (\<forall>u < count. \<not> target_slot_is_usable d (lv_listener_id l) u)"
proof -
  obtain t d' where s: "select key hash l count d = (t, d')" by fastforce
  show ?thesis
    using sound[OF assms(1,2) s] progress[OF assms, of _ key hash] s assms(2)
    by auto (metis leD)+
qed

lemma chosen_target:
  assumes "0 < count" "count \<le> 64" "select key hash l count d = (t, d')" "t < 64"
  obtains v where
    "dp_targets d' \<lparr>tk_listener_id = lv_listener_id l, tk_target_id = t\<rparr> = Some v"
    "tv_flags v AND 1 \<noteq> 0" "tv_weight v > 0"
proof -
  have "target_slot_is_usable d (lv_listener_id l) t" using sound[OF assms(1-3)] assms(4) by auto
  then have "target_slot_is_usable d' (lv_listener_id l) t"
    using selection_frame_same(1)[OF frames[OF assms(3)]] by simp
  then show ?thesis using that by (auto simp: target_slot_is_usable_def split: option.splits)
qed

end

section \<open>Every selector of the source meets the contract\<close>

text \<open>The preconditions of progress.  A rotation covers every slot unless the 32-bit cursor wraps
  inside the scan; the least-connections scan starts from the load \<open>u32::MAX\<close>; the weighted scan
  needs the listener's \<open>weight_total\<close> to be what the targets really add up to.\<close>

definition cursor_room :: "NativeListenerLookupValue \<Rightarrow> u32 \<Rightarrow> dp \<Rightarrow> bool" where
  "cursor_room l count d \<longleftrightarrow> unat (fst (next_cursor l d)) + unat count \<le> 2 ^ 32"

definition loads_below_max :: "NativeListenerLookupValue \<Rightarrow> u32 \<Rightarrow> dp \<Rightarrow> bool" where
  "loads_below_max l count d \<longleftrightarrow>
     cursor_room l count d \<and> (\<forall>t < count. flow_load d (lv_listener_id l) t < - 1)"

definition weights_agree :: "NativeListenerLookupValue \<Rightarrow> u32 \<Rightarrow> dp \<Rightarrow> bool" where
  "weights_agree l count d \<longleftrightarrow> lv_weight_total l \<noteq> 0 \<and>
     unat (lv_weight_total l) \<le> weight_before d (lv_listener_id l) 0 (unat count)"

lemma find_SomeI: "x \<in> set xs \<Longrightarrow> P x \<Longrightarrow> \<exists>y. List.find P xs = Some y"
  by (cases "List.find P xs") (auto simp: find_None_iff)

lemma weighted_hash_interval:
  assumes "count \<le> 64" "lv_weight_total l \<noteq> 0"
  shows "select_weighted_hash d h l count =
    (case List.find (\<lambda>t. unat h mod unat (lv_weight_total l) < weight_before d (lv_listener_id l) 0 (Suc t))
       [0..<unat count] of Some t \<Rightarrow> of_nat t | None \<Rightarrow> 64)"
  using weighted_from_interval[OF assms(1), of 0 64] assms(2)
  by (simp add: select_weighted_hash_def unat_mod)

lemma weight_before_Suc:
  "weight_before d lid 0 (Suc t) = weight_before d lid 0 t + slot_weight d lid t"
  by simp

lemma find_upt:
  "List.find P [0..<n] = Some t \<longleftrightarrow> t < n \<and> P t \<and> (\<forall>j < t. \<not> P j)"
  unfolding find_Some_iff by (auto intro!: exI[of _ t])

lemma weight_before_mono: "a \<le> b \<Longrightarrow> weight_before d lid 0 a \<le> weight_before d lid 0 b"
  by (induction b rule: dec_induct) auto

lemma cumulated_before:
  "(\<forall>j < t. weight_before d lid 0 (Suc j) \<le> x) \<longleftrightarrow> weight_before d lid 0 t \<le> x"
proof (cases t)
  case (Suc k)
  show ?thesis
  proof
    assume "weight_before d lid 0 t \<le> x"
    then show "\<forall>j < t. weight_before d lid 0 (Suc j) \<le> x"
      using weight_before_mono[of _ t d lid] by (meson Suc_leI le_trans)
  qed (use Suc in auto)
qed simp

lemma find_cumulated:
  "List.find (\<lambda>t. x < weight_before d lid 0 (Suc t)) [0..<n] = Some t \<longleftrightarrow>
     t < n \<and> weight_before d lid 0 t \<le> x \<and> x < weight_before d lid 0 (Suc t)"
  unfolding find_upt not_less cumulated_before by blast

lemma select_weighted_hash_sound:
  assumes "count \<le> 64" "select_weighted_hash d h l count = t"
  shows "t = 64 \<or> t < count \<and> target_slot_is_usable d (lv_listener_id l) t"
proof (cases "lv_weight_total l = 0")
  case False
  have "t' < unat count \<and> 0 < slot_weight d (lv_listener_id l) t'"
    if "List.find (\<lambda>t. unat h mod unat (lv_weight_total l) < weight_before d (lv_listener_id l) 0 (Suc t))
       [0..<unat count] = Some t'" for t'
    using that[unfolded find_cumulated] by (auto simp: weight_before_Suc simp del: upt_Suc)
  moreover have "of_nat t' < count" if "t' < unat count" for t'
    using that unat_word_lt[of count] by (simp add: word_less_nat_alt unat_of_nat_lt)
  ultimately show ?thesis
    using assms(2) weighted_hash_interval[OF assms(1) False, of d h]
    by (force simp: slot_weight_usable simp del: upt_Suc split: option.splits)
qed (use assms in \<open>simp add: select_weighted_hash_def\<close>)

lemma select_weighted_hash_progress:
  assumes "count \<le> 64" "weights_agree l count d"
  shows "select_weighted_hash d h l count < count"
proof -
  let ?x = "unat h mod unat (lv_weight_total l)"
  have w: "lv_weight_total l \<noteq> 0" using assms(2) by (simp add: weights_agree_def)
  then have "?x < unat (lv_weight_total l)" by (simp add: unat_gt_0)
  also have "\<dots> \<le> weight_before d (lv_listener_id l) 0 (unat count)"
    using assms(2) by (simp add: weights_agree_def)
  finally have x: "?x < weight_before d (lv_listener_id l) 0 (unat count)" .
  then obtain n where n: "unat count = Suc n" by (cases "unat count") auto
  obtain t where t: "List.find (\<lambda>t. ?x < weight_before d (lv_listener_id l) 0 (Suc t)) [0..<unat count] = Some t"
    using find_SomeI[of n "[0..<unat count]" "\<lambda>t. ?x < weight_before d (lv_listener_id l) 0 (Suc t)"] x
    unfolding n by auto
  then have "t < unat count" unfolding find_cumulated by blast
  then show ?thesis
    using weighted_hash_interval[OF assms(1) w, of d h] t unat_word_lt[of count]
    by (simp add: word_less_nat_alt unat_of_nat_lt)
qed

lemma target_selector_round_robin:
  "target_selector (\<lambda>key hash. select_round_robin) cursor_room"
proof
  fix count u l d
  assume a: "0 < count" "count \<le> (64 :: u32)" "cursor_room l count d" "u < count"
    "target_slot_is_usable d (lv_listener_id l) u"
  obtain c d' where c: "next_cursor l d = (c, d')" by fastforce
  obtain j where j: "j < count" "(c + j) mod count = u"
    using rotation_onto[OF a(1,4)] a(3) c by (auto simp: cursor_room_def)
  have "round_robin_from d' (lv_listener_id l) count c 64 0 < count"
    using round_robin_from_progress[OF a(1,2), of d' "lv_listener_id l" c j 0 64] j a
      selection_frame_same[OF selection_frame_cursor[OF c]]
    by (auto simp: word_less_nat_alt word_le_nat_alt)
  then show "fst (select_round_robin l count d) < count" by (simp add: select_round_robin_def c)
qed (auto simp: select_round_robin_def split: prod.splits dest: selection_frame_cursor
    dest!: round_robin_from_sound simp: selection_frame_same[OF selection_frame_cursor])

lemma target_selector_weighted:
  "target_selector (\<lambda>key hash. select_weighted_round_robin) weights_agree"
proof
  fix count u l d
  assume a: "count \<le> (64 :: u32)" "weights_agree l count d"
  obtain c d' where c: "next_cursor l d = (c, d')" by fastforce
  have "weights_agree l count d'"
    using a(2) selection_frame_same[OF selection_frame_cursor[OF c]] by (simp add: weights_agree_def)
  then show "fst (select_weighted_round_robin l count d) < count"
    using select_weighted_hash_progress[OF a(1)] by (simp add: select_weighted_round_robin_def c)
qed (auto simp: select_weighted_round_robin_def split: prod.splits dest: selection_frame_cursor
    dest!: select_weighted_hash_sound simp: selection_frame_same[OF selection_frame_cursor])

lemma first_usable_from_bump [simp]:
  "first_usable_from (native_bump f d) lid count n i = first_usable_from d lid count n i"
  by (induction n arbitrary: i) simp_all

lemma first_usable_target_bump [simp]:
  "first_usable_target (native_bump f d) lid count = first_usable_target d lid count"
  by (simp add: first_usable_target_def)

lemma first_usable_found:
  assumes "first_usable_target d lid count \<noteq> 64"
  shows "first_usable_target d lid count < count"
    "target_slot_is_usable d lid (first_usable_target d lid count)"
  using first_usable_target_sound[OF refl, of d lid count] assms by auto

lemma target_selector_hash: "target_selector (\<lambda>key. select_hash_slot) (\<lambda>_ _ _. True)"
  by unfold_locales
    (auto simp: select_hash_slot_def Let_def mod_lt_count first_usable_target_progress
      first_usable_found split: if_splits)

lemma target_selector_persist:
  "target_selector (\<lambda>key hash. select_persist_slot (fk_src key)) (\<lambda>_ _ _. True)"
  by unfold_locales
    (auto simp: select_persist_slot_def Let_def mod_lt_count first_usable_target_progress
      first_usable_found split: if_splits)

lemma target_selector_consistent_hash:
  "target_selector (\<lambda>key hash. select_consistent_hash key) (\<lambda>_ _ _. True)"
  by unfold_locales
    (auto simp: select_consistent_hash_def Let_def first_usable_target_progress
      first_usable_found split: if_splits option.splits)

lemma usable_offsets_frame:
  "selection_frame d d' \<Longrightarrow> usable_offsets d' lid count c i = usable_offsets d lid count c i"
  by (simp add: usable_offsets_def selection_frame_same)

lemma select_least_connections_spec:
  assumes "0 < count" "count \<le> 64" "cursor_room l count d"
    "select_least_connections l count d = (t, d')"
  shows "(t = 64 \<and> (\<forall>u < count. target_slot_is_usable d (lv_listener_id l) u \<longrightarrow>
             flow_load d (lv_listener_id l) u = - 1)) \<or>
         (t < count \<and> target_slot_is_usable d (lv_listener_id l) t \<and>
          (\<forall>u < count. target_slot_is_usable d (lv_listener_id l) u \<longrightarrow>
             flow_load d (lv_listener_id l) t \<le> flow_load d (lv_listener_id l) u))"
proof -
  obtain c where c: "next_cursor l d = (c, d')"
    "least_connections_from d' (lv_listener_id l) count c 64 0 64 (- 1) = t"
    using assms(4) by (auto simp: select_least_connections_def split: prod.splits)
  note same = selection_frame_same[OF selection_frame_cursor[OF c(1)]]
  have onto: "\<exists>j < count. (c + j) mod count = u" if "u < count" for u
    using rotation_onto[OF assms(1) that] assms(3) c(1) by (simp add: cursor_room_def)
  have U: "u \<in> (\<lambda>j. (c + j) mod count) ` usable_offsets d (lv_listener_id l) count c 0"
    if "u < count" "target_slot_is_usable d (lv_listener_id l) u" for u
    using onto[OF that(1)] that(2) by (auto simp: usable_offsets_def)
  from least_connections_from_spec[OF assms(2,1) _ c(2)] show ?thesis
    unfolding usable_offsets_frame[OF selection_frame_cursor[OF c(1)]] same
    using U by (fastforce simp: word_order.extremum_unique)
qed

lemma select_least_connections_sound:
  assumes "0 < count" "count \<le> 64" "select_least_connections l count d = (t, d')"
  shows "t = 64 \<or> t < count \<and> target_slot_is_usable d (lv_listener_id l) t"
proof -
  obtain c where c: "next_cursor l d = (c, d')"
    "least_connections_from d' (lv_listener_id l) count c 64 0 64 (- 1) = t"
    using assms(3) by (auto simp: select_least_connections_def split: prod.splits)
  from least_connections_from_spec[OF assms(2,1) _ c(2)] show ?thesis
    unfolding selection_frame_same[OF selection_frame_cursor[OF c(1)]] by auto
qed

lemma target_selector_least_connections:
  "target_selector (\<lambda>key hash. select_least_connections) loads_below_max"
proof
  fix count u l d
  assume a: "0 < count" "count \<le> (64 :: u32)" "loads_below_max l count d" "u < count"
    "target_slot_is_usable d (lv_listener_id l) u"
  obtain t d' where t: "select_least_connections l count d = (t, d')" by fastforce
  show "fst (select_least_connections l count d) < count"
    using select_least_connections_spec[OF a(1,2) _ t] a(3-5) t by (auto simp: loads_below_max_def)
qed (auto dest: select_least_connections_sound,
     auto simp: select_least_connections_def split: prod.splits dest: selection_frame_cursor)

interpretation rr: target_selector "\<lambda>key hash. select_round_robin" cursor_room
  by (rule target_selector_round_robin)

interpretation prio: target_selector "\<lambda>key hash. select_weighted_round_robin" weights_agree
  by (rule target_selector_weighted)

interpretation hash_slot: target_selector "\<lambda>key. select_hash_slot" "\<lambda>_ _ _. True"
  by (rule target_selector_hash)

interpretation persist: target_selector
    "\<lambda>key hash. select_persist_slot (fk_src key)" "\<lambda>_ _ _. True"
  by (rule target_selector_persist)

interpretation chash: target_selector "\<lambda>key hash. select_consistent_hash key" "\<lambda>_ _ _. True"
  by (rule target_selector_consistent_hash)

interpretation lc: target_selector "\<lambda>key hash. select_least_connections" loads_below_max
  by (rule target_selector_least_connections)

section \<open>The dispatcher\<close>

definition slot_count :: "NativeListenerLookupValue \<Rightarrow> u32" where
  "slot_count l = (if lv_target_count l < 64 then lv_target_count l else 64)"

definition selector_ready :: "NativeListenerLookupValue \<Rightarrow> dp \<Rightarrow> bool" where
  "selector_ready l d \<longleftrightarrow> lv_target_count l \<noteq> 0 \<and> lv_weight_total l \<noteq> 0 \<and>
     (if lv_select l = NATIVE_SELECT_PRIORITY then weights_agree l (slot_count l) d
      else if lv_select l = NATIVE_SELECT_LC then loads_below_max l (slot_count l) d
      else if lv_select l \<in> {NATIVE_SELECT_HASH, NATIVE_SELECT_PERSIST, NATIVE_SELECT_CONSISTENT_HASH}
        then True
      else cursor_room l (slot_count l) d)"

lemma slot_count_bounds:
  "slot_count l \<le> 64" "slot_count l \<le> lv_target_count l"
  "lv_target_count l \<noteq> 0 \<Longrightarrow> 0 < slot_count l"
  by (auto simp: slot_count_def word_gt_0)

lemma select_target_dispatch:
  assumes "lv_target_count l \<noteq> 0" "lv_weight_total l \<noteq> 0"
  obtains sel ready where "target_selector sel ready"
    "select_target key l h d = sel key h l (slot_count l) d"
    "selector_ready l d \<Longrightarrow> ready l (slot_count l) d"
proof -
  note e = select_target_def[of key l h d, unfolded Let_def slot_count_def[symmetric]]
  note r = selector_ready_def[of l d]
  consider (prio) "lv_select l = NATIVE_SELECT_PRIORITY" | (hash) "lv_select l = NATIVE_SELECT_HASH"
    | (persist) "lv_select l = NATIVE_SELECT_PERSIST"
    | (chash) "lv_select l = NATIVE_SELECT_CONSISTENT_HASH" | (lc) "lv_select l = NATIVE_SELECT_LC"
    | (rr) "lv_select l \<noteq> NATIVE_SELECT_PRIORITY" "lv_select l \<noteq> NATIVE_SELECT_HASH"
      "lv_select l \<noteq> NATIVE_SELECT_PERSIST" "lv_select l \<noteq> NATIVE_SELECT_CONSISTENT_HASH"
      "lv_select l \<noteq> NATIVE_SELECT_LC"
    by blast
  then show ?thesis
  proof cases
    case prio then show ?thesis
      by (intro that[OF target_selector_weighted]) (simp_all add: e r assms)
  next
    case hash then show ?thesis
      by (intro that[OF target_selector_hash]) (simp_all add: e r assms)
  next
    case persist then show ?thesis
      by (intro that[OF target_selector_persist]) (simp_all add: e r assms)
  next
    case chash then show ?thesis
      by (intro that[OF target_selector_consistent_hash]) (simp_all add: e r assms)
  next
    case lc then show ?thesis
      by (intro that[OF target_selector_least_connections]) (simp_all add: e r assms)
  next
    case rr then show ?thesis
      by (intro that[OF target_selector_round_robin]) (simp_all add: e r assms)
  qed
qed

lemma select_target_idle:
  "lv_target_count l = 0 \<or> lv_weight_total l = 0 \<Longrightarrow> select_target key l h d = (64, d)"
  by (auto simp: select_target_def Let_def)

text \<open>Successive selections by rotation.\<close>

primrec round_robin_run :: "nat \<Rightarrow> NativeListenerLookupValue \<Rightarrow> u32 \<Rightarrow> dp \<Rightarrow> u32 list" where
  "round_robin_run 0 l count d = []"
| "round_robin_run (Suc n) l count d =
     (case select_round_robin l count d of (t, d') \<Rightarrow> t # round_robin_run n l count d')"

lemma next_cursor_counters:
  assumes "unat (saturating_sub (lv_listener_id l) 1) < length (dp_rr_counters d)"
    "next_cursor l d = (c, d')"
  shows "unat (saturating_sub (lv_listener_id l) 1) < length (dp_rr_counters d')"
    "fst (next_cursor l d') = c + 1"
  using assms by (auto simp: next_cursor_def Let_def)

lemmas scan_numeral =
  first_usable_from.simps(2)[where left = "pred_numeral k" for k, folded numeral_eq_Suc]
  round_robin_from.simps(2)[where left = "pred_numeral k" for k, folded numeral_eq_Suc]
  weighted_from.simps(2)[where left = "pred_numeral k" for k, folded numeral_eq_Suc]
  least_connections_from.simps(2)[where left = "pred_numeral k" for k, folded numeral_eq_Suc]

lemma card_words_below: "card {u. u < (count :: u32)} = unat count"
proof -
  have "bij_betw unat {u. u < count} {..<unat count}"
    unfolding bij_betw_def
  proof
    show "inj_on unat {u. u < count}" by (simp add: inj_on_def unat_eq_iff)
    have "n \<in> unat ` {u. u < count}" if "n < unat count" for n
    proof
      show "n = unat (of_nat n :: u32)"
        using that unat_word_lt[of count] by (intro unat_of_nat_lt[symmetric]) linarith
      with that show "of_nat n \<in> {u. u < count}" by (simp add: word_less_nat_alt)
    qed
    then show "unat ` {u. u < count} = {..<unat count}" by (auto simp: word_less_nat_alt)
  qed
  then show ?thesis using bij_betw_same_card by fastforce
qed

lemma round_robin_run_all_usable:
  assumes "0 < count" "\<forall>u < count. target_slot_is_usable d (lv_listener_id l) u"
    "unat (saturating_sub (lv_listener_id l) 1) < length (dp_rr_counters d)"
  shows "round_robin_run n l count d =
    map (\<lambda>i. (fst (next_cursor l d) + of_nat i) mod count) [0..<n]"
  using assms(2,3)
proof (induction n arbitrary: d)
  case (Suc n)
  obtain c d' where c: "next_cursor l d = (c, d')" by fastforce
  note same = selection_frame_same(1)[OF selection_frame_cursor[OF c]]
  have "round_robin_from d' (lv_listener_id l) count c 64 0 = c mod count"
    using Suc.prems(1) assms(1) mod_lt_count[OF assms(1)]
    by (auto simp: same scan_numeral Let_def)
  then have "select_round_robin l count d = (c mod count, d')"
    by (simp add: select_round_robin_def c)
  moreover have "round_robin_run n l count d' =
      map (\<lambda>i. (fst (next_cursor l d') + of_nat i) mod count) [0..<n]"
    by (rule Suc.IH) (use Suc.prems next_cursor_counters[OF Suc.prems(2) c] in \<open>auto simp: same\<close>)
  ultimately show ?case
    using next_cursor_counters(2)[OF Suc.prems(2) c]
    by (simp add: c upt_conv_Cons map_Suc_upt[symmetric] o_def add.assoc del: upt_Suc)
qed simp

lemma select_target_outcome:
  assumes "select_target key l h d = (t, d')"
  shows "(t = MAX_TARGETS_PER_LISTENER \<or>
     t < MAX_TARGETS_PER_LISTENER \<and> t < lv_target_count l \<and>
       target_slot_is_usable d (lv_listener_id l) t) \<and> selection_frame d d'"
proof (cases "lv_target_count l = 0 \<or> lv_weight_total l = 0")
  case True
  then show ?thesis using assms by (simp add: select_target_idle)
next
  case False
  then obtain sel ready where s: "target_selector sel ready"
    "select_target key l h d = sel key h l (slot_count l) d"
    using select_target_dispatch[of l key h d] by blast
  have e: "sel key h l (slot_count l) d = (t, d')" using s(2) assms by simp
  show ?thesis
    using target_selector.sound[OF s(1) _ _ e] target_selector.frames[OF s(1) e]
      slot_count_bounds[of l] False by auto
qed

lemma select_target_miss_iff:
  assumes "selector_ready l d"
  shows "fst (select_target key l h d) = MAX_TARGETS_PER_LISTENER \<longleftrightarrow>
    (\<forall>u < slot_count l. \<not> target_slot_is_usable d (lv_listener_id l) u)"
proof -
  have z: "lv_target_count l \<noteq> 0" "lv_weight_total l \<noteq> 0"
    using assms by (simp_all add: selector_ready_def)
  then obtain sel ready where s: "target_selector sel ready"
    "select_target key l h d = sel key h l (slot_count l) d" "ready l (slot_count l) d"
    using assms select_target_dispatch[of l key h d] by blast
  show ?thesis unfolding s(2)
    using target_selector.miss_iff[OF s(1) slot_count_bounds(3)[OF z(1)] slot_count_bounds(1) s(3)] .
qed

section \<open>Example\<close>

text \<open>Listener 1 with three slots, of which slot 1 is down.\<close>

definition demo_target :: "u32 \<Rightarrow> u16 \<Rightarrow> u32 \<Rightarrow> NativeTargetValue" where
  "demo_target a w f = \<lparr>tv_address = a, tv_port = 80, tv_weight = w, tv_flags = f\<rparr>"

definition demo_dp :: dp where
  "demo_dp = fresh_dp\<lparr>dp_targets := [
     \<lparr>tk_listener_id = 1, tk_target_id = 0\<rparr> \<mapsto> demo_target 10 1 1,
     \<lparr>tk_listener_id = 1, tk_target_id = 1\<rparr> \<mapsto> demo_target 11 5 0,
     \<lparr>tk_listener_id = 1, tk_target_id = 2\<rparr> \<mapsto> demo_target 12 2 1]\<rparr>"

definition demo_listener :: "u32 \<Rightarrow> NativeListenerLookupValue" where
  "demo_listener sel = \<lparr>lv_listener_id = 1, lv_target_base = 0, lv_target_count = 3,
     lv_weight_total = 3, lv_select = sel, lv_flags = 1, lv_timeout_secs = 30, lv_dscp = 0\<rparr>"

definition demo_key :: NativeFlowKey where
  "demo_key = \<lparr>fk_src = 7, fk_dst = 9, fk_sport = 1000, fk_dport = 80, fk_proto = 6,
     fk_pad = [0, 0, 0]\<rparr>"

lemmas demo_defs = demo_dp_def demo_listener_def demo_key_def demo_target_def fresh_dp_def

lemma demo_usable [simp]:
  "target_slot_is_usable demo_dp 1 t \<longleftrightarrow> t = 0 \<or> t = 2"
  by (auto simp: target_slot_is_usable_def demo_defs)

section \<open>Properties\<close>

text \<open>C3.  Whatever the selection mode, \<open>select_target\<close> answers either with the sentinel
  \<open>MAX_TARGETS_PER_LISTENER\<close> or with a slot that lies below the listener's target count and whose
  target is enabled and has a positive weight; and it changes nothing but the round-robin cursors
  and the statistics (no flow, no target, no listener).\<close>

theorem select_target_sound:
  assumes "select_target key l h d = (t, d')"
  shows "(t = MAX_TARGETS_PER_LISTENER \<or>
     t < MAX_TARGETS_PER_LISTENER \<and> t < lv_target_count l \<and>
       target_slot_is_usable d (lv_listener_id l) t) \<and> selection_frame d d'"
  by (rule select_target_outcome[OF assms])

theorem select_target_sound_witness:
  "fst (select_target demo_key (demo_listener 0) 0 demo_dp) = 0 \<and>
   selection_frame demo_dp (snd (select_target demo_key (demo_listener 0) 0 demo_dp))"
  using select_target_sound[of demo_key "demo_listener 0" 0 demo_dp, OF prod.collapse[symmetric]]
  by (simp add: select_target_def select_round_robin_def next_cursor_def Let_def scan_numeral
      target_slot_is_usable_def demo_defs)

text \<open>C4.  When the listener is consistent with the maps (\<open>selector_ready\<close>: the cursor does not
  wrap inside the scan, loads are below \<open>u32::MAX\<close>, the weights add up to \<open>weight_total\<close>, as far as
  the mode depends on each), \<open>select_target\<close> fails exactly when no slot is usable.\<close>

theorem select_target_complete:
  assumes "selector_ready l d"
  shows "fst (select_target key l h d) = MAX_TARGETS_PER_LISTENER \<longleftrightarrow>
    (\<forall>u < slot_count l. \<not> target_slot_is_usable d (lv_listener_id l) u)"
  by (rule select_target_miss_iff [OF assms])

theorem select_target_complete_witness:
  "fst (select_target demo_key (demo_listener 2) 0 demo_dp) \<noteq> MAX_TARGETS_PER_LISTENER"
proof -
  have r: "selector_ready (demo_listener 2) demo_dp"
    by (simp add: selector_ready_def weights_agree_def slot_count_def demo_listener_def
        upt_conv_Cons slot_weight_def demo_dp_def demo_target_def fresh_dp_def)
  have "\<exists>u < slot_count (demo_listener 2). target_slot_is_usable demo_dp 1 u"
    by (rule exI[of _ 0]) (simp add: slot_count_def demo_listener_def)
  then show ?thesis
    using select_target_complete[OF r, of demo_key 0] by (auto simp: demo_listener_def)
qed


text \<open>C11.  Weighted selection gives each target exactly its share: the seed (the cursor, or a hash)
  modulo the total weight is mapped to slot \<open>t\<close> iff it falls into the interval of length
  \<open>slot_weight t\<close> that starts at the sum of the weights of the usable slots before \<open>t\<close>.\<close>

theorem select_weighted_hash_share:
  assumes "count \<le> MAX_TARGETS_PER_LISTENER" "weights_agree l count d" "t < unat count"
  shows "select_weighted_hash d h l count = of_nat t \<longleftrightarrow>
     weight_before d (lv_listener_id l) 0 t \<le> unat h mod unat (lv_weight_total l) \<and>
     unat h mod unat (lv_weight_total l) <
       weight_before d (lv_listener_id l) 0 t + slot_weight d (lv_listener_id l) t"
proof -
  let ?x = "unat h mod unat (lv_weight_total l)"
  let ?find = "List.find (\<lambda>t. ?x < weight_before d (lv_listener_id l) 0 (Suc t)) [0..<unat count]"
  have w: "lv_weight_total l \<noteq> 0" using assms(2) by (simp add: weights_agree_def)
  have c: "unat count \<le> 64" using assms(1) by (simp add: word_le_nat_alt)
  have u: "unat (of_nat s :: u32) = s" if "s < 64" for s using that by (simp add: unat_of_nat_lt)
  have r: "select_weighted_hash d h l count = (case ?find of Some t \<Rightarrow> of_nat t | None \<Rightarrow> 64)"
    by (rule weighted_hash_interval[OF assms(1) w])
  obtain s where s: "?find = Some s"
    using r select_weighted_hash_progress[OF assms(1,2), of h] assms(1) by (cases ?find) auto
  then have "s < 64" using c unfolding find_cumulated by linarith
  have "select_weighted_hash d h l count = of_nat t \<longleftrightarrow> ?find = Some t"
    unfolding r s option.case option.inject
    using u[OF \<open>s < 64\<close>] u[of t] assms(3) c by (metis order_less_le_trans)
  then show ?thesis unfolding find_cumulated using assms(3) by simp
qed

theorem select_weighted_hash_share_witness:
  "select_weighted_hash demo_dp 5 (demo_listener 2) 3 = of_nat 2"
proof -
  have a: "weights_agree (demo_listener 2) 3 demo_dp"
    by (simp add: weights_agree_def upt_conv_Cons slot_weight_def demo_defs)
  show ?thesis
    using select_weighted_hash_share[OF _ a, of 2 5]
    by (simp add: upt_conv_Cons slot_weight_def demo_defs)
qed





end
