(* ===== verification/Nat_Rewrite.thy ===== *)
theory Nat_Rewrite
  imports Selector
begin

text \<open>
  Header rewriting, \<^verbatim>\<open>edge-lb-ebpf/src/nat.rs\<close>.  A rewrite is a sequence of helper calls, each of
  which may fail after the earlier ones have changed the packet; the result is therefore the success
  flag together with the packet as the failing call left it.  The lemmas state which bytes a
  rewrite may touch, whether it succeeds or not, and what the address and port fields hold after
  success.
\<close>

section \<open>Operations\<close>

record Rewrite =
  rw_old_address :: u32
  rw_new_address :: u32
  rw_old_port :: u16
  rw_new_port :: u16
  rw_preserve_zero_udp_checksum :: bool

abbreviation BPF_F_PSEUDO_HDR :: u64 where "BPF_F_PSEUDO_HDR \<equiv> 16"

text \<open>The \<^verbatim>\<open>?\<close> of the helper calls.\<close>

definition try_helper :: "skb option \<Rightarrow> skb \<Rightarrow> (skb \<Rightarrow> bool \<times> skb) \<Rightarrow> bool \<times> skb" where
  "try_helper r s k = (case r of None \<Rightarrow> (False, s) | Some s' \<Rightarrow> k s')"

definition rewrite_write :: "ebpf_env \<Rightarrow> Rewrite \<Rightarrow> skb \<Rightarrow> nat \<Rightarrow> nat \<Rightarrow> nat \<Rightarrow> nat \<Rightarrow> bool \<times> skb" where
  "rewrite_write env rw s0 address_off ip_csum_off port_off l4_csum_off =
     (let old_address = to_be32 (rw_old_address rw);
          new_address = to_be32 (rw_new_address rw) in
      try_helper (env_store env s0 address_off (ne_bytes32 new_address)) s0 (\<lambda>s1.
      try_helper (env_l3_csum_replace env s1 ip_csum_off (ucast old_address) (ucast new_address) 4) s1 (\<lambda>s2.
      try_helper (env_l4_csum_replace env s2 l4_csum_off (ucast old_address) (ucast new_address)
                    (4 OR BPF_F_PSEUDO_HDR)) s2 (\<lambda>s3.
      try_helper (env_store env s3 port_off (ne_bytes16 (to_be16 (rw_new_port rw)))) s3 (\<lambda>s4.
      try_helper (env_l4_csum_replace env s4 l4_csum_off (ucast (to_be16 (rw_old_port rw)))
                    (ucast (to_be16 (rw_new_port rw))) 2) s4 (\<lambda>s5.
      if rw_preserve_zero_udp_checksum rw
      then try_helper (env_store env s5 l4_csum_off (ne_bytes16 0)) s5 (\<lambda>s6. (True, s6))
      else (True, s5)))))))"

definition apply_rewrite ::
    "ebpf_env \<Rightarrow> Rewrite \<Rightarrow> skb \<Rightarrow> dp \<Rightarrow> nat \<Rightarrow> nat \<Rightarrow> nat \<Rightarrow> nat \<Rightarrow> bool \<times> skb \<times> dp" where
  "apply_rewrite env rw s d address_off ip_csum_off port_off l4_csum_off =
     (case rewrite_write env rw s address_off ip_csum_off port_off l4_csum_off of
        (True, s') \<Rightarrow> (True, s', d)
      | (False, s') \<Rightarrow>
          (False, s', native_bump (\<lambda>st. st\<lparr>ds_checksum_error := ds_checksum_error st + 1\<rparr>) d))"

definition destination ::
    "ebpf_env \<Rightarrow> Rewrite \<Rightarrow> skb \<Rightarrow> dp \<Rightarrow> nat \<Rightarrow> nat \<Rightarrow> nat \<Rightarrow> bool \<times> skb \<times> dp" where
  "destination env rw s d ip_off l4_off l4_csum_off =
     apply_rewrite env rw s d (ip_off + 16) (ip_off + 10) (l4_off + 2) l4_csum_off"

definition source ::
    "ebpf_env \<Rightarrow> Rewrite \<Rightarrow> skb \<Rightarrow> dp \<Rightarrow> nat \<Rightarrow> nat \<Rightarrow> nat \<Rightarrow> bool \<times> skb \<times> dp" where
  "source env rw s d ip_off l4_off l4_csum_off =
     apply_rewrite env rw s d (ip_off + 12) (ip_off + 10) l4_off l4_csum_off"

text \<open>\<^verbatim>\<open>MutationFailed::action\<close>.\<close>

definition mutation_failed_action :: tc_action where
  "mutation_failed_action = TC_ACT_SHOT"

section \<open>Which bytes change\<close>

text \<open>\<open>changes_only R s s'\<close>: the packets agree outside the byte positions \<open>R\<close> and in everything
  but the data.\<close>

definition changes_only :: "nat set \<Rightarrow> skb \<Rightarrow> skb \<Rightarrow> bool" where
  "changes_only R s s' \<longleftrightarrow> s' = s\<lparr>sk_data := sk_data s'\<rparr> \<and> length (sk_data s') = length (sk_data s) \<and>
     (\<forall>i. i \<notin> R \<longrightarrow> sk_data s' ! i = sk_data s ! i)"

lemma changes_only_refl [simp, intro]: "changes_only R s s"
  by (simp add: changes_only_def)

lemma changes_only_trans:
  "changes_only R s s' \<Longrightarrow> changes_only R s' s'' \<Longrightarrow> changes_only R s s''"
  unfolding changes_only_def by (metis (no_types, lifting) skb.surjective skb.update_convs(1) skb.select_convs)

lemma changes_only_mono: "changes_only R s s' \<Longrightarrow> R \<subseteq> R' \<Longrightarrow> changes_only R' s s'"
  by (auto simp: changes_only_def)

lemma changes_only_length: "changes_only R s s' \<Longrightarrow> length (sk_data s') = length (sk_data s)"
  by (simp add: changes_only_def)

lemma changes_only_nth: "changes_only R s s' \<Longrightarrow> i \<notin> R \<Longrightarrow> sk_data s' ! i = sk_data s ! i"
  by (simp add: changes_only_def)

lemma changes_only_slice:
  assumes "changes_only R s s'" "{off..<off + n} \<inter> R = {}"
  shows "take n (drop off (sk_data s')) = take n (drop off (sk_data s))"
  using assms by (intro nth_equalityI) (auto simp: changes_only_def disjoint_iff)

lemma changes_only_splice:
  assumes "off + length bs \<le> length (sk_data s)" "{off..<off + length bs} \<subseteq> R"
  shows "changes_only R s (s\<lparr>sk_data := splice off bs (sk_data s)\<rparr>)"
  using assms by (auto simp: changes_only_def nth_splice subset_iff)

lemma store_changes:
  assumes "store_writes env" "env_store env s off bs = Some s'" "{off..<off + length bs} \<subseteq> R"
  shows "changes_only R s s'" "take (length bs) (drop off (sk_data s')) = bs"
  using store_writesD[OF assms(1,2)] changes_only_splice[OF _ assms(3)] by (auto simp: splice_def)

lemma csum_changes:
  assumes "csum_local env" "{off..<off + 2} \<subseteq> R"
    "env_l3_csum_replace env s off a b f = Some s' \<or> env_l4_csum_replace env s off a b f = Some s'"
  shows "changes_only R s s'"
proof -
  obtain c where "off + 2 \<le> length (sk_data s)" "length c = 2"
      "s' = s\<lparr>sk_data := splice off c (sk_data s)\<rparr>"
    using assms(1,3) unfolding csum_local_def by blast
  then show ?thesis using changes_only_splice[of off c s R] assms(2) by simp
qed

definition rewrite_region :: "nat \<Rightarrow> nat \<Rightarrow> nat \<Rightarrow> nat \<Rightarrow> nat set" where
  "rewrite_region address_off ip_csum_off port_off l4_csum_off =
     {address_off..<address_off + 4} \<union> {ip_csum_off..<ip_csum_off + 2} \<union>
     {port_off..<port_off + 2} \<union> {l4_csum_off..<l4_csum_off + 2}"

lemma length_ne_bytes [simp]: "length (ne_bytes32 x) = 4" "length (ne_bytes16 y) = 2"
  by (simp_all add: ne_bytes32_def ne_bytes16_def)

lemma length_be_bytes32 [simp]: "length (be_bytes32 x) = 4"
  by (simp add: be_bytes32_def)

lemma try_helper_changes:
  assumes "\<And>s'. r = Some s' \<Longrightarrow> changes_only R s0 s' \<Longrightarrow> changes_only R s0 (snd (k s'))"
    "\<And>s'. r = Some s' \<Longrightarrow> changes_only R s s'" "changes_only R s0 s"
  shows "changes_only R s0 (snd (try_helper r s k))"
  using assms changes_only_trans by (auto simp: try_helper_def split: option.splits)

text \<open>Success or failure, a rewrite touches only the four fields.\<close>

lemma rewrite_write_changes:
  assumes "store_writes env" "csum_local env"
  shows "changes_only (rewrite_region ao ic po lc) s (snd (rewrite_write env rw s ao ic po lc))"
proof -
  let ?R = "rewrite_region ao ic po lc"
  have R: "{ao..<ao + length (ne_bytes32 x)} \<subseteq> ?R" "{po..<po + length (ne_bytes16 y)} \<subseteq> ?R"
    "{lc..<lc + length (ne_bytes16 y)} \<subseteq> ?R" "{ic..<ic + 2} \<subseteq> ?R" "{lc..<lc + 2} \<subseteq> ?R" for x y
    by (auto simp: rewrite_region_def)
  note c = R(1-3)[THEN store_changes(1)[OF assms(1), rotated]]
    csum_changes[OF assms(2) R(4), OF disjI1] csum_changes[OF assms(2) R(5), OF disjI2]
  show ?thesis
    unfolding rewrite_write_def Let_def by (auto intro!: try_helper_changes elim: c)
qed

lemma try_helper_True:
  "try_helper r s k = (True, s') \<longleftrightarrow> (\<exists>s1. r = Some s1 \<and> k s1 = (True, s'))"
  by (auto simp: try_helper_def split: option.splits)

text \<open>After success the address and the port field hold the new values, in network order.\<close>

lemma rewrite_write_fields:
  assumes "store_writes env" "csum_local env" "rewrite_write env rw s ao ic po lc = (True, s')"
    "{ao..<ao + 4} \<inter> ({ic..<ic + 2} \<union> {po..<po + 2} \<union> {lc..<lc + 2}) = {}"
    "{po..<po + 2} \<inter> {lc..<lc + 2} = {}"
  shows "take 4 (drop ao (sk_data s')) = be_bytes32 (rw_new_address rw)"
    "take 2 (drop po (sk_data s')) = be_bytes16 (rw_new_port rw)"
proof -
  let ?b = "be_bytes32 (rw_new_address rw)" and ?q = "be_bytes16 (rw_new_port rw)"
  obtain s1 s2 s3 s4 s5 where steps:
    "env_store env s ao (ne_bytes32 (to_be32 (rw_new_address rw))) = Some s1"
    "env_l3_csum_replace env s1 ic (ucast (to_be32 (rw_old_address rw)))
       (ucast (to_be32 (rw_new_address rw))) 4 = Some s2"
    "env_l4_csum_replace env s2 lc (ucast (to_be32 (rw_old_address rw)))
       (ucast (to_be32 (rw_new_address rw))) (4 OR BPF_F_PSEUDO_HDR) = Some s3"
    "env_store env s3 po (ne_bytes16 (to_be16 (rw_new_port rw))) = Some s4"
    "env_l4_csum_replace env s4 lc (ucast (to_be16 (rw_old_port rw)))
       (ucast (to_be16 (rw_new_port rw))) 2 = Some s5"
    "s' = s5 \<or> env_store env s5 lc (ne_bytes16 0) = Some s'"
    using assms(3) unfolding rewrite_write_def Let_def
    by (auto simp: try_helper_True split: if_splits)
  note st = store_changes[OF assms(1)]
  have l: "changes_only {lc..<lc + 2} s5 s'" using steps(6) st(1) by fastforce
  have c4: "changes_only {lc..<lc + 2} s4 s5" using csum_changes[OF assms(2)] steps(5) by blast
  have c45: "changes_only {lc..<lc + 2} s4 s'" using changes_only_trans[OF c4 l] .
  have c34: "changes_only {po..<po + 2} s3 s4" using st(1)[OF steps(4)] by simp
  have c23: "changes_only {lc..<lc + 2} s2 s3" using csum_changes[OF assms(2)] steps(3) by blast
  have c12: "changes_only {ic..<ic + 2} s1 s2" using csum_changes[OF assms(2)] steps(2) by blast
  have "take 2 (drop po (sk_data s')) = take 2 (drop po (sk_data s4))"
    using c45 assms(5) by (rule changes_only_slice)
  also have "\<dots> = ?q" using st(2)[OF steps(4) subset_refl] by (simp add: ne_bytes16_to_be)
  finally show "take 2 (drop po (sk_data s')) = ?q" .
  have d: "{ao..<ao + 4} \<inter> {lc..<lc + 2} = {}" "{ao..<ao + 4} \<inter> {po..<po + 2} = {}"
    "{ao..<ao + 4} \<inter> {ic..<ic + 2} = {}"
    using assms(4) by blast+
  have "take 4 (drop ao (sk_data s')) = take 4 (drop ao (sk_data s1))"
    using changes_only_slice[OF c45 d(1)] changes_only_slice[OF c34 d(2)]
      changes_only_slice[OF c23 d(1)] changes_only_slice[OF c12 d(3)] by simp
  also have "\<dots> = ?b" using st(2)[OF steps(1) subset_refl] by (simp add: ne_bytes32_to_be length_be_bytes32)
  finally show "take 4 (drop ao (sk_data s')) = ?b" .
qed

lemma apply_rewrite_cases:
  assumes "apply_rewrite env rw s d ao ic po lc = (ok, s', d')"
  shows "rewrite_write env rw s ao ic po lc = (ok, s')"
    "d' = (if ok then d else native_bump (\<lambda>st. st\<lparr>ds_checksum_error := ds_checksum_error st + 1\<rparr>) d)"
  using assms by (auto simp: apply_rewrite_def split: prod.splits bool.splits)

end
