(* ===== verification/Redirect_Packet.thy ===== *)
theory Redirect_Packet
  imports Skb
begin

text \<open>
  The incremental checksum of \<^verbatim>\<open>edge-lb-ebpf/src/main.rs\<close> and the shared redirect mechanics of
  \<^verbatim>\<open>edge-lb-ebpf/src/redirect_packet.rs\<close>: reading a redirectable IPv4 header and transmitting it
  with a decremented TTL, a new link-layer header and an incrementally updated checksum.  The
  lemmas show that the incremental update keeps the ones'-complement sum of the header, so a header
  that passes the receiver's test before the update passes it afterwards.
\<close>

section \<open>RFC 1624 incremental update\<close>

definition incremental_csum :: "u16 \<Rightarrow> u16 \<Rightarrow> u16 \<Rightarrow> u16" where
  "incremental_csum old_check old_half new_half =
     (let sum0 = (ucast (NOT old_check) AND 0xffff) + (ucast (NOT old_half) AND 0xffff)
                 + (ucast new_half :: u32);
          sum1 = (sum0 AND 0xffff) + drop_bit 16 sum0;
          sum2 = (sum1 AND 0xffff) + drop_bit 16 sum1
      in NOT (ucast sum2 :: u16))"

lemma unat_not_u16: "unat (NOT x) = 65535 - unat x" for x :: u16
proof -
  have "NOT x = - 1 - x" by (simp add: not_eq_complement)
  moreover have "x \<le> - 1" by simp
  ultimately show ?thesis by (simp add: unat_sub)
qed

lemma u16_lt: "unat x \<le> 65535" for x :: u16
  using unat_word_lt [of x] by simp

lemma unat_incremental_csum:
  obtains f where "unat (incremental_csum c m m') = 65535 - f" "f \<le> 65535"
    "f mod 65535 = ((65535 - unat c) + (65535 - unat m) + unat m') mod 65535"
proof -
  let ?s = "(ucast (NOT c) AND 0xffff) + (ucast (NOT m) AND 0xffff) + (ucast m' :: u32)"
  let ?f = "unat (fold16 (fold16 ?s))"
  have half: "unat (ucast (NOT x) AND 0xffff :: u32) = 65535 - unat x" for x :: u16
    by (simp add: unat_and_ffff unat_not_u16)
  have "unat ?s = (65535 - unat c) + (65535 - unat m) + unat m'"
    using u16_lt [of m'] by (subst unat_add_lem [THEN iffD1]; simp add: half unat_word_ariths)+
  then have "?f mod 65535 = ((65535 - unat c) + (65535 - unat m) + unat m') mod 65535"
    by (simp add: fold16_mod)
  moreover have "?f \<le> 65535" by (rule fold16_twice_le)
  moreover have "unat (incremental_csum c m m') = 65535 - ?f"
  proof -
    have "unat (ucast (fold16 (fold16 ?s)) :: u16) = ?f"
      using \<open>?f \<le> 65535\<close> by (simp add: unsigned_ucast_eq take_bit_nat_eq_self)
    then show ?thesis
      by (simp add: incremental_csum_def unat_not_u16 fold16_def Let_def)
  qed
  ultimately show thesis using that by blast
qed

text \<open>Replacing one halfword of a header and updating the checksum incrementally keeps the total a
  multiple of 65535, whatever the rest of the header sums to.\<close>

lemma incremental_csum_keeps_sum:
  assumes "65535 dvd rest + unat m + unat c"
  shows "65535 dvd rest + unat m' + unat (incremental_csum c m m')"
proof -
  obtain f where f: "unat (incremental_csum c m m') = 65535 - f" "f \<le> 65535"
    and fm: "f mod 65535 = ((65535 - unat c) + (65535 - unat m) + unat m') mod 65535"
    by (rule unat_incremental_csum)
  let ?S = "(65535 - unat c) + (65535 - unat m) + unat m'"
  have S: "int ?S = 131070 - int (unat c) - int (unat m) + int (unat m')"
    using u16_lt [of c] u16_lt [of m] by simp
  have d1: "(65535::int) dvd int ?S - int f"
    using arg_cong [OF fm, of int] by (simp only: zmod_int mod_eq_dvd_iff of_nat_numeral)
      (simp only: dvd_diff_commute)
  have "int 65535 dvd int (rest + unat m + unat c)"
    using assms by (simp only: int_dvd_int_iff)
  then have d2: "(65535::int) dvd int (rest + unat m + unat c)"
    by (simp only: of_nat_numeral)
  have "int rest + int (unat m') + (65535 - int f)
        = int (rest + unat m + unat c) + (int ?S - int f) - 65535"
    unfolding S by simp
  then have "(65535::int) dvd int rest + int (unat m') + (65535 - int f)"
    by (simp only: dvd_diff [OF dvd_add [OF d2 d1] dvd_refl])
  then have "(65535::int) dvd int (rest + unat m' + (65535 - f))"
    using f(2) by (simp add: of_nat_diff algebra_simps)
  then have "int 65535 dvd int (rest + unat m' + (65535 - f))"
    by (simp only: of_nat_numeral)
  then show ?thesis
    unfolding f(1) by (simp only: int_dvd_int_iff)
qed

section \<open>The header checksum test\<close>

text \<open>The loop \<^verbatim>\<open>while offset < 20 { sum += u16::from_be_bytes(..); offset += 2 }\<close>.\<close>

fun hdr_sum :: "u32 \<Rightarrow> bytes \<Rightarrow> u32" where
  "hdr_sum acc (a # b # rest) = hdr_sum (acc + ucast (be16 a b)) rest"
| "hdr_sum acc _ = acc"

definition ip_csum_ok :: "bytes \<Rightarrow> bool" where
  "ip_csum_ok ip \<longleftrightarrow>
     (let sum0 = hdr_sum 0 ip;
          sum1 = (sum0 AND 0xffff) + drop_bit 16 sum0;
          sum2 = (sum1 AND 0xffff) + drop_bit 16 sum1
      in sum2 = 0xffff)"

fun words_total :: "bytes \<Rightarrow> nat" where
  "words_total (a # b # rest) = unat (be16 a b) + words_total rest"
| "words_total _ = 0"

lemma words_total_le: "words_total bs \<le> 65535 * length bs"
proof (induction bs rule: words_total.induct)
  case (1 a b rest)
  then show ?case using u16_lt [of "be16 a b"] by simp
qed auto

lemma unat_hdr_sum:
  "unat acc + words_total bs < 2 ^ 32 \<Longrightarrow> unat (hdr_sum acc bs) = unat acc + words_total bs"
proof (induction acc bs rule: hdr_sum.induct)
  case (1 acc a b rest)
  then have "unat (acc + ucast (be16 a b)) = unat acc + unat (be16 a b)"
    by (subst unat_add_lem [THEN iffD1]) auto
  with 1 show ?case by simp
qed auto

lemma ip_csum_ok_iff:
  assumes "length ip = 20"
  shows "ip_csum_ok ip \<longleftrightarrow> 0 < words_total ip \<and> 65535 dvd words_total ip"
proof -
  have "words_total ip \<le> 65535 * 20"
    using words_total_le [of ip] assms by simp
  then have "unat (hdr_sum 0 ip) = words_total ip"
    by (subst unat_hdr_sum) auto
  then show ?thesis
    using fold16_all_ones [of "hdr_sum 0 ip"]
    by (simp add: ip_csum_ok_def Let_def flip: fold16_def)
qed

lemma length_20E:
  assumes "length ip = 20"
  obtains b0 b1 b2 b3 b4 b5 b6 b7 b8 b9 b10 b11 b12 b13 b14 b15 b16 b17 b18 b19 where
    "ip = [b0,b1,b2,b3,b4,b5,b6,b7,b8,b9,b10,b11,b12,b13,b14,b15,b16,b17,b18,b19]"
proof -
  have "length ip = Suc (Suc (Suc (Suc (Suc (Suc (Suc (Suc (Suc (Suc (Suc (Suc (Suc (Suc (Suc (Suc
     (Suc (Suc (Suc (Suc 0)))))))))))))))))))"
    using assms by simp
  then show thesis using that by (auto simp only: length_Suc_conv length_0_conv)
qed

section \<open>redirect\_packet.rs\<close>

definition read :: "ebpf_env \<Rightarrow> skb \<Rightarrow> bytes option" where
  "read env s =
     (case env_load env s 14 20 of
        None \<Rightarrow> None
      | Some ip \<Rightarrow>
          if ip ! 0 \<noteq> 0x45 \<or> be16 (ip ! 6) (ip ! 7) AND 0xbfff \<noteq> 0
             \<or> sk_mark s \<noteq> 0 \<or> sk_pkt_type s \<noteq> 0 \<or> sk_vlan_present s \<noteq> 0
             \<or> sk_gso_segs s > 1 \<or> sk_gso_size s \<noteq> 0
          then None
          else
            let len = (ucast (be16 (ip ! 2) (ip ! 3)) :: u32) in
            (case (if ip ! 9 = 6 then Some 40 else if ip ! 9 = 17 then Some 28 else None) of
               None \<Rightarrow> None
             | Some mn \<Rightarrow>
                 if len < mn \<or> len + 14 \<noteq> of_nat (length (sk_data s)) then None
                 else if \<not> ip_csum_ok ip then None
                 else Some ip))"

definition unicast_address :: "u32 \<Rightarrow> bool" where
  "unicast_address ip \<longleftrightarrow>
     (let b = be_bytes32 ip
      in b ! 0 \<noteq> 0 \<and> b ! 0 \<noteq> 127 \<and> b ! 0 < 224 \<and> \<not> (b ! 0 = 169 \<and> b ! 1 = 254))"

text \<open>The header that is sent out: TTL decremented, checksum updated.\<close>

definition forwarded_header :: "bytes \<Rightarrow> bytes" where
  "forwarded_header ip0 =
     (let old_word = be16 (ip0 ! 8) (ip0 ! 9);
          ip1 = ip0[8 := ip0 ! 8 - 1];
          new_word = be16 (ip1 ! 8) (ip1 ! 9);
          check = incremental_csum (be16 (ip1 ! 10) (ip1 ! 11)) old_word new_word
      in ip1[10 := be_bytes16 check ! 0, 11 := be_bytes16 check ! 1])"

text \<open>The result carries the packet, because a failed second store leaves the first one applied.\<close>

definition transmit ::
    "ebpf_env \<Rightarrow> skb \<Rightarrow> bytes \<Rightarrow> u32 \<Rightarrow> bytes \<Rightarrow> bytes \<Rightarrow> tc_action option \<times> skb" where
  "transmit env s ip ifindex source_mac destination_mac =
     (let ip' = forwarded_header ip;
          macs = destination_mac @ source_mac
      in case env_store env s 14 ip' of
           None \<Rightarrow> (None, s)
         | Some s1 \<Rightarrow>
             (case env_store env s1 0 macs of
                None \<Rightarrow> (None, s1)
              | Some s2 \<Rightarrow>
                  let action = env_redirect env ifindex in
                  if action = TC_ACT_REDIRECT then (Some action, s2) else (None, s2)))"

lemma length_forwarded_header [simp]: "length (forwarded_header ip) = length ip"
  by (simp add: forwarded_header_def Let_def)

lemma forwarded_header_nth:
  assumes "length ip = 20" "i < 20" "i \<notin> {8, 10, 11}"
  shows "forwarded_header ip ! i = ip ! i"
  using assms by (simp add: forwarded_header_def Let_def)

lemma forwarded_header_ttl: "length ip = 20 \<Longrightarrow> forwarded_header ip ! 8 = ip ! 8 - 1"
  by (simp add: forwarded_header_def Let_def)

lemma forwarded_header_csum:
  assumes len: "length ip = 20" and ok: "ip_csum_ok ip" and v: "ip ! 0 = 0x45"
  shows "ip_csum_ok (forwarded_header ip)"
proof -
  obtain b0 b1 b2 b3 b4 b5 b6 b7 b8 b9 b10 b11 b12 b13 b14 b15 b16 b17 b18 b19 where ip:
    "ip = [b0,b1,b2,b3,b4,b5,b6,b7,b8,b9,b10,b11,b12,b13,b14,b15,b16,b17,b18,b19]"
    using len by (rule length_20E)
  let ?rest = "unat (be16 b0 b1) + unat (be16 b2 b3) + unat (be16 b4 b5) + unat (be16 b6 b7)
    + unat (be16 b12 b13) + unat (be16 b14 b15) + unat (be16 b16 b17) + unat (be16 b18 b19)"
  let ?c = "incremental_csum (be16 b10 b11) (be16 b8 b9) (be16 (b8 - 1) b9)"
  have old: "words_total ip = ?rest + unat (be16 b8 b9) + unat (be16 b10 b11)"
    by (simp add: ip)
  have fw: "forwarded_header ip =
      [b0,b1,b2,b3,b4,b5,b6,b7,b8 - 1,b9,ucast (drop_bit 8 ?c),ucast ?c,b12,b13,b14,b15,b16,b17,b18,b19]"
    by (simp add: ip forwarded_header_def be_bytes16_def Let_def)
  have new: "words_total (forwarded_header ip) = ?rest + unat (be16 (b8 - 1) b9) + unat ?c"
    unfolding fw by simp
  have "65535 dvd ?rest + unat (be16 b8 b9) + unat (be16 b10 b11)"
    using ok len old by (simp add: ip_csum_ok_iff)
  then have "65535 dvd ?rest + unat (be16 (b8 - 1) b9) + unat ?c"
    by (rule incremental_csum_keeps_sum)
  moreover have "0 < ?rest"
    using v by (simp add: ip unat_be16)
  ultimately show ?thesis
    using len by (simp add: ip_csum_ok_iff new)
qed

lemma transmit_OkD:
  assumes "transmit env s ip ifindex smac dmac = (Some a, s')"
  shows "a = TC_ACT_REDIRECT"
  using assms by (auto simp: transmit_def Let_def split: option.splits if_splits)

end
