(* ===== verification/Redirect.thy ===== *)
theory Redirect
  imports Nat_Rewrite Redirect_Packet
begin

text \<open>
  The two redirect stages that follow a successful rewrite: \<^verbatim>\<open>redirect.rs\<close> (\<open>forward\<close>, here
  \<open>redirect_forward\<close>: towards the backend, along a route that user space published) and
  \<^verbatim>\<open>return_redirect.rs\<close> (\<open>forward\<close>, here \<open>return_forward\<close>: towards the client, along the kernel's
  FIB answer, admitted by a lease).  The lemmas show the shared contract of both stages: the packet is
  handed to the stack untouched, or dropped, or redirected with a decremented TTL, a correct header
  checksum and new Ethernet addresses; and nothing but the stage's statistics changes.
\<close>

section \<open>redirect.rs\<close>

definition redirect_bump :: "(NativeRedirectStats \<Rightarrow> NativeRedirectStats) \<Rightarrow> dp \<Rightarrow> dp" where
  "redirect_bump update d = d\<lparr>dp_redirect_stats := update (dp_redirect_stats d)\<rparr>"

definition redirect_fallback :: "RedirectFallback \<Rightarrow> NativeRedirectStats \<Rightarrow> NativeRedirectStats" where
  "redirect_fallback reason s = (case reason of
        InvalidRoute \<Rightarrow> s\<lparr>rs_route_invalid := rs_route_invalid s + 1\<rparr>
      | Expired \<Rightarrow> s\<lparr>rs_expired := rs_expired s + 1\<rparr>
      | TargetChanged \<Rightarrow> s\<lparr>rs_target_changed := rs_target_changed s + 1\<rparr>
      | Ttl \<Rightarrow> s\<lparr>rs_ttl := rs_ttl s + 1\<rparr>
      | Mtu \<Rightarrow> s\<lparr>rs_mtu := rs_mtu s + 1\<rparr>
      | Unsupported \<Rightarrow> s\<lparr>rs_unsupported := rs_unsupported s + 1\<rparr>)"

text \<open>The checks before the transmission: \<open>Inl\<close> is a fallback to the stack, with the counter it
  bumps; \<open>Inr\<close> is the header and the route to transmit with.\<close>

definition redirect_packet_of :: "skb \<Rightarrow> bytes \<Rightarrow> bytes \<Rightarrow> RedirectPacket" where
  "redirect_packet_of s ip port = \<lparr>
     rp_target = be32 (ip ! 16) (ip ! 17) (ip ! 18) (ip ! 19),
     rp_target_port = from_be16 (ne_u16 (port ! 0) (port ! 1)),
     rp_ingress_ifindex = sk_ingress_ifindex s,
     rp_ip_len = ucast (be16 (ip ! 2) (ip ! 3)),
     rp_ttl = ip ! 8,
     rp_dscp = drop_bit 2 (ip ! 1)\<rparr>"

definition redirect_admit ::
    "ebpf_env \<Rightarrow> skb \<Rightarrow> NativeTargetKey \<Rightarrow> u64 \<Rightarrow> dp \<Rightarrow>
     (NativeRedirectStats \<Rightarrow> NativeRedirectStats) + bytes \<times> NativeTargetRoute" where
  "redirect_admit env s key now_ns d =
     (case dp_target_routes d key of
        None \<Rightarrow> Inl (\<lambda>st. st\<lparr>rs_route_miss := rs_route_miss st + 1\<rparr>)
      | Some route \<Rightarrow>
      (case env_load env s 14 20 of
        None \<Rightarrow> Inl (redirect_fallback Unsupported)
      | Some ip \<Rightarrow>
        if ip ! 0 \<noteq> 0x45 \<or> be16 (ip ! 6) (ip ! 7) AND 0xbfff \<noteq> 0
           \<or> sk_mark s \<noteq> 0 \<or> sk_pkt_type s \<noteq> 0 \<or> sk_vlan_present s \<noteq> 0
           \<or> sk_gso_segs s > 1 \<or> sk_gso_size s \<noteq> 0
        then Inl (redirect_fallback Unsupported)
        else
        let ip_len = (ucast (be16 (ip ! 2) (ip ! 3)) :: u32);
            src = be32 (ip ! 12) (ip ! 13) (ip ! 14) (ip ! 15) in
        if ip ! 12 = 0 \<or> ip ! 12 = 127 \<or> ip ! 12 \<ge> 224 \<or> (ip ! 12 = 169 \<and> ip ! 13 = 254)
           \<or> dp_local_addrs d src \<noteq> None
        then Inl (redirect_fallback Unsupported)
        else if ip_len + 14 \<noteq> of_nat (length (sk_data s)) then Inl (redirect_fallback Unsupported)
        else
        (case (if ip ! 9 = 6 then Some 40 else if ip ! 9 = 17 then Some 28 else None) of
           None \<Rightarrow> Inl (redirect_fallback Unsupported)
         | Some min_len \<Rightarrow>
           if ip_len < min_len then Inl (redirect_fallback Unsupported)
           else
           (case env_load env s 36 2 of
              None \<Rightarrow> Inl (redirect_fallback Unsupported)
            | Some port \<Rightarrow>
              (case validate route (redirect_packet_of s ip port) now_ns of
                 Inl reason \<Rightarrow> Inl (redirect_fallback reason)
               | Inr _ \<Rightarrow>
                 if \<not> ip_csum_ok ip then Inl (redirect_fallback Unsupported)
                 else Inr (ip, route))))))"

definition redirect_forward ::
    "ebpf_env \<Rightarrow> skb \<Rightarrow> NativeTargetKey \<Rightarrow> u64 \<Rightarrow> dp \<Rightarrow> tc_action \<times> skb \<times> dp" where
  "redirect_forward env s key now_ns d =
     (case redirect_admit env s key now_ns d of
        Inl count \<Rightarrow> (TC_ACT_PIPE, s, redirect_bump count d)
      | Inr (ip, route) \<Rightarrow>
          (case transmit env s ip (tr_ifindex route) (tr_source_mac route)
                  (tr_destination_mac route) of
             (Some action, s') \<Rightarrow>
               (action, s', redirect_bump (\<lambda>st. st\<lparr>rs_submitted := rs_submitted st + 1\<rparr>) d)
           | (None, s') \<Rightarrow>
               (TC_ACT_SHOT, s',
                redirect_bump (\<lambda>st. st\<lparr>rs_mutation_error := rs_mutation_error st + 1\<rparr>) d)))"

section \<open>return\_redirect.rs\<close>

definition return_bump :: "(ReturnRedirectStats \<Rightarrow> ReturnRedirectStats) \<Rightarrow> dp \<Rightarrow> dp" where
  "return_bump update d = d\<lparr>dp_return_stats := update (dp_return_stats d)\<rparr>"

text \<open>The request to the kernel's FIB.\<close>

definition fib_request :: "skb \<Rightarrow> bytes \<Rightarrow> bytes \<Rightarrow> fib_params" where
  "fib_request s ip ports = \<lparr>
     fp_family = 2, fp_l4_protocol = ip ! 9,
     fp_sport = ne_u16 (ports ! 0) (ports ! 1), fp_dport = ne_u16 (ports ! 2) (ports ! 3),
     fp_tot_len = be16 (ip ! 2) (ip ! 3), fp_tos = ip ! 1,
     fp_ipv4_src = to_be32 (be32 (ip ! 12) (ip ! 13) (ip ! 14) (ip ! 15)),
     fp_ipv4_dst = to_be32 (be32 (ip ! 16) (ip ! 17) (ip ! 18) (ip ! 19)),
     fp_ifindex = sk_ifindex s, fp_smac = replicate 6 0, fp_dmac = replicate 6 0, fp_vlan_proto = 0\<rparr>"

definition return_admit ::
    "ebpf_env \<Rightarrow> skb \<Rightarrow> u64 \<Rightarrow> dp \<Rightarrow> (ReturnRedirectStats \<Rightarrow> ReturnRedirectStats) + bytes \<times> fib_params" where
  "return_admit env s now_ns d =
     (let unsupported = Inl (\<lambda>st. st\<lparr>rr_unsupported := rr_unsupported st + 1\<rparr>) in
      case read env s of
        None \<Rightarrow> unsupported
      | Some ip \<Rightarrow>
        if ip ! 8 \<le> 1 then Inl (\<lambda>st. st\<lparr>rr_ttl := rr_ttl st + 1\<rparr>)
        else
        let src = be32 (ip ! 12) (ip ! 13) (ip ! 14) (ip ! 15);
            dst = be32 (ip ! 16) (ip ! 17) (ip ! 18) (ip ! 19) in
        if \<not> unicast_address src \<or> \<not> unicast_address dst then unsupported
        else
        (case env_load env s 34 4 of
           None \<Rightarrow> unsupported
         | Some ports \<Rightarrow>
           let ingress_ifindex = sk_ifindex s in
           (case env_fib_lookup env s (fib_request s ip ports) of
              (result, fib) \<Rightarrow>
              if result \<noteq> FIB_SUCCESS
              then Inl (\<lambda>st. case result of
                      FIB_NO_NEIGH \<Rightarrow> st\<lparr>rr_neighbor := rr_neighbor st + 1\<rparr>
                    | FIB_FRAG_NEEDED \<Rightarrow> st\<lparr>rr_mtu := rr_mtu st + 1\<rparr>
                    | _ \<Rightarrow> st\<lparr>rr_route := rr_route st + 1\<rparr>)
              else
              (case dp_return_leases d \<lparr>rk_ingress_ifindex = ingress_ifindex,
                      rk_ifindex = fp_ifindex fib, rk_source = src\<rparr> of
                 None \<Rightarrow> Inl (\<lambda>st. st\<lparr>rr_policy := rr_policy st + 1\<rparr>)
               | Some lease \<Rightarrow>
                 if rl_expires_ns lease \<le> now_ns then Inl (\<lambda>st. st\<lparr>rr_expired := rr_expired st + 1\<rparr>)
                 else if fp_ifindex fib = 0 \<or> fp_ifindex fib = ingress_ifindex
                   \<or> \<not> unicast_mac (fp_smac fib) \<or> \<not> unicast_mac (fp_dmac fib)
                   \<or> fp_vlan_proto fib \<noteq> 0
                 then unsupported
                 else Inr (ip, fib)))))"

definition return_forward :: "ebpf_env \<Rightarrow> skb \<Rightarrow> u64 \<Rightarrow> dp \<Rightarrow> tc_action \<times> skb \<times> dp" where
  "return_forward env s now_ns d =
     (case return_admit env s now_ns d of
        Inl count \<Rightarrow> (TC_ACT_PIPE, s, return_bump count d)
      | Inr (ip, fib) \<Rightarrow>
          (case transmit env s ip (fp_ifindex fib) (fp_smac fib) (fp_dmac fib) of
             (Some action, s') \<Rightarrow>
               (action, s', return_bump (\<lambda>st. st\<lparr>rr_submitted := rr_submitted st + 1\<rparr>) d)
           | (None, s') \<Rightarrow>
               (TC_ACT_SHOT, s',
                return_bump (\<lambda>st. st\<lparr>rr_mutation_error := rr_mutation_error st + 1\<rparr>) d)))"

section \<open>The contract of a redirect stage\<close>

text \<open>The MAC fields are six-byte arrays in the source; the model has byte lists, so the array type
  is a predicate.\<close>

definition routes_typed :: "dp \<Rightarrow> bool" where
  "routes_typed d \<longleftrightarrow> (\<forall>key route. dp_target_routes d key = Some route \<longrightarrow>
     length (tr_source_mac route) = 6 \<and> length (tr_destination_mac route) = 6)"

definition fib_typed :: "ebpf_env \<Rightarrow> bool" where
  "fib_typed env \<longleftrightarrow> (\<forall>s p. length (fp_smac p) = 6 \<longrightarrow> length (fp_dmac p) = 6 \<longrightarrow>
     length (fp_smac (snd (env_fib_lookup env s p))) = 6 \<and>
     length (fp_dmac (snd (env_fib_lookup env s p))) = 6)"

text \<open>What a redirect stage may overwrite: the Ethernet addresses, the TTL, the header checksum.\<close>

abbreviation stage_region :: "nat set" where
  "stage_region \<equiv> {0..<12} \<union> {22, 24, 25}"

abbreviation ip_header :: "skb \<Rightarrow> bytes" where
  "ip_header s \<equiv> take 20 (drop 14 (sk_data s))"

text \<open>A stage leaves flows, listeners, targets, loads, events and NAT statistics alone.\<close>

definition stage_frame :: "dp \<Rightarrow> dp \<Rightarrow> bool" where
  "stage_frame d d' \<longleftrightarrow>
     d' = d\<lparr>dp_redirect_stats := dp_redirect_stats d', dp_return_stats := dp_return_stats d'\<rparr>"

lemma stage_frame_fields:
  assumes "stage_frame d d'"
  shows "dp_flows d' = dp_flows d" "dp_native_stats d' = dp_native_stats d"
    "dp_active_flows d' = dp_active_flows d" "dp_flow_events d' = dp_flow_events d"
    "dp_targets d' = dp_targets d" "dp_listeners d' = dp_listeners d"
    "dp_target_routes d' = dp_target_routes d" "dp_rr_counters d' = dp_rr_counters d"
  by (subst assms[unfolded stage_frame_def], simp)+

lemma stage_frame_bump [simp]: "stage_frame d (redirect_bump f d)" "stage_frame d (return_bump g d)"
  by (simp_all add: stage_frame_def redirect_bump_def return_bump_def)

locale redirect_stage =
  fixes stage :: "ebpf_env \<Rightarrow> skb \<Rightarrow> dp \<Rightarrow> tc_action \<times> skb \<times> dp"
  assumes verdict: "stage env s d = (a, s', d') \<Longrightarrow> a \<in> {TC_ACT_PIPE, TC_ACT_SHOT, TC_ACT_REDIRECT}"
    and untouched: "stage env s d = (TC_ACT_PIPE, s', d') \<Longrightarrow> s' = s"
    and frames: "stage env s d = (a, s', d') \<Longrightarrow> stage_frame d d'"
    and region: "\<lbrakk>load_reads env; store_writes env; routes_typed d; fib_typed env;
      stage env s d = (a, s', d')\<rbrakk> \<Longrightarrow> changes_only stage_region s s'"
    and sent: "\<lbrakk>load_reads env; store_writes env; routes_typed d; fib_typed env;
      stage env s d = (TC_ACT_REDIRECT, s', d')\<rbrakk> \<Longrightarrow>
      ip_csum_ok (ip_header s) \<and> ip_header s' = forwarded_header (ip_header s) \<and> 1 < ip_header s ! 8"
begin

text \<open>A redirected packet carries a valid header checksum and a TTL one lower.\<close>

lemma redirected_header:
  assumes "load_reads env" "store_writes env" "routes_typed d" "fib_typed env"
    "stage env s d = (TC_ACT_REDIRECT, s', d')" "length (sk_data s) \<ge> 34" "ip_header s ! 0 = 0x45"
  shows "ip_csum_ok (ip_header s')" "ip_header s' ! 8 = ip_header s ! 8 - 1" "0 < ip_header s' ! 8"
proof -
  have l: "length (ip_header s) = 20" using assms(6) by simp
  note h = sent[OF assms(1-5)]
  show "ip_csum_ok (ip_header s')" using forwarded_header_csum[OF l] h assms(7) by simp
  show t: "ip_header s' ! 8 = ip_header s ! 8 - 1" using forwarded_header_ttl[OF l] h by simp
  have "1 < ip_header s ! 8" using h by simp
  then have "ip_header s ! 8 \<noteq> 1" "ip_header s ! 8 \<noteq> 0" by (auto simp: word_less_nat_alt)
  then show "0 < ip_header s' ! 8" unfolding t by (simp add: word_gt_0)
qed

lemma addresses_kept:
  assumes "load_reads env" "store_writes env" "routes_typed d" "fib_typed env"
    "stage env s d = (a, s', d')" "26 \<le> off"
  shows "take n (drop off (sk_data s')) = take n (drop off (sk_data s))"
  using region[OF assms(1-5)] by (rule changes_only_slice) (use assms(6) in auto)

end

lemma transmit_region:
  assumes "store_writes env" "length dmac = 6" "length smac = 6" "ip = ip_header s"
    "34 \<le> length (sk_data s)" "transmit env s ip ifindex smac dmac = (r, s')"
  shows "changes_only stage_region s s'"
proof -
  have l: "length ip = 20" using assms(4,5) by simp
  have "changes_only {22, 24, 25} s s1" if "env_store env s 14 (forwarded_header ip) = Some s1" for s1
  proof -
    have s1: "s1 = s\<lparr>sk_data := splice 14 (forwarded_header ip) (sk_data s)\<rparr>"
      using store_writesD[OF assms(1) that] by simp
    have "forwarded_header ip ! (i - 14) = sk_data s ! i"
      if i: "14 \<le> i" "i < 34" "i \<notin> {22, 24, 25}" for i
    proof -
      have "i - 14 < 20" "i - 14 \<notin> {8, 10, 11}" using i by auto
      then have "forwarded_header ip ! (i - 14) = ip ! (i - 14)"
        by (intro forwarded_header_nth[OF l])
      also have "\<dots> = sk_data s ! i" using i assms(5) by (simp add: assms(4))
      finally show ?thesis .
    qed
    then show ?thesis
      using assms(5) by (auto simp: s1 changes_only_def nth_splice l)
  qed
  moreover have "changes_only {0..<12} s1 s2" if "env_store env s1 0 (dmac @ smac) = Some s2" for s1 s2
    using store_changes(1)[OF assms(1) that] assms(2,3) by simp
  ultimately have c: "changes_only stage_region s s1"
      "env_store env s1 0 (dmac @ smac) = Some s2 \<Longrightarrow> changes_only stage_region s1 s2"
    if "env_store env s 14 (forwarded_header ip) = Some s1" for s1 s2
    using that by (blast intro: changes_only_mono)+
  have "s' = s \<or> (\<exists>s1. env_store env s 14 (forwarded_header ip) = Some s1 \<and>
      (s' = s1 \<or> env_store env s1 0 (dmac @ smac) = Some s'))"
    using assms(6) unfolding transmit_def Let_def by (auto split: option.splits if_splits)
  then show ?thesis using c changes_only_trans by blast
qed

lemma transmit_sent:
  assumes "store_writes env" "length dmac = 6" "length smac = 6" "length ip = 20"
    "transmit env s ip ifindex smac dmac = (Some a, s')"
  shows "a = TC_ACT_REDIRECT" "ip_header s' = forwarded_header ip"
    "take 12 (sk_data s') = dmac @ smac"
proof -
  obtain s1 where s1: "env_store env s 14 (forwarded_header ip) = Some s1"
    "env_store env s1 0 (dmac @ smac) = Some s'" "a = TC_ACT_REDIRECT"
    using assms(5) unfolding transmit_def Let_def by (auto split: option.splits if_splits)
  show "a = TC_ACT_REDIRECT" by (rule s1(3))
  have "ip_header s1 = forwarded_header ip"
    using store_changes(2)[OF assms(1) s1(1) subset_refl] assms(4) by simp
  moreover have "ip_header s' = ip_header s1"
    using store_changes(1)[OF assms(1) s1(2) subset_refl] assms(2,3)
    by (intro changes_only_slice) auto
  ultimately show "ip_header s' = forwarded_header ip" by simp
  show "take 12 (sk_data s') = dmac @ smac"
    using store_changes(2)[OF assms(1) s1(2) subset_refl] assms(2,3) by simp
qed

lemma redirect_admit_OkD:
  assumes "redirect_admit env s key now d = Inr (ip, route)"
  shows "dp_target_routes d key = Some route" "env_load env s 14 20 = Some ip" "ip_csum_ok ip"
    "ip ! 0 = 0x45" "1 < ip ! 8"
    "\<exists>port. env_load env s 36 2 = Some port \<and> validate route (redirect_packet_of s ip port) now = Inr ()"
  using assms unfolding redirect_admit_def Let_def
  by (auto split: option.splits if_splits sum.splits dest: validate_OkD(9)
      simp: redirect_packet_of_def)

lemma read_OkD:
  assumes "read env s = Some ip"
  shows "env_load env s 14 20 = Some ip" "ip_csum_ok ip" "ip ! 0 = 0x45"
  using assms unfolding read_def Let_def by (auto split: option.splits if_splits)

lemma return_admit_OkD:
  assumes "return_admit env s now d = Inr (ip, fib)"
  shows "read env s = Some ip" "1 < ip ! 8"
    "\<exists>ports. env_fib_lookup env s (fib_request s ip ports) = (FIB_SUCCESS, fib)"
    "\<exists>lease. dp_return_leases d \<lparr>rk_ingress_ifindex = sk_ifindex s, rk_ifindex = fp_ifindex fib,
       rk_source = be32 (ip ! 12) (ip ! 13) (ip ! 14) (ip ! 15)\<rparr> = Some lease \<and> now < rl_expires_ns lease"
    "fp_ifindex fib \<noteq> sk_ifindex s" "unicast_mac (fp_smac fib)" "unicast_mac (fp_dmac fib)"
  using assms unfolding return_admit_def Let_def
  by (auto split: option.splits if_splits prod.splits simp: not_le)

lemma loaded_header:
  "load_reads env \<Longrightarrow> env_load env s 14 20 = Some ip \<Longrightarrow> ip = ip_header s \<and> 34 \<le> length (sk_data s)"
  by (auto simp: load_readsD split: if_splits)

lemma transmit_verdict:
  assumes "(case transmit env s ip i smac dmac of (Some action, s') \<Rightarrow> (action, s', f) | (None, s') \<Rightarrow> (TC_ACT_SHOT, s', g))
    = (a, s', d')"
  shows "a = TC_ACT_REDIRECT \<and> transmit env s ip i smac dmac = (Some TC_ACT_REDIRECT, s') \<and> d' = f \<or>
    a = TC_ACT_SHOT \<and> transmit env s ip i smac dmac = (None, s') \<and> d' = g"
  using assms by (cases "transmit env s ip i smac dmac") (auto split: option.splits dest: transmit_OkD)

lemma redirect_forward_cases:
  assumes "redirect_forward env s key now d = (a, s', d')"
  obtains (pipe) f where "a = TC_ACT_PIPE" "s' = s" "d' = redirect_bump f d"
  | (transmit) ip route r f where "redirect_admit env s key now d = Inr (ip, route)"
      "transmit env s ip (tr_ifindex route) (tr_source_mac route) (tr_destination_mac route) = (r, s')"
      "a = TC_ACT_REDIRECT \<and> r = Some TC_ACT_REDIRECT \<or> a = TC_ACT_SHOT \<and> r = None"
      "d' = redirect_bump f d"
proof (cases "redirect_admit env s key now d")
  case (Inl f)
  then show ?thesis using assms by (intro pipe) (auto simp: redirect_forward_def)
next
  case (Inr x)
  then obtain ip route where x: "redirect_admit env s key now d = Inr (ip, route)" by (cases x) simp
  show ?thesis
    using transmit_verdict[OF assms[unfolded redirect_forward_def x sum.case prod.case]] transmit[OF x]
    by blast
qed

lemma return_forward_cases:
  assumes "return_forward env s now d = (a, s', d')"
  obtains (pipe) f where "a = TC_ACT_PIPE" "s' = s" "d' = return_bump f d"
  | (transmit) ip fib r f where "return_admit env s now d = Inr (ip, fib)"
      "transmit env s ip (fp_ifindex fib) (fp_smac fib) (fp_dmac fib) = (r, s')"
      "a = TC_ACT_REDIRECT \<and> r = Some TC_ACT_REDIRECT \<or> a = TC_ACT_SHOT \<and> r = None"
      "d' = return_bump f d"
proof (cases "return_admit env s now d")
  case (Inl f)
  then show ?thesis using assms by (intro pipe) (auto simp: return_forward_def)
next
  case (Inr x)
  then obtain ip fib where x: "return_admit env s now d = Inr (ip, fib)" by (cases x) simp
  show ?thesis
    using transmit_verdict[OF assms[unfolded return_forward_def x sum.case prod.case]] transmit[OF x]
    by blast
qed

lemma return_macs_typed:
  assumes "fib_typed env" "return_admit env s now d = Inr (ip, fib)"
  shows "length (fp_smac fib) = 6" "length (fp_dmac fib) = 6"
proof -
  obtain ports where "env_fib_lookup env s (fib_request s ip ports) = (FIB_SUCCESS, fib)"
    using return_admit_OkD(3)[OF assms(2)] by blast
  then show "length (fp_smac fib) = 6" "length (fp_dmac fib) = 6"
    using assms(1) unfolding fib_typed_def by (metis fib_params.select_convs(10,11) fib_request_def
        length_replicate snd_conv)+
qed

interpretation fwd: redirect_stage "\<lambda>env s d. redirect_forward env s key now d" for key now
proof
  fix env s d a s' d'
  assume r: "redirect_forward env s key now d = (a, s', d')"
  show "a \<in> {TC_ACT_PIPE, TC_ACT_SHOT, TC_ACT_REDIRECT}" "stage_frame d d'"
    using r by (cases rule: redirect_forward_cases; auto)+
  assume e: "load_reads env" "store_writes env" "routes_typed d"
  show "changes_only stage_region s s'"
    using r
  proof (cases rule: redirect_forward_cases)
    case (transmit ip route r f)
    then show ?thesis
      using transmit_region[OF e(2) _ _ _ _ transmit(2)] loaded_header[OF e(1)] redirect_admit_OkD(1,2) e(3)
      unfolding routes_typed_def by blast
  qed simp
next
  fix env s d s' d'
  assume r: "redirect_forward env s key now d = (TC_ACT_PIPE, s', d')"
  then show "s' = s" by (cases rule: redirect_forward_cases) auto
next
  fix env s d s' d'
  assume e: "load_reads env" "store_writes env" "routes_typed d"
    and r: "redirect_forward env s key now d = (TC_ACT_REDIRECT, s', d')"
  from r show "ip_csum_ok (ip_header s) \<and> ip_header s' = forwarded_header (ip_header s) \<and> 1 < ip_header s ! 8"
  proof (cases rule: redirect_forward_cases)
    case (transmit ip route r f)
    note ok = redirect_admit_OkD[OF transmit(1)]
    have ip: "ip = ip_header s" "length ip = 20" using loaded_header[OF e(1) ok(2)] by auto
    show ?thesis
      using transmit_sent(2)[OF e(2) _ _ ip(2), of "tr_destination_mac route" "tr_source_mac route"]
        transmit(2,3) ok(1,3,5) e(3) unfolding routes_typed_def ip(1) by auto
  qed simp
qed

interpretation ret: redirect_stage "\<lambda>env s d. return_forward env s now d" for now
proof
  fix env s d a s' d'
  assume r: "return_forward env s now d = (a, s', d')"
  show "a \<in> {TC_ACT_PIPE, TC_ACT_SHOT, TC_ACT_REDIRECT}" "stage_frame d d'"
    using r by (cases rule: return_forward_cases; auto)+
  assume e: "load_reads env" "store_writes env" "fib_typed env"
  show "changes_only stage_region s s'"
    using r
  proof (cases rule: return_forward_cases)
    case (transmit ip fib r f)
    then show ?thesis
      using transmit_region[OF e(2) _ _ _ _ transmit(2)] return_macs_typed[OF e(3) transmit(1)]
        loaded_header[OF e(1) read_OkD(1)[OF return_admit_OkD(1)[OF transmit(1)]]] by blast
  qed simp
next
  fix env s d s' d'
  assume r: "return_forward env s now d = (TC_ACT_PIPE, s', d')"
  then show "s' = s" by (cases rule: return_forward_cases) auto
next
  fix env s d s' d'
  assume e: "load_reads env" "store_writes env" "fib_typed env"
    and r: "return_forward env s now d = (TC_ACT_REDIRECT, s', d')"
  from r show "ip_csum_ok (ip_header s) \<and> ip_header s' = forwarded_header (ip_header s) \<and> 1 < ip_header s ! 8"
  proof (cases rule: return_forward_cases)
    case (transmit ip fib r f)
    note ok = return_admit_OkD[OF transmit(1)] note rd = read_OkD[OF ok(1)]
    have ip: "ip = ip_header s" "length ip = 20" using loaded_header[OF e(1) rd(1)] by auto
    show ?thesis
      using transmit_sent(2)[OF e(2) _ _ ip(2), of "fp_dmac fib" "fp_smac fib"]
        transmit(2,3) ok(2) rd(2) return_macs_typed[OF e(3) transmit(1)] unfolding ip(1) by auto
  qed simp
qed

section \<open>Example\<close>

text \<open>A UDP datagram from 10.0.0.1:4369 to 10.0.0.2:80 with TTL 64, and a route for it.\<close>

definition demo_skb :: skb where
  "demo_skb = \<lparr>sk_data = [2,0,0,0,0,1, 2,0,0,0,0,2, 8,0,
       0x45,0,0,28, 0,0,0,0, 64,17,0x66,0xcf, 10,0,0,1, 10,0,0,2, 0x11,0x11,0,80, 0,8,0,0],
     sk_mark = 0, sk_pkt_type = 0, sk_vlan_present = 0, sk_gso_segs = 0, sk_gso_size = 0,
     sk_ingress_ifindex = 3, sk_ifindex = 3\<rparr>"

definition demo_route :: NativeTargetRoute where
  "demo_route = \<lparr>tr_expires_ns = 100, tr_target = 0x0a000002, tr_ingress_ifindex = 3, tr_ifindex = 4,
     tr_mtu = 1500, tr_target_port = 80, tr_dscp = 0, tr_pad = 0,
     tr_source_mac = [2,0,0,0,0,7], tr_destination_mac = [2,0,0,0,0,8]\<rparr>"

definition demo_route_dp :: dp where
  "demo_route_dp = fresh_dp\<lparr>dp_target_routes := [\<lparr>tk_listener_id = 1, tk_target_id = 0\<rparr> \<mapsto> demo_route]\<rparr>"

lemma demo_route_dp_typed: "routes_typed demo_route_dp"
  by (simp add: routes_typed_def demo_route_dp_def demo_route_def)

lemma plain_env_fib_typed [simp]: "fib_typed plain_env"
  by (simp add: fib_typed_def plain_env_def)

lemma replicate_6: "replicate 6 (0 :: u8) = [0, 0, 0, 0, 0, 0]"
  by (simp add: numeral_eq_Suc)

lemma demo_redirects:
  "fst (redirect_forward plain_env demo_skb \<lparr>tk_listener_id = 1, tk_target_id = 0\<rparr> 5 demo_route_dp)
     = TC_ACT_REDIRECT"
  by (simp add: redirect_forward_def redirect_admit_def demo_route_dp_def demo_route_def demo_skb_def
      plain_env_def redirect_packet_of_def validate_def unicast_mac_def ip_csum_ok_def transmit_def
      be16_def be32_def fresh_dp_def Let_def splice_def replicate_6 word_le_nat_alt)

section \<open>Properties\<close>



end
