(* ===== verification/Datapath.thy ===== *)
theory Datapath
  imports Redirect
begin

text \<open>
  The NAT programs of \<^verbatim>\<open>edge-lb-ebpf/src/main.rs\<close>: \<open>native_dnat_ingress\<close> (client to backend) and
  \<open>native_dnat_return\<close> (backend to client), with everything they call: parsing, the flow table, the
  active-flow counters, flow events, target selection, rewriting and the redirect stages.  A program
  takes the environment, the clock, the packet and the maps, and returns its result
  (\<open>None\<close> is \<^verbatim>\<open>Err\<close>, which the entry point turns into \<open>TC_ACT_PIPE\<close>), the packet and the maps.
\<close>

section \<open>Flows\<close>

definition flow_expired :: "u64 \<Rightarrow> u32 \<Rightarrow> u64 \<Rightarrow> bool" where
  "flow_expired last_seen_ns timeout_secs now_ns =
     (if last_seen_ns = 0 \<or> timeout_secs = 0 then False
      else saturating_sub now_ns last_seen_ns > ucast timeout_secs * 1000000000)"

definition make_flow_key :: "u32 \<Rightarrow> u32 \<Rightarrow> u16 \<Rightarrow> u16 \<Rightarrow> u8 \<Rightarrow> NativeFlowKey" where
  "make_flow_key src dst sport dport proto = \<lparr>
     fk_src = src, fk_dst = dst, fk_sport = to_be16 sport, fk_dport = to_be16 dport,
     fk_proto = proto, fk_pad = [0, 0, 0]\<rparr>"

definition flow_key :: "Ipv4Hdr \<Rightarrow> u16 \<Rightarrow> u16 \<Rightarrow> NativeFlowKey" where
  "flow_key ip sport dport =
     make_flow_key (u32_from_be_bytes (ih_src_addr ip)) (u32_from_be_bytes (ih_dst_addr ip))
       sport dport (proto_u8 (ih_proto ip))"

definition adjust_active_flows :: "ebpf_env \<Rightarrow> u32 \<Rightarrow> u32 \<Rightarrow> int \<Rightarrow> dp \<Rightarrow> dp" where
  "adjust_active_flows env listener_id target_id delta d =
     (let key = \<lparr>ld_listener_id = listener_id, ld_target_id = target_id\<rparr>;
          current = (case dp_active_flows d key of Some n \<Rightarrow> n | None \<Rightarrow> 0);
          next = (if delta < 0 then saturating_sub current (of_int (- delta))
                  else saturating_add current (of_int delta)) in
      if next = 0 then d\<lparr>dp_active_flows := (dp_active_flows d)(key := None)\<rparr>
      else d\<lparr>dp_active_flows := env_active_insert env (dp_active_flows d) key next\<rparr>)"

definition emit_flow_event :: "ebpf_env \<Rightarrow> NativeFlowKey \<Rightarrow> NativeFlowValue \<Rightarrow> u8 \<Rightarrow> dp \<Rightarrow> dp" where
  "emit_flow_event env key val op d =
     (let event = \<lparr>ev_key = key, ev_value = val, ev_op = op\<rparr> in
      if env_ring_output env (dp_flow_events d) event
      then d\<lparr>dp_flow_events := dp_flow_events d @ [event]\<rparr>
      else native_bump (\<lambda>s. s\<lparr>ds_flow_event_lost := ds_flow_event_lost s + 1\<rparr>) d)"

text \<open>The two insertions of a flow pair, and the removal of an expired pair.\<close>

definition insert_flow_pair ::
    "ebpf_env \<Rightarrow> NativeFlowKey \<Rightarrow> NativeFlowKey \<Rightarrow> NativeFlowValue \<Rightarrow> dp \<Rightarrow> dp" where
  "insert_flow_pair env key other val d =
     d\<lparr>dp_flows := env_flow_insert env (env_flow_insert env (dp_flows d) key val) other val\<rparr>"

definition expire_flow_pair ::
    "ebpf_env \<Rightarrow> NativeFlowKey \<Rightarrow> NativeFlowKey \<Rightarrow> NativeFlowValue \<Rightarrow> dp \<Rightarrow> dp" where
  "expire_flow_pair env key other val d =
     (let d1 = d\<lparr>dp_flows := (dp_flows d)(key := None, other := None)\<rparr>;
          d2 = adjust_active_flows env (fv_listener_id val) (fv_target_id val) (- 1) d1
      in emit_flow_event env other val 2 (emit_flow_event env key val 2 d2))"

section \<open>Parsing\<close>

definition ipv4_l4_supported :: "Ipv4Hdr \<Rightarrow> bool" where
  "ipv4_l4_supported ip =
     (if ih_version ip \<noteq> 4 \<or> ih_ihl ip < 20 \<or> (ih_proto ip \<noteq> Tcp \<and> ih_proto ip \<noteq> Udp) then False
      else if ih_frag_offset ip \<noteq> 0 then False
      else let more_fragments = (ih_frag_flags ip AND 1 \<noteq> 0) in \<not> more_fragments)"

record l4_packet =
  pk_ip :: Ipv4Hdr
  pk_sport :: u16
  pk_dport :: u16
  pk_l4_off :: nat
  pk_csum_off :: nat
  pk_zero_udp_checksum :: bool

text \<open>The common beginning of both programs.  \<open>Inl\<close> is an early return.\<close>

definition parse_l4 :: "ebpf_env \<Rightarrow> skb \<Rightarrow> tc_action option + l4_packet" where
  "parse_l4 env s =
     (case env_load env s 0 14 of
        None \<Rightarrow> Inl None
      | Some eth \<Rightarrow>
        if \<not> env_is_ipv4 env eth then Inl (Some TC_ACT_PIPE)
        else
        (case env_load env s 14 20 of
           None \<Rightarrow> Inl None
         | Some ip_bytes \<Rightarrow>
           let ip = env_ipv4 env ip_bytes in
           if \<not> ipv4_l4_supported ip then Inl (Some TC_ACT_PIPE)
           else
           let l4_off = 14 + unat (ih_ihl ip);
               packet = (\<lambda>ports csum_off zero. \<lparr>pk_ip = ip,
                 pk_sport = u16_from_be_bytes (fst ports), pk_dport = u16_from_be_bytes (snd ports),
                 pk_l4_off = l4_off, pk_csum_off = csum_off, pk_zero_udp_checksum = zero\<rparr>) in
           (case ih_proto ip of
              Tcp \<Rightarrow>
                (case env_load env s l4_off 20 of
                   None \<Rightarrow> Inl None
                 | Some tcp \<Rightarrow> Inr (packet (env_l4_ports env Tcp tcp) (l4_off + 16) False))
            | Udp \<Rightarrow>
                (case env_load env s l4_off 8 of
                   None \<Rightarrow> Inl None
                 | Some udp \<Rightarrow>
                     (case env_load env s (l4_off + 6) 2 of
                        None \<Rightarrow> Inl None
                      | Some c \<Rightarrow> Inr (packet (env_l4_ports env Udp udp) (l4_off + 6)
                          (from_be16 (ne_u16 (c ! 0) (c ! 1)) = 0))))
            | OtherProto _ \<Rightarrow> Inl (Some TC_ACT_PIPE))))"

section \<open>native\_dnat\_ingress\<close>

definition ingress_translate ::
    "ebpf_env \<Rightarrow> u64 \<Rightarrow> skb \<Rightarrow> dp \<Rightarrow> l4_packet \<Rightarrow> Rewrite \<Rightarrow> NativeTargetKey \<Rightarrow> tc_action option \<times> skb \<times> dp" where
  "ingress_translate env now s d p rewrite target_key =
     (case destination env rewrite s d 14 (pk_l4_off p) (pk_csum_off p) of
        (False, s', d') \<Rightarrow> (Some mutation_failed_action, s', d')
      | (True, s', d') \<Rightarrow>
          let d1 = native_bump (\<lambda>st. st\<lparr>ds_listener_hit := ds_listener_hit st + 1\<rparr>) d';
              d2 = native_bump (\<lambda>st. st\<lparr>ds_rewritten := ds_rewritten st + 1\<rparr>) d1
          in case redirect_forward env s' target_key now d2 of (a, s'', d'') \<Rightarrow> (Some a, s'', d''))"

definition ingress_existing ::
    "ebpf_env \<Rightarrow> u64 \<Rightarrow> skb \<Rightarrow> dp \<Rightarrow> l4_packet \<Rightarrow> NativeFlowKey \<Rightarrow> NativeFlowValue \<Rightarrow> tc_action option \<times> skb \<times> dp" where
  "ingress_existing env now s d p key existing =
     (let refreshed = existing\<lparr>fv_last_seen_ns := now\<rparr>;
          d1 = insert_flow_pair env key (reverse_for key existing) refreshed d;
          rewrite = \<lparr>rw_old_address = fv_vip existing, rw_new_address = fv_target existing,
            rw_old_port = pk_dport p, rw_new_port = fv_target_port existing,
            rw_preserve_zero_udp_checksum = pk_zero_udp_checksum p\<rparr>
      in ingress_translate env now s d1 p rewrite
           \<lparr>tk_listener_id = fv_listener_id existing, tk_target_id = fv_target_id existing\<rparr>)"

abbreviation bump_target_miss :: "dp \<Rightarrow> dp" where
  "bump_target_miss \<equiv> native_bump (\<lambda>st. st\<lparr>ds_target_miss := ds_target_miss st + 1\<rparr>)"

definition ingress_new ::
    "ebpf_env \<Rightarrow> u64 \<Rightarrow> skb \<Rightarrow> dp \<Rightarrow> l4_packet \<Rightarrow> NativeFlowKey \<Rightarrow> tc_action option \<times> skb \<times> dp" where
  "ingress_new env now s d p key =
     (let ip = pk_ip p;
          listener_key = \<lparr>lk_vip = u32_from_be_bytes (ih_dst_addr ip), lk_port = to_be16 (pk_dport p),
            lk_proto = proto_u8 (ih_proto ip), lk_pad = 0\<rparr> in
      case dp_listeners d listener_key of
        None \<Rightarrow> (Some TC_ACT_PIPE, s,
          native_bump (\<lambda>st. st\<lparr>ds_listener_miss := ds_listener_miss st + 1\<rparr>) d)
      | Some listener \<Rightarrow>
        if lv_target_count listener = 0 then (Some TC_ACT_PIPE, s, bump_target_miss d)
        else
        let packet_hash = (if lv_select listener = NATIVE_SELECT_HASH then env_hash_recalc env s else 0) in
        (case select_target key listener packet_hash d of
           (target_id, d1) \<Rightarrow>
           if target_id \<ge> MAX_TARGETS_PER_LISTENER then (Some TC_ACT_PIPE, s, bump_target_miss d1)
           else
           let target_key = \<lparr>tk_listener_id = lv_listener_id listener, tk_target_id = target_id\<rparr> in
           (case dp_targets d1 target_key of
              None \<Rightarrow> (Some TC_ACT_PIPE, s, bump_target_miss d1)
            | Some target \<Rightarrow>
              if tv_flags target AND 1 = 0 \<or> tv_weight target = 0
              then (Some TC_ACT_PIPE, s, bump_target_miss d1)
              else
              let old_dst = u32_from_be_bytes (ih_dst_addr ip);
                  old_port = pk_dport p;
                  new_dst = tv_address target;
                  new_port = tv_port target;
                  reverse_key = make_flow_key new_dst (u32_from_be_bytes (ih_src_addr ip)) new_port
                    (pk_sport p) (proto_u8 (ih_proto ip));
                  val = \<lparr>fv_listener_id = lv_listener_id listener, fv_target_id = target_id,
                    fv_vip = old_dst, fv_target = new_dst, fv_vip_port = to_be16 old_port,
                    fv_target_port = new_port, fv_timeout_secs = lv_timeout_secs listener,
                    fv_last_seen_ns = now\<rparr>;
                  d2 = insert_flow_pair env key reverse_key val d1;
                  d3 = adjust_active_flows env (lv_listener_id listener) target_id 1 d2;
                  d4 = emit_flow_event env reverse_key val 1 (emit_flow_event env key val 1 d3);
                  rewrite = \<lparr>rw_old_address = old_dst, rw_new_address = new_dst,
                    rw_old_port = old_port, rw_new_port = new_port,
                    rw_preserve_zero_udp_checksum = pk_zero_udp_checksum p\<rparr>
              in ingress_translate env now s d4 p rewrite target_key)))"

definition try_native_dnat_ingress ::
    "ebpf_env \<Rightarrow> u64 \<Rightarrow> skb \<Rightarrow> dp \<Rightarrow> tc_action option \<times> skb \<times> dp" where
  "try_native_dnat_ingress env now s d =
     (case parse_l4 env s of
        Inl r \<Rightarrow> (r, s, d)
      | Inr p \<Rightarrow>
        let key = flow_key (pk_ip p) (pk_sport p) (pk_dport p) in
        (case dp_flows d key of
           Some existing \<Rightarrow>
             if \<not> flow_expired (fv_last_seen_ns existing) (fv_timeout_secs existing) now
             then ingress_existing env now s d p key existing
             else ingress_new env now s (expire_flow_pair env key (reverse_for key existing) existing d) p key
         | None \<Rightarrow> ingress_new env now s d p key))"

text \<open>The entry points turn \<^verbatim>\<open>Err\<close> into \<open>TC_ACT_PIPE\<close>.\<close>

definition entry_point :: "tc_action option \<times> skb \<times> dp \<Rightarrow> tc_action \<times> skb \<times> dp" where
  "entry_point r = (case r of (Some a, s, d) \<Rightarrow> (a, s, d) | (None, s, d) \<Rightarrow> (TC_ACT_PIPE, s, d))"

definition native_dnat_ingress :: "ebpf_env \<Rightarrow> u64 \<Rightarrow> skb \<Rightarrow> dp \<Rightarrow> tc_action \<times> skb \<times> dp" where
  "native_dnat_ingress env now s d = entry_point (try_native_dnat_ingress env now s d)"

section \<open>native\_dnat\_return\<close>

definition try_native_dnat_return ::
    "ebpf_env \<Rightarrow> u64 \<Rightarrow> skb \<Rightarrow> dp \<Rightarrow> tc_action option \<times> skb \<times> dp" where
  "try_native_dnat_return env now s d =
     (case parse_l4 env s of
        Inl r \<Rightarrow> (r, s, d)
      | Inr p \<Rightarrow>
        let ip = pk_ip p;
            key = make_flow_key (u32_from_be_bytes (ih_src_addr ip)) (u32_from_be_bytes (ih_dst_addr ip))
              (pk_sport p) (pk_dport p) (proto_u8 (ih_proto ip));
            bump_return_miss = native_bump (\<lambda>st. st\<lparr>ds_return_miss := ds_return_miss st + 1\<rparr>) in
        (case dp_flows d key of
           None \<Rightarrow> (Some TC_ACT_PIPE, s, bump_return_miss d)
         | Some flow \<Rightarrow>
           if flow_expired (fv_last_seen_ns flow) (fv_timeout_secs flow) now
           then (Some TC_ACT_PIPE, s,
                 bump_return_miss (expire_flow_pair env key (forward_for key flow) flow d))
           else
           let refreshed = flow\<lparr>fv_last_seen_ns := now\<rparr>;
               d1 = insert_flow_pair env key (forward_for key flow) refreshed d;
               rewrite = \<lparr>rw_old_address = fv_target flow, rw_new_address = fv_vip flow,
                 rw_old_port = pk_sport p, rw_new_port = from_be16 (fv_vip_port flow),
                 rw_preserve_zero_udp_checksum = pk_zero_udp_checksum p\<rparr> in
           (case source env rewrite s d1 14 (pk_l4_off p) (pk_csum_off p) of
              (False, s', d') \<Rightarrow> (Some mutation_failed_action, s', d')
            | (True, s', d') \<Rightarrow>
                let d2 = native_bump (\<lambda>st. st\<lparr>ds_rewritten := ds_rewritten st + 1\<rparr>) d'
                in case return_forward env s' now d2 of (a, s'', d'') \<Rightarrow> (Some a, s'', d''))))"

definition native_dnat_return :: "ebpf_env \<Rightarrow> u64 \<Rightarrow> skb \<Rightarrow> dp \<Rightarrow> tc_action \<times> skb \<times> dp" where
  "native_dnat_return env now s d = entry_point (try_native_dnat_return env now s d)"

section \<open>What the parser accepts\<close>

text \<open>The fields of a packet that the programs read.\<close>

abbreviation view_src :: "l4_packet \<Rightarrow> u32" where
  "view_src p \<equiv> u32_from_be_bytes (ih_src_addr (pk_ip p))"

abbreviation view_dst :: "l4_packet \<Rightarrow> u32" where
  "view_dst p \<equiv> u32_from_be_bytes (ih_dst_addr (pk_ip p))"

abbreviation view_proto :: "l4_packet \<Rightarrow> u8" where
  "view_proto p \<equiv> proto_u8 (ih_proto (pk_ip p))"

text \<open>The part of the parser's condition and result that is fixed by a few bytes of the packet.\<close>

definition l4_accepts :: "bytes \<Rightarrow> bool" where
  "l4_accepts d \<longleftrightarrow>
     (let ip = ipv4_view (take 20 (drop 14 d)) in
      34 \<le> length d \<and> be16 (d ! 12) (d ! 13) = 0x0800 \<and> ipv4_l4_supported ip \<and>
      14 + unat (ih_ihl ip) + (if ih_proto ip = Tcp then 20 else 8) \<le> length d)"

definition l4_off_of :: "bytes \<Rightarrow> nat" where
  "l4_off_of d = 14 + unat (ih_ihl (ipv4_view (take 20 (drop 14 d))))"

definition csum_off_of :: "bytes \<Rightarrow> nat" where
  "csum_off_of d = l4_off_of d + (if ih_proto (ipv4_view (take 20 (drop 14 d))) = Tcp then 16 else 6)"

lemma supported_proto: "ipv4_l4_supported ip \<Longrightarrow> ih_proto ip = Tcp \<or> ih_proto ip = Udp"
  by (auto simp: ipv4_l4_supported_def split: if_splits)

lemma supported_ihl: "ipv4_l4_supported ip \<Longrightarrow> 20 \<le> unat (ih_ihl ip)"
  by (auto simp: ipv4_l4_supported_def word_less_nat_alt not_less split: if_splits)

lemma parse_l4_inv:
  assumes "parse_l4 env s = Inr p"
  obtains eth b l4 n where "env_load env s 0 14 = Some eth" "env_is_ipv4 env eth"
    "env_load env s 14 20 = Some b" "ipv4_l4_supported (env_ipv4 env b)"
    "n = (if ih_proto (env_ipv4 env b) = Tcp then 20 else 8)"
    "env_load env s (14 + unat (ih_ihl (env_ipv4 env b))) n = Some l4"
    "pk_ip p = env_ipv4 env b" "pk_l4_off p = 14 + unat (ih_ihl (env_ipv4 env b))"
    "pk_csum_off p = pk_l4_off p + (if ih_proto (env_ipv4 env b) = Tcp then 16 else 6)"
    "pk_sport p = u16_from_be_bytes (fst (env_l4_ports env (ih_proto (env_ipv4 env b)) l4))"
    "pk_dport p = u16_from_be_bytes (snd (env_l4_ports env (ih_proto (env_ipv4 env b)) l4))"
proof -
  note def = assms[unfolded parse_l4_def Let_def]
  obtain eth where 1: "env_load env s 0 14 = Some eth" using def by (cases "env_load env s 0 14") simp_all
  have 2: "env_is_ipv4 env eth" by (rule ccontr) (use def 1 in simp)
  obtain b where 3: "env_load env s 14 20 = Some b"
    using def 1 2 by (cases "env_load env s 14 20") simp_all
  let ?ip = "env_ipv4 env b" let ?o = "14 + unat (ih_ihl ?ip)"
  have 4: "ipv4_l4_supported ?ip" by (rule ccontr) (use def 1 2 3 in simp)
  consider "ih_proto ?ip = Tcp" | "ih_proto ?ip = Udp" using supported_proto[OF 4] by blast
  then show ?thesis
  proof cases
    case tcp: 1
    then obtain l4 where l4: "env_load env s ?o 20 = Some l4"
      using def 1 2 3 4 by (cases "env_load env s ?o 20") simp_all
    show ?thesis by (rule that[OF 1 2 3 4 refl]) (use def 1 2 3 4 tcp l4 in auto)
  next
    case udp: 2
    then obtain l4 where l4: "env_load env s ?o 8 = Some l4"
      using def 1 2 3 4 by (cases "env_load env s ?o 8") simp_all
    obtain c where c: "env_load env s (?o + 6) 2 = Some c"
      using def 1 2 3 4 udp l4 by (cases "env_load env s (?o + 6) 2") simp_all
    show ?thesis by (rule that[OF 1 2 3 4 refl]) (use def 1 2 3 4 udp l4 c in auto)
  qed
qed

lemma parse_l4_OkD:
  assumes "load_reads env" "header_layout env" "parse_l4 env s = Inr p"
  shows "l4_accepts (sk_data s)" "pk_ip p = ipv4_view (ip_header s)"
    "pk_l4_off p = l4_off_of (sk_data s)" "pk_csum_off p = csum_off_of (sk_data s)"
    "pk_sport p = u16_from_be_bytes (take 2 (drop (l4_off_of (sk_data s)) (sk_data s)))"
    "pk_dport p = u16_from_be_bytes (take 2 (drop (l4_off_of (sk_data s) + 2) (sk_data s)))"
proof -
  obtain eth b l4 n where i: "env_load env s 0 14 = Some eth" "env_is_ipv4 env eth"
    "env_load env s 14 20 = Some b" "ipv4_l4_supported (env_ipv4 env b)"
    "n = (if ih_proto (env_ipv4 env b) = Tcp then 20 else 8)"
    "env_load env s (14 + unat (ih_ihl (env_ipv4 env b))) n = Some l4"
    "pk_ip p = env_ipv4 env b" "pk_l4_off p = 14 + unat (ih_ihl (env_ipv4 env b))"
    "pk_csum_off p = pk_l4_off p + (if ih_proto (env_ipv4 env b) = Tcp then 16 else 6)"
    "pk_sport p = u16_from_be_bytes (fst (env_l4_ports env (ih_proto (env_ipv4 env b)) l4))"
    "pk_dport p = u16_from_be_bytes (snd (env_l4_ports env (ih_proto (env_ipv4 env b)) l4))"
    by (rule parse_l4_inv[OF assms(3)])
  have eth: "eth = take 14 (sk_data s)" "14 \<le> length (sk_data s)"
    using i(1) load_readsD[OF assms(1)] by (auto split: if_splits)
  have b: "b = ip_header s" "34 \<le> length (sk_data s)" using loaded_header[OF assms(1) i(3)] by auto
  have v: "env_ipv4 env b = ipv4_view (ip_header s)" using assms(2) b by (simp add: header_layout_def)
  have ports: "env_l4_ports env q l = (take 2 l, take 2 (drop 2 l))" for q l
    using assms(2) by (simp add: header_layout_def)
  have l4: "l4_off_of (sk_data s) + n \<le> length (sk_data s)"
    "l4 = take n (drop (l4_off_of (sk_data s)) (sk_data s))"
    using i(6) load_readsD[OF assms(1)] unfolding v l4_off_of_def by (auto split: if_splits)
  have n: "8 \<le> n" using i(5) by simp
  have "be16 (sk_data s ! 12) (sk_data s ! 13) = 0x0800"
    using i(2) eth assms(2) by (simp add: header_layout_def)
  then show "l4_accepts (sk_data s)"
    using b i(4,5) l4(1) unfolding v by (simp add: l4_accepts_def l4_off_of_def Let_def)
  show "pk_ip p = ipv4_view (ip_header s)" "pk_l4_off p = l4_off_of (sk_data s)"
    "pk_csum_off p = csum_off_of (sk_data s)"
    using i(7-9) unfolding v by (simp_all add: l4_off_of_def csum_off_of_def)
  show "pk_sport p = u16_from_be_bytes (take 2 (drop (l4_off_of (sk_data s)) (sk_data s)))"
    "pk_dport p = u16_from_be_bytes (take 2 (drop (l4_off_of (sk_data s) + 2) (sk_data s)))"
    using n l4(1) unfolding i(10,11) l4(2) ports
    by (simp_all add: min_def drop_take add.commute)
qed

lemma parse_l4_OkI:
  assumes "load_reads env" "header_layout env" "l4_accepts (sk_data s)"
  shows "\<exists>p. parse_l4 env s = Inr p"
proof -
  let ?ip = "ipv4_view (ip_header s)" let ?o = "14 + unat (ih_ihl ?ip)"
  have a: "34 \<le> length (sk_data s)" "be16 (sk_data s ! 12) (sk_data s ! 13) = 0x0800"
    "ipv4_l4_supported ?ip" "?o + (if ih_proto ?ip = Tcp then 20 else 8) \<le> length (sk_data s)"
    using assms(3) by (simp_all add: l4_accepts_def Let_def)
  then have i: "env_is_ipv4 env (take 14 (sk_data s))" "env_ipv4 env (ip_header s) = ?ip"
    using assms(2) by (simp_all add: header_layout_def)
  from supported_proto[OF a(3)] show ?thesis
    unfolding parse_l4_def load_readsD[OF assms(1)] Let_def
    using a i by (auto simp: min_def)
qed

lemma ipv4_view_cong:
  assumes "b' ! 0 = b ! 0" "b' ! 6 = b ! 6" "b' ! 7 = b ! 7" "b' ! 9 = b ! 9"
  shows "ih_ihl (ipv4_view b') = ih_ihl (ipv4_view b)" "ih_proto (ipv4_view b') = ih_proto (ipv4_view b)"
    "ipv4_l4_supported (ipv4_view b') = ipv4_l4_supported (ipv4_view b)"
  by (simp_all add: ipv4_view_def ipv4_l4_supported_def assms)

lemma ipv4_view_addrs:
  "ih_src_addr (ipv4_view (ip_header s)) = take 4 (drop 26 (sk_data s))"
  "ih_dst_addr (ipv4_view (ip_header s)) = take 4 (drop 30 (sk_data s))"
  by (simp_all add: ipv4_view_def drop_take)

text \<open>Rewriting and redirecting never touch the bytes that decide how a packet is parsed.\<close>

lemma parse_l4_transfer:
  assumes "load_reads env" "header_layout env" "parse_l4 env s = Inr p"
    "length (sk_data s') = length (sk_data s)" "\<And>i. i \<in> {12, 13, 14, 20, 21, 23} \<Longrightarrow> sk_data s' ! i = sk_data s ! i"
  obtains p' where "parse_l4 env s' = Inr p'" "pk_l4_off p' = pk_l4_off p"
    "pk_csum_off p' = pk_csum_off p" "ih_proto (pk_ip p') = ih_proto (pk_ip p)"
    "view_src p' = u32_from_be_bytes (take 4 (drop 26 (sk_data s')))"
    "view_dst p' = u32_from_be_bytes (take 4 (drop 30 (sk_data s')))"
    "pk_sport p' = u16_from_be_bytes (take 2 (drop (pk_l4_off p) (sk_data s')))"
    "pk_dport p' = u16_from_be_bytes (take 2 (drop (pk_l4_off p + 2) (sk_data s')))"
proof -
  note d = parse_l4_OkD[OF assms(1-3)]
  let ?h = "ip_header s" and ?h' = "ip_header s'"
  have l: "34 \<le> length (sk_data s)" using d(1) by (simp add: l4_accepts_def Let_def)
  have b: "?h' ! i = ?h ! i" if "i \<in> {0, 6, 7, 9}" for i
    using assms(5)[of "14 + i"] that l assms(4) by auto
  note v = ipv4_view_cong[of ?h' ?h, OF b b b b, simplified]
  have "l4_accepts (sk_data s')"
    using d(1) v assms(4) assms(5)[of 12] assms(5)[of 13] by (simp add: l4_accepts_def Let_def)
  then obtain p' where p': "parse_l4 env s' = Inr p'" using parse_l4_OkI[OF assms(1,2)] by blast
  note d' = parse_l4_OkD[OF assms(1,2) p']
  have o: "l4_off_of (sk_data s') = l4_off_of (sk_data s)" "csum_off_of (sk_data s') = csum_off_of (sk_data s)"
    using v by (simp_all add: l4_off_of_def csum_off_of_def)
  show ?thesis
    by (rule that[OF p'])
      (simp_all add: d(2-6) d'(2-6) o v(2) ipv4_view_addrs)
qed

section \<open>The flow table\<close>

text \<open>Every entry is stored under the client-side or the backend-side key of its flow.\<close>

definition flows_paired :: "flow_map \<Rightarrow> bool" where
  "flows_paired m \<longleftrightarrow> (\<forall>k v. m k = Some v \<longrightarrow> forward_key k v \<or> reverse_key k v)"

lemma flows_pairedD: "flows_paired m \<Longrightarrow> m k = Some v \<Longrightarrow> forward_key k v \<or> reverse_key k v"
  by (simp add: flows_paired_def)

lemma flows_paired_insert:
  "lru_insert ins \<Longrightarrow> flows_paired m \<Longrightarrow> forward_key k v \<or> reverse_key k v \<Longrightarrow> flows_paired (ins m k v)"
  unfolding flows_paired_def lru_insert_def by (metis option.distinct(1) option.inject)

lemma flows_paired_insert_pair:
  assumes "lru_insert (env_flow_insert env)" "flows_paired m" "forward_key k v \<or> reverse_key k v"
    "forward_key k' v \<or> reverse_key k' v"
  shows "flows_paired (env_flow_insert env (env_flow_insert env m k v) k' v)"
  using flows_paired_insert[OF assms(1) flows_paired_insert[OF assms(1-3)] assms(4)] .

lemma flows_paired_remove: "flows_paired m \<Longrightarrow> flows_paired (m(k := None))"
  by (simp add: flows_paired_def)

lemma forward_key_last_seen [simp]: "forward_key k (v\<lparr>fv_last_seen_ns := n\<rparr>) = forward_key k v"
  by (simp add: forward_key_def)

lemma reverse_key_last_seen [simp]: "reverse_key k (v\<lparr>fv_last_seen_ns := n\<rparr>) = reverse_key k v"
  by (simp add: reverse_key_def)

lemma native_bump_sel [simp]:
  "dp_flows (native_bump f d) = dp_flows d" "dp_targets (native_bump f d) = dp_targets d"
  "dp_active_flows (native_bump f d) = dp_active_flows d"
  "dp_target_routes (native_bump f d) = dp_target_routes d"
  "dp_native_stats (native_bump f d) = f (dp_native_stats d)"
  by (simp_all add: native_bump_def)

lemma emit_flow_event_sel [simp]:
  "dp_flows (emit_flow_event env k v op d) = dp_flows d"
  "dp_active_flows (emit_flow_event env k v op d) = dp_active_flows d"
  "dp_target_routes (emit_flow_event env k v op d) = dp_target_routes d"
  "dp_targets (emit_flow_event env k v op d) = dp_targets d"
  by (simp_all add: emit_flow_event_def Let_def)

lemma adjust_active_flows_sel [simp]:
  "dp_flows (adjust_active_flows env l t n d) = dp_flows d"
  "dp_target_routes (adjust_active_flows env l t n d) = dp_target_routes d"
  "dp_targets (adjust_active_flows env l t n d) = dp_targets d"
  by (simp_all add: adjust_active_flows_def Let_def)

lemma insert_flow_pair_sel [simp]:
  "dp_flows (insert_flow_pair env k k' v d) = env_flow_insert env (env_flow_insert env (dp_flows d) k v) k' v"
  "dp_target_routes (insert_flow_pair env k k' v d) = dp_target_routes d"
  by (simp_all add: insert_flow_pair_def)

lemma expire_flow_pair_sel [simp]:
  "dp_flows (expire_flow_pair env k k' v d) = (dp_flows d)(k := None, k' := None)"
  "dp_target_routes (expire_flow_pair env k k' v d) = dp_target_routes d"
  "dp_targets (expire_flow_pair env k k' v d) = dp_targets d"
  by (simp_all add: expire_flow_pair_def Let_def)

section \<open>How the programs end\<close>

lemma ingress_translate_cases:
  assumes "ingress_translate env now s d p rw tk = (r, s', d')"
  obtains (failed) "r = Some TC_ACT_SHOT"
      "rewrite_write env rw s 30 24 (pk_l4_off p + 2) (pk_csum_off p) = (False, s')" "dp_flows d' = dp_flows d"
  | (sent) a s1 f where "r = Some a"
      "rewrite_write env rw s 30 24 (pk_l4_off p + 2) (pk_csum_off p) = (True, s1)"
      "redirect_forward env s1 tk now (native_bump f d) = (a, s', d')"
proof -
  obtain ok s1 d1 where rw: "destination env rw s d 14 (pk_l4_off p) (pk_csum_off p) = (ok, s1, d1)"
    by (metis prod_cases3)
  note w = apply_rewrite_cases[OF rw[unfolded destination_def]]
  show ?thesis
  proof (cases ok)
    case True
    then have "r = Some (fst (redirect_forward env s1 tk now
        (native_bump (\<lambda>st. (st\<lparr>ds_listener_hit := ds_listener_hit st + 1\<rparr>)
           \<lparr>ds_rewritten := ds_rewritten st + 1\<rparr>) d))) \<and>
      redirect_forward env s1 tk now
        (native_bump (\<lambda>st. (st\<lparr>ds_listener_hit := ds_listener_hit st + 1\<rparr>)
           \<lparr>ds_rewritten := ds_rewritten st + 1\<rparr>) d) = (the r, s', d')"
      using assms rw w(2) unfolding ingress_translate_def
      by (auto simp: native_bump_def Let_def split: prod.splits)
    then show ?thesis using sent[of "the r" s1] w(1) True by force
  next
    case False
    then show ?thesis
      using assms rw w failed unfolding ingress_translate_def
      by (auto simp: mutation_failed_action_def)
  qed
qed

text \<open>A translated packet comes with a flow value \<open>v\<close>: that of the existing entry, or that of the
  target just selected.  The pair is in the table when the packet is rewritten.\<close>

definition flow_rewrite :: "l4_packet \<Rightarrow> NativeFlowValue \<Rightarrow> Rewrite" where
  "flow_rewrite p v = \<lparr>rw_old_address = fv_vip v, rw_new_address = fv_target v, rw_old_port = pk_dport p,
     rw_new_port = fv_target_port v, rw_preserve_zero_udp_checksum = pk_zero_udp_checksum p\<rparr>"

abbreviation packet_key :: "l4_packet \<Rightarrow> NativeFlowKey" where
  "packet_key p \<equiv> flow_key (pk_ip p) (pk_sport p) (pk_dport p)"

definition new_flow :: "dp \<Rightarrow> l4_packet \<Rightarrow> u64 \<Rightarrow> NativeFlowValue \<Rightarrow> bool" where
  "new_flow d p now v \<longleftrightarrow> forward_key (packet_key p) v \<and> fv_last_seen_ns v = now \<and>
     (\<exists>t. dp_targets d \<lparr>tk_listener_id = fv_listener_id v, tk_target_id = fv_target_id v\<rparr> = Some t \<and>
        tv_flags t AND 1 \<noteq> 0 \<and> tv_weight t \<noteq> 0 \<and> fv_target v = tv_address t \<and> fv_target_port v = tv_port t)"

lemma ingress_new_cases:
  assumes "ingress_new env now s d p (packet_key p) = (r, s', d')"
  obtains (miss) "r = Some TC_ACT_PIPE" "s' = s" "dp_flows d' = dp_flows d"
  | (select) v d1 where "new_flow d p now v"
      "dp_flows d1 = env_flow_insert env (env_flow_insert env (dp_flows d) (packet_key p) v)
         (reverse_for (packet_key p) v) v"
      "dp_target_routes d1 = dp_target_routes d"
      "ingress_translate env now s d1 p (flow_rewrite p v)
         \<lparr>tk_listener_id = fv_listener_id v, tk_target_id = fv_target_id v\<rparr> = (r, s', d')"
proof (cases "dp_listeners d \<lparr>lk_vip = view_dst p, lk_port = to_be16 (pk_dport p),
    lk_proto = view_proto p, lk_pad = 0\<rparr>")
  case None
  then show ?thesis using assms by (intro miss) (auto simp: ingress_new_def)
next
  case (Some l)
  show ?thesis
  proof (cases "lv_target_count l = 0")
    case True
    then show ?thesis using assms Some by (intro miss) (auto simp: ingress_new_def)
  next
    case False
    let ?h = "if lv_select l = NATIVE_SELECT_HASH then env_hash_recalc env s else 0"
    obtain t d1 where t: "select_target (packet_key p) l ?h d = (t, d1)" by fastforce
    then have fr: "selection_frame d d1" using select_target_outcome by blast
    note fl = selection_frame_fields[OF fr]
    note def = assms[unfolded ingress_new_def Let_def, unfolded Some option.case t prod.case]
    let ?tk = "\<lparr>tk_listener_id = lv_listener_id l, tk_target_id = t\<rparr>"
    show ?thesis
    proof (cases "t \<ge> 64 \<or> dp_targets d1 ?tk = None \<or>
        (\<exists>tv. dp_targets d1 ?tk = Some tv \<and> (tv_flags tv AND 1 = 0 \<or> tv_weight tv = 0))")
      case True
      then show ?thesis using def False fl by (intro miss) (auto split: if_splits)
    next
      case ok: False
      then obtain tv where tv: "dp_targets d1 ?tk = Some tv" "tv_flags tv AND 1 \<noteq> 0" "tv_weight tv \<noteq> 0"
        by auto
      let ?v = "\<lparr>fv_listener_id = lv_listener_id l, fv_target_id = t, fv_vip = view_dst p,
        fv_target = tv_address tv, fv_vip_port = to_be16 (pk_dport p), fv_target_port = tv_port tv,
        fv_timeout_secs = lv_timeout_secs l, fv_last_seen_ns = now\<rparr>"
      have rev: "make_flow_key (tv_address tv) (view_src p) (tv_port tv) (pk_sport p) (view_proto p)
          = reverse_for (packet_key p) ?v"
        by (simp add: make_flow_key_def reverse_for_def flow_key_def)
      show ?thesis
      proof (rule select[of ?v "emit_flow_event env (reverse_for (packet_key p) ?v) ?v 1
          (emit_flow_event env (packet_key p) ?v 1 (adjust_active_flows env (lv_listener_id l) t 1
            (insert_flow_pair env (packet_key p) (reverse_for (packet_key p) ?v) ?v d1)))"])
        show "new_flow d p now ?v"
          using tv fl by (simp add: new_flow_def forward_key_def flow_key_def make_flow_key_def)
      qed (use def False ok tv fl in \<open>simp_all add: rev flow_rewrite_def\<close>)
    qed
  qed
qed

definition live_flow :: "dp \<Rightarrow> l4_packet \<Rightarrow> u64 \<Rightarrow> NativeFlowValue \<Rightarrow> bool" where
  "live_flow d p now v \<longleftrightarrow> (\<exists>e. dp_flows d (packet_key p) = Some e \<and> v = e\<lparr>fv_last_seen_ns := now\<rparr> \<and>
     \<not> flow_expired (fv_last_seen_ns e) (fv_timeout_secs e) now)"

lemma new_flow_expire [simp]: "new_flow (expire_flow_pair env k k' e d) p now v = new_flow d p now v"
  by (simp add: new_flow_def)

lemma ingress_cases:
  assumes "try_native_dnat_ingress env now s d = (r, s', d')"
  obtains (passed) "r = None \<or> r = Some TC_ACT_PIPE" "s' = s" "dp_flows d' \<subseteq>\<^sub>m dp_flows d"
  | (translated) p v d1 m where "parse_l4 env s = Inr p" "live_flow d p now v \<or> new_flow d p now v"
      "m \<subseteq>\<^sub>m dp_flows d"
      "dp_flows d1 = env_flow_insert env (env_flow_insert env m (packet_key p) v) (reverse_for (packet_key p) v) v"
      "dp_target_routes d1 = dp_target_routes d"
      "ingress_translate env now s d1 p (flow_rewrite p v)
         \<lparr>tk_listener_id = fv_listener_id v, tk_target_id = fv_target_id v\<rparr> = (r, s', d')"
proof (cases "parse_l4 env s")
  case (Inl e)
  have "r = e" "s' = s" "d' = d" using assms Inl by (auto simp: try_native_dnat_ingress_def)
  moreover have "e = None \<or> e = Some TC_ACT_PIPE"
    using Inl by (auto simp: parse_l4_def Let_def split: option.splits if_splits IpProto.splits)
  ultimately show ?thesis by (intro passed) auto
next
  case (Inr p)
  note def = assms[unfolded try_native_dnat_ingress_def Inr Let_def sum.case]
  have new: ?thesis if n: "ingress_new env now s d0 p (packet_key p) = (r, s', d')"
    and d0: "dp_flows d0 \<subseteq>\<^sub>m dp_flows d" "dp_target_routes d0 = dp_target_routes d"
      "\<And>v. new_flow d0 p now v = new_flow d p now v" for d0
    using n
  proof (cases rule: ingress_new_cases)
    case miss then show ?thesis using d0 by (intro passed) auto
  next
    case (select v d1)
    then show ?thesis using d0 by (intro translated[OF Inr, of v "dp_flows d0" d1]) auto
  qed
  show ?thesis
  proof (cases "dp_flows d (packet_key p)")
    case None
    then show ?thesis using new[of d] def by simp
  next
    case (Some e)
    show ?thesis
    proof (cases "flow_expired (fv_last_seen_ns e) (fv_timeout_secs e) now")
      case True
      then show ?thesis
        using new[of "expire_flow_pair env (packet_key p) (reverse_for (packet_key p) e) e d"] def Some
        by (auto simp: map_le_def)
    next
      case False
      let ?v = "e\<lparr>fv_last_seen_ns := now\<rparr>"
      have t: "ingress_translate env now s
          (insert_flow_pair env (packet_key p) (reverse_for (packet_key p) e) ?v d) p (flow_rewrite p ?v)
          \<lparr>tk_listener_id = fv_listener_id ?v, tk_target_id = fv_target_id ?v\<rparr> = (r, s', d')"
        using def Some False by (simp add: ingress_existing_def Let_def flow_rewrite_def)
      have "live_flow d p now ?v" using Some False by (auto simp: live_flow_def)
      then show ?thesis by (intro translated[OF Inr _ _ _ _ t]) auto
    qed
  qed
qed

lemma return_cases:
  assumes "try_native_dnat_return env now s d = (r, s', d')"
  obtains (passed) "r = None \<or> r = Some TC_ACT_PIPE" "s' = s" "dp_flows d' \<subseteq>\<^sub>m dp_flows d"
  | (translated) p v e s1 d1 ok where "parse_l4 env s = Inr p"
      "dp_flows d (packet_key p) = Some e" "\<not> flow_expired (fv_last_seen_ns e) (fv_timeout_secs e) now"
      "v = e\<lparr>fv_last_seen_ns := now\<rparr>"
      "dp_flows d1 = env_flow_insert env (env_flow_insert env (dp_flows d) (packet_key p) v)
         (forward_for (packet_key p) v) v"
      "dp_target_routes d1 = dp_target_routes d"
      "rewrite_write env \<lparr>rw_old_address = fv_target v, rw_new_address = fv_vip v,
         rw_old_port = pk_sport p, rw_new_port = from_be16 (fv_vip_port v),
         rw_preserve_zero_udp_checksum = pk_zero_udp_checksum p\<rparr> s 26 24 (pk_l4_off p) (pk_csum_off p) = (ok, s1)"
      "if ok then \<exists>a. r = Some a \<and> return_forward env s1 now d1 = (a, s', d')
       else r = Some TC_ACT_SHOT \<and> s' = s1 \<and> dp_flows d' = dp_flows d1"
proof (cases "parse_l4 env s")
  case (Inl e)
  have "r = e" "s' = s" "d' = d" using assms Inl by (auto simp: try_native_dnat_return_def)
  moreover have "e = None \<or> e = Some TC_ACT_PIPE"
    using Inl by (auto simp: parse_l4_def Let_def split: option.splits if_splits IpProto.splits)
  ultimately show ?thesis by (intro passed) auto
next
  case (Inr p)
  note def = assms[unfolded try_native_dnat_return_def Inr Let_def sum.case, folded flow_key_def]
  show ?thesis
  proof (cases "dp_flows d (packet_key p)")
    case None
    then show ?thesis using def by (intro passed) auto
  next
    case (Some e)
    show ?thesis
    proof (cases "flow_expired (fv_last_seen_ns e) (fv_timeout_secs e) now")
      case True
      then show ?thesis using def Some by (intro passed) (auto simp: map_le_def split: if_splits)
    next
      case False
      let ?v = "e\<lparr>fv_last_seen_ns := now\<rparr>"
      let ?rw = "\<lparr>rw_old_address = fv_target ?v, rw_new_address = fv_vip ?v,
         rw_old_port = pk_sport p, rw_new_port = from_be16 (fv_vip_port ?v),
         rw_preserve_zero_udp_checksum = pk_zero_udp_checksum p\<rparr>"
      let ?d1 = "insert_flow_pair env (packet_key p) (forward_for (packet_key p) ?v) ?v d"
      obtain ok s1 d2 where rw: "source env ?rw s ?d1 14 (pk_l4_off p) (pk_csum_off p) = (ok, s1, d2)"
        by (metis prod_cases3)
      note w = apply_rewrite_cases[OF rw[unfolded source_def]]
      let ?d3 = "if ok then native_bump (\<lambda>st. st\<lparr>ds_rewritten := ds_rewritten st + 1\<rparr>) ?d1 else d2"
      show ?thesis
        by (rule translated[OF Inr Some False refl, of ?d3 ok s1])
          (use def Some False rw w in \<open>auto simp: mutation_failed_action_def split: prod.splits if_splits\<close>)
    qed
  qed
qed

lemma flows_paired_le: "m' \<subseteq>\<^sub>m m \<Longrightarrow> flows_paired m \<Longrightarrow> flows_paired m'"
  unfolding flows_paired_def map_le_def by (metis domI)

lemma packet_key_pad [simp]: "fk_pad (flow_key ip sp dp) = [0, 0, 0]"
  by (simp add: flow_key_def make_flow_key_def)

lemma ingress_flows:
  assumes "try_native_dnat_ingress env now s d = (r, s', d')"
  obtains "dp_flows d' \<subseteq>\<^sub>m dp_flows d"
  | p v m where "parse_l4 env s = Inr p" "live_flow d p now v \<or> new_flow d p now v" "m \<subseteq>\<^sub>m dp_flows d"
     "dp_flows d' = env_flow_insert env (env_flow_insert env m (packet_key p) v) (reverse_for (packet_key p) v) v"
  using assms
proof (cases rule: ingress_cases)
  case (translated p v d1 m)
  have "dp_flows d' = dp_flows d1"
    using translated(6)
  proof (cases rule: ingress_translate_cases)
    case (sent a s1 f)
    show ?thesis using stage_frame_fields(1)[OF fwd.frames[OF sent(3)]] by simp
  qed
  then show ?thesis using that(2)[OF translated(1-3)] translated(4) by simp
qed (use that in blast)

lemma ingress_keeps_paired:
  assumes "lru_insert (env_flow_insert env)" "flows_paired (dp_flows d)"
    "try_native_dnat_ingress env now s d = (r, s', d')"
  shows "flows_paired (dp_flows d')"
  using assms(3)
proof (cases rule: ingress_flows)
  case 1 then show ?thesis using assms(2) by (rule flows_paired_le)
next
  case (2 p v m)
  have "forward_key (packet_key p) v \<or> reverse_key (packet_key p) v"
    using 2(2) flows_pairedD[OF assms(2), of "packet_key p"] by (auto simp: live_flow_def new_flow_def)
  then show ?thesis
    unfolding 2(4) using flows_paired_le[OF 2(3) assms(2)] assms(1) by (intro flows_paired_insert_pair) auto
qed

lemma return_keeps_paired:
  assumes "lru_insert (env_flow_insert env)" "flows_paired (dp_flows d)"
    "try_native_dnat_return env now s d = (r, s', d')"
  shows "flows_paired (dp_flows d')"
  using assms(3)
proof (cases rule: return_cases)
  case passed then show ?thesis using assms(2) flows_paired_le by blast
next
  case (translated p v e s1 d1 ok)
  have "dp_flows d' = dp_flows d1"
    using translated(8) stage_frame_fields(1)[OF ret.frames, of env s1 now d1 _ s' d'] by (auto split: if_splits)
  moreover have "forward_key (packet_key p) v \<or> reverse_key (packet_key p) v"
    using translated(2,4) flows_pairedD[OF assms(2), of "packet_key p"] by auto
  moreover have "flows_paired (dp_flows d1)"
    unfolding translated(5) using assms(1,2) calculation(2) by (intro flows_paired_insert_pair) auto
  ultimately show ?thesis by simp
qed

section \<open>What a translated packet looks like\<close>

lemma parse_l4_offsets:
  assumes "load_reads env" "header_layout env" "parse_l4 env s = Inr p"
  shows "34 \<le> pk_l4_off p" "pk_csum_off p = pk_l4_off p + 16 \<or> pk_csum_off p = pk_l4_off p + 6"
  using parse_l4_OkD[OF assms] supported_ihl
  by (auto simp: l4_accepts_def l4_off_of_def csum_off_of_def Let_def)

lemma parse_l4_view:
  assumes "load_reads env" "header_layout env" "parse_l4 env s = Inr p"
  shows "view_src p = u32_from_be_bytes (take 4 (drop 26 (sk_data s)))"
    "view_dst p = u32_from_be_bytes (take 4 (drop 30 (sk_data s)))"
    "pk_sport p = u16_from_be_bytes (take 2 (drop (pk_l4_off p) (sk_data s)))"
    "pk_dport p = u16_from_be_bytes (take 2 (drop (pk_l4_off p + 2) (sk_data s)))"
  using parse_l4_OkD[OF assms] by (simp_all add: ipv4_view_addrs)

text \<open>A complete rewrite of one address and one port, followed by a redirect stage, gives a packet
  that parses again, with these two fields replaced and the others kept.\<close>

lemma rewritten_packet:
  assumes "load_reads env" "header_layout env" "store_writes env" "csum_local env"
    "parse_l4 env s = Inr p" "changes_only stage_region s1 s'"
    "rewrite_write env rw s ao 24 po (pk_csum_off p) = (True, s1)"
    "(ao, po) \<in> {(30, pk_l4_off p + 2), (26, pk_l4_off p)}"
  obtains p' where "parse_l4 env s' = Inr p'" "ih_proto (pk_ip p') = ih_proto (pk_ip p)"
    "view_src p' = (if ao = 26 then rw_new_address rw else view_src p)"
    "view_dst p' = (if ao = 30 then rw_new_address rw else view_dst p)"
    "pk_sport p' = (if ao = 26 then rw_new_port rw else pk_sport p)"
    "pk_dport p' = (if ao = 30 then rw_new_port rw else pk_dport p)"
proof -
  note o = parse_l4_offsets[OF assms(1,2,5)]
  let ?R = "rewrite_region ao 24 po (pk_csum_off p)"
  have c: "changes_only ?R s s1" using rewrite_write_changes[OF assms(3,4)] assms(7) by (metis snd_conv)
  have R: "?R \<subseteq> {24, 25} \<union> {ao..<ao + 4} \<union> {po..<po + 2} \<union> {pk_csum_off p..<pk_csum_off p + 2}"
    by (auto simp: rewrite_region_def)
  note f = rewrite_write_fields[OF assms(3,4,7)]
  have keep: "take n (drop x (sk_data s')) = take n (drop x (sk_data s1))" if "26 \<le> x" for n x
    using assms(6) that by (intro changes_only_slice) auto
  have keep': "take n (drop x (sk_data s1)) = take n (drop x (sk_data s))"
    if "{x..<x + n} \<inter> ?R = {}" for n x
    using c that by (rule changes_only_slice)
  have len: "length (sk_data s') = length (sk_data s)"
    using changes_only_length[OF c] changes_only_length[OF assms(6)] by simp
  have same: "sk_data s' ! i = sk_data s ! i" if "i \<in> {12, 13, 14, 20, 21, 23}" for i
  proof -
    have "i \<notin> ?R" "i \<notin> stage_region" using that R o assms(8) by auto
    then show ?thesis using changes_only_nth[OF c] changes_only_nth[OF assms(6)] by simp
  qed
  obtain p' where p': "parse_l4 env s' = Inr p'" "ih_proto (pk_ip p') = ih_proto (pk_ip p)"
    "view_src p' = u32_from_be_bytes (take 4 (drop 26 (sk_data s')))"
    "view_dst p' = u32_from_be_bytes (take 4 (drop 30 (sk_data s')))"
    "pk_sport p' = u16_from_be_bytes (take 2 (drop (pk_l4_off p) (sk_data s')))"
    "pk_dport p' = u16_from_be_bytes (take 2 (drop (pk_l4_off p + 2) (sk_data s')))"
    by (rule parse_l4_transfer[OF assms(1,2,5) len same])
  note v = parse_l4_view[OF assms(1,2,5)]
  have d: "{ao..<ao + 4} \<inter> ({24..<24 + 2} \<union> {po..<po + 2} \<union> {pk_csum_off p..<pk_csum_off p + 2}) = {}"
    "{po..<po + 2} \<inter> {pk_csum_off p..<pk_csum_off p + 2} = {}"
    using assms(8) o by auto
  show ?thesis
  proof (rule that[OF p'(1,2)])
    show "view_src p' = (if ao = 26 then rw_new_address rw else view_src p)"
      "view_dst p' = (if ao = 30 then rw_new_address rw else view_dst p)"
      "pk_sport p' = (if ao = 26 then rw_new_port rw else pk_sport p)"
      "pk_dport p' = (if ao = 30 then rw_new_port rw else pk_dport p)"
      using assms(8) o f[OF d] keep' unfolding p'(3-6) v
      by (auto simp: keep rewrite_region_def disjoint_iff)
  qed
qed

section \<open>The datapath as a transition system\<close>

text \<open>One packet on one of the two hooks.\<close>

inductive datapath_step :: "ebpf_env \<Rightarrow> dp \<Rightarrow> dp \<Rightarrow> bool" for env where
  ingress: "native_dnat_ingress env now s d = (a, s', d') \<Longrightarrow> datapath_step env d d'"
| returning: "native_dnat_return env now s d = (a, s', d') \<Longrightarrow> datapath_step env d d'"

inductive datapath_reach :: "ebpf_env \<Rightarrow> dp \<Rightarrow> dp \<Rightarrow> bool" for env d0 where
  start: "datapath_reach env d0 d0"
| step: "datapath_reach env d0 d \<Longrightarrow> datapath_step env d d' \<Longrightarrow> datapath_reach env d0 d'"

lemma entry_pointE:
  assumes "entry_point x = (a, s', d')"
  obtains r where "x = (r, s', d')" "a = (case r of Some b \<Rightarrow> b | None \<Rightarrow> TC_ACT_PIPE)"
  using assms by (auto simp: entry_point_def split: prod.splits option.splits)

text \<open>After a translation the pair is in the table, and the client's packet names the target.\<close>

lemma ingress_translated:
  assumes "load_reads env" "header_layout env" "store_writes env" "csum_local env"
    "routes_typed d" "fib_typed env" "lru_insert (env_flow_insert env)"
    "native_dnat_ingress env now s d = (a, s', d')" "a \<noteq> TC_ACT_SHOT" "s' \<noteq> s" "parse_l4 env s = Inr p"
  obtains p' v where "live_flow d p now v \<or> new_flow d p now v" "parse_l4 env s' = Inr p'"
    "ih_proto (pk_ip p') = ih_proto (pk_ip p)" "view_src p' = view_src p" "view_dst p' = fv_target v"
    "pk_sport p' = pk_sport p" "pk_dport p' = fv_target_port v"
    "dp_flows d' (reverse_for (packet_key p) v) = Some v" "dp_target_routes d' = dp_target_routes d"
proof -
  obtain r where r: "try_native_dnat_ingress env now s d = (r, s', d')"
      "a = (case r of Some b \<Rightarrow> b | None \<Rightarrow> TC_ACT_PIPE)"
    using assms(8) unfolding native_dnat_ingress_def by (rule entry_pointE)
  from r(1) show ?thesis
  proof (cases rule: ingress_cases)
    case (translated q v d1 m)
    have q: "q = p" using translated(1) assms(11) by simp
    from translated(6) show ?thesis
    proof (cases rule: ingress_translate_cases)
      case (sent b s1 f)
      have "routes_typed (native_bump f d1)"
        using assms(5) translated(5) by (simp add: routes_typed_def)
      then have c: "changes_only stage_region s1 s'"
        using fwd.region[OF assms(1,3) _ assms(6) sent(3)] by blast
      obtain p' where p': "parse_l4 env s' = Inr p'" "ih_proto (pk_ip p') = ih_proto (pk_ip p)"
          "view_src p' = view_src p" "view_dst p' = fv_target v" "pk_sport p' = pk_sport p"
          "pk_dport p' = fv_target_port v"
        by (rule rewritten_packet[OF assms(1-4) assms(11) c sent(2)[unfolded q]])
          (simp_all add: flow_rewrite_def)
      note fr = stage_frame_fields[OF fwd.frames[OF sent(3)]]
      have "dp_flows d' (reverse_for (packet_key p) v) = Some v"
        using assms(7) fr(1) translated(4) by (simp add: q lru_insert_def)
      then show ?thesis
        using that[OF translated(2)[unfolded q] p'] fr(7) translated(5) by simp
    qed (use assms(9) r(2) in simp)
  qed (use assms(10) in simp)
qed

lemma return_translated:
  assumes "load_reads env" "header_layout env" "store_writes env" "csum_local env"
    "routes_typed d" "fib_typed env" "parse_l4 env s = Inr p" "dp_flows d (packet_key p) = Some v"
    "\<not> flow_expired (fv_last_seen_ns v) (fv_timeout_secs v) now"
    "native_dnat_return env now s d = (a, s', d')" "a \<noteq> TC_ACT_SHOT"
  obtains p' where "parse_l4 env s' = Inr p'" "view_src p' = fv_vip v"
    "pk_sport p' = from_be16 (fv_vip_port v)" "view_dst p' = view_dst p" "pk_dport p' = pk_dport p"
proof -
  obtain r where r: "try_native_dnat_return env now s d = (r, s', d')"
      "a = (case r of Some b \<Rightarrow> b | None \<Rightarrow> TC_ACT_PIPE)"
    using assms(10) unfolding native_dnat_return_def by (rule entry_pointE)
  let ?v = "v\<lparr>fv_last_seen_ns := now\<rparr>"
  let ?rw = "\<lparr>rw_old_address = fv_target ?v, rw_new_address = fv_vip ?v,
         rw_old_port = pk_sport p, rw_new_port = from_be16 (fv_vip_port ?v),
         rw_preserve_zero_udp_checksum = pk_zero_udp_checksum p\<rparr>"
  let ?d1 = "insert_flow_pair env (packet_key p) (forward_for (packet_key p) ?v) ?v d"
  obtain ok s1 d2 where rw: "source env ?rw s ?d1 14 (pk_l4_off p) (pk_csum_off p) = (ok, s1, d2)"
    by (metis prod_cases3)
  note w = apply_rewrite_cases[OF rw[unfolded source_def]]
  let ?d3 = "native_bump (\<lambda>st. st\<lparr>ds_rewritten := ds_rewritten st + 1\<rparr>) ?d1"
  note def = r(1)[unfolded try_native_dnat_return_def assms(7) Let_def sum.case, folded flow_key_def,
      unfolded assms(8) option.case]
  have ok: ok
    by (rule ccontr) (use def rw assms(9,11) r(2) in \<open>auto simp: mutation_failed_action_def\<close>)
  obtain b where b: "return_forward env s1 now ?d3 = (b, s', d')"
    using def rw assms(9) ok w(2) by (auto split: prod.splits if_splits)
  have "routes_typed ?d3" using assms(5) by (simp add: routes_typed_def)
  then have c: "changes_only stage_region s1 s'" using ret.region[OF assms(1,3) _ assms(6) b] by blast
  show ?thesis
    by (rule rewritten_packet[OF assms(1-4,7) c, of ?rw 26 "pk_l4_off p"])
      (use w(1) ok that in simp_all)
qed

text \<open>A packet with a live entry under its key goes to the target stored there.\<close>

lemma ingress_live:
  assumes "load_reads env" "header_layout env" "store_writes env" "csum_local env"
    "routes_typed d" "fib_typed env" "parse_l4 env s = Inr p" "dp_flows d (packet_key p) = Some v"
    "\<not> flow_expired (fv_last_seen_ns v) (fv_timeout_secs v) now"
    "native_dnat_ingress env now s d = (a, s', d')" "a \<noteq> TC_ACT_SHOT"
  obtains p' where "parse_l4 env s' = Inr p'" "view_src p' = view_src p" "view_dst p' = fv_target v"
    "pk_sport p' = pk_sport p" "pk_dport p' = fv_target_port v"
proof -
  let ?v = "v\<lparr>fv_last_seen_ns := now\<rparr>"
  let ?d1 = "insert_flow_pair env (packet_key p) (reverse_for (packet_key p) v) ?v d"
  obtain r where r: "try_native_dnat_ingress env now s d = (r, s', d')"
      "a = (case r of Some b \<Rightarrow> b | None \<Rightarrow> TC_ACT_PIPE)"
    using assms(10) unfolding native_dnat_ingress_def by (rule entry_pointE)
  have "ingress_translate env now s ?d1 p (flow_rewrite p v)
      \<lparr>tk_listener_id = fv_listener_id v, tk_target_id = fv_target_id v\<rparr> = (r, s', d')"
    using r(1) assms(7-9)
    by (simp add: try_native_dnat_ingress_def ingress_existing_def flow_rewrite_def Let_def)
  then show ?thesis
  proof (cases rule: ingress_translate_cases)
    case (sent b s1 f)
    have "routes_typed (native_bump f ?d1)" using assms(5) by (simp add: routes_typed_def)
    then have c: "changes_only stage_region s1 s'"
      using fwd.region[OF assms(1,3) _ assms(6) sent(3)] by blast
    show ?thesis
      by (rule rewritten_packet[OF assms(1-4,7) c sent(2)]) (simp_all add: flow_rewrite_def that)
  qed (use assms(11) r(2) in simp)
qed

section \<open>Example\<close>

text \<open>The service 10.0.0.2:80/udp with the single backend 10.0.1.9:8080, and the packet of
  \<open>demo_skb\<close> on the ingress hook.\<close>

definition nat_dp :: dp where
  "nat_dp = fresh_dp\<lparr>
     dp_listeners := [\<lparr>lk_vip = 0x0a000002, lk_port = to_be16 80, lk_proto = 17, lk_pad = 0\<rparr> \<mapsto>
       \<lparr>lv_listener_id = 1, lv_target_base = 0, lv_target_count = 1, lv_weight_total = 1,
        lv_select = 1, lv_flags = 1, lv_timeout_secs = 30, lv_dscp = 0\<rparr>],
     dp_targets := [\<lparr>tk_listener_id = 1, tk_target_id = 0\<rparr> \<mapsto>
       \<lparr>tv_address = 0x0a000109, tv_port = 8080, tv_weight = 1, tv_flags = 1\<rparr>]\<rparr>"

definition demo_packet :: l4_packet where
  "demo_packet = \<lparr>pk_ip = ipv4_view (ip_header demo_skb), pk_sport = 0x1111, pk_dport = 80,
     pk_l4_off = 34, pk_csum_off = 40, pk_zero_udp_checksum = True\<rparr>"

lemma demo_parse: "parse_l4 plain_env demo_skb = Inr demo_packet"
  by (simp add: parse_l4_def plain_env_def demo_skb_def demo_packet_def ipv4_view_def proto_of_u8_def
      ipv4_l4_supported_def u16_from_be_bytes_def be16_def Let_def)

lemma demo_key_view:
  "packet_key demo_packet = \<lparr>fk_src = 0x0a000001, fk_dst = 0x0a000002, fk_sport = to_be16 0x1111,
     fk_dport = to_be16 80, fk_proto = 17, fk_pad = [0, 0, 0]\<rparr>"
  "view_src demo_packet = 0x0a000001" "view_dst demo_packet = 0x0a000002" "view_proto demo_packet = 17"
  by (simp_all add: flow_key_def make_flow_key_def demo_packet_def ipv4_view_def demo_skb_def
      u32_from_be_bytes_def be32_def proto_of_u8_def)

lemma demo_select:
  "select_target k \<lparr>lv_listener_id = 1, lv_target_base = 0, lv_target_count = 1,
     lv_weight_total = 1, lv_select = 1, lv_flags = 1, lv_timeout_secs = 30, lv_dscp = 0\<rparr> 0 nat_dp = (0, nat_dp)"
  by (simp add: select_target_def select_hash_slot_def target_slot_is_usable_def nat_dp_def Let_def)

lemma plain_env_sel [simp]:
  "env_store plain_env s off bs = (if off + length bs \<le> length (sk_data s)
     then Some (s\<lparr>sk_data := splice off bs (sk_data s)\<rparr>) else None)"
  "env_l3_csum_replace plain_env = plain_csum" "env_l4_csum_replace plain_env = plain_csum"
  by (simp_all add: plain_env_def)

definition demo_rewrite :: Rewrite where
  "demo_rewrite = \<lparr>rw_old_address = 0x0a000002, rw_new_address = 0x0a000109, rw_old_port = 80,
     rw_new_port = 8080, rw_preserve_zero_udp_checksum = True\<rparr>"

lemma demo_rewrites: "fst (rewrite_write plain_env demo_rewrite demo_skb 30 24 36 40)"
  by (simp add: rewrite_write_def demo_rewrite_def try_helper_def plain_csum_def demo_skb_def Let_def)

lemma redirect_forward_no_route:
  "dp_target_routes d key = None \<Longrightarrow> redirect_forward env s key now d =
     (TC_ACT_PIPE, s, redirect_bump (\<lambda>st. st\<lparr>rs_route_miss := rs_route_miss st + 1\<rparr>) d)"
  by (simp add: redirect_forward_def redirect_admit_def)

lemma demo_ingress:
  obtains d' where "native_dnat_ingress plain_env 7 demo_skb nat_dp =
    (TC_ACT_PIPE, snd (rewrite_write plain_env demo_rewrite demo_skb 30 24 36 40), d')"
proof -
  obtain s1 where w: "rewrite_write plain_env demo_rewrite demo_skb 30 24 36 40 = (True, s1)"
    using demo_rewrites by (cases "rewrite_write plain_env demo_rewrite demo_skb 30 24 36 40") auto
  have l: "dp_listeners nat_dp \<lparr>lk_vip = 0x0a000002, lk_port = to_be16 80, lk_proto = 17, lk_pad = 0\<rparr> =
      Some \<lparr>lv_listener_id = 1, lv_target_base = 0, lv_target_count = 1, lv_weight_total = 1,
        lv_select = 1, lv_flags = 1, lv_timeout_secs = 30, lv_dscp = 0\<rparr>"
    and t: "dp_targets nat_dp \<lparr>tk_listener_id = 1, tk_target_id = 0\<rparr> =
       Some \<lparr>tv_address = 0x0a000109, tv_port = 8080, tv_weight = 1, tv_flags = 1\<rparr>"
    and n: "dp_flows nat_dp k = None" "dp_target_routes nat_dp tk = None" for k tk
    by (simp_all add: nat_dp_def fresh_dp_def)
  have h: "env_hash_recalc plain_env s = 0" for s by (simp add: plain_env_def)
  have p: "pk_dport demo_packet = 80" "pk_l4_off demo_packet = 34" "pk_csum_off demo_packet = 40"
    "pk_zero_udp_checksum demo_packet" by (simp_all add: demo_packet_def)
  have "\<exists>d'. native_dnat_ingress plain_env 7 demo_skb nat_dp = (TC_ACT_PIPE, s1, d')"
    unfolding native_dnat_ingress_def try_native_dnat_ingress_def demo_parse
    by (simp add: Let_def n ingress_new_def demo_key_view(2-) p l h demo_select t ingress_translate_def
        destination_def apply_rewrite_def w[unfolded demo_rewrite_def] redirect_forward_no_route
        entry_point_def)
  then show ?thesis using that w by auto
qed

lemma demo_changed: "snd (rewrite_write plain_env demo_rewrite demo_skb 30 24 36 40) \<noteq> demo_skb"
proof
  assume "snd (rewrite_write plain_env demo_rewrite demo_skb 30 24 36 40) = demo_skb"
  then have "rewrite_write plain_env demo_rewrite demo_skb 30 24 36 40 = (True, demo_skb)"
    using demo_rewrites by (simp add: prod_eq_iff)
  then have "take 4 (drop 30 (sk_data demo_skb)) = be_bytes32 (rw_new_address demo_rewrite)"
    by (rule rewrite_write_fields(1)[rotated 2]) auto
  then show False by (simp add: demo_skb_def demo_rewrite_def be_bytes32_def)
qed

text \<open>A table with the demo packet's flow, stored under the client-side or the backend-side key.\<close>

definition live_dp :: "bool \<Rightarrow> dp" where
  "live_dp reply = fresh_dp\<lparr>dp_flows := [packet_key demo_packet \<mapsto>
     (if reply
      then \<lparr>fv_listener_id = 1, fv_target_id = 0, fv_vip = 0x0a0000fe, fv_target = 0x0a000001,
        fv_vip_port = to_be16 80, fv_target_port = 0x1111, fv_timeout_secs = 30, fv_last_seen_ns = 1\<rparr>
      else \<lparr>fv_listener_id = 1, fv_target_id = 0, fv_vip = 0x0a000002, fv_target = 0x0a000109,
        fv_vip_port = to_be16 80, fv_target_port = 8080, fv_timeout_secs = 30, fv_last_seen_ns = 1\<rparr>)]\<rparr>"

lemma plain_rewrites: "fst (rewrite_write plain_env rw demo_skb 30 24 36 40)"
  by (simp add: rewrite_write_def try_helper_def plain_csum_def demo_skb_def Let_def)

lemma live_ingress: "fst (native_dnat_ingress plain_env 7 demo_skb (live_dp b)) = TC_ACT_PIPE"
proof -
  have p: "pk_l4_off demo_packet = 34" "pk_csum_off demo_packet = 40" by (simp_all add: demo_packet_def)
  obtain v where v: "dp_flows (live_dp b) (packet_key demo_packet) = Some v"
      "\<not> flow_expired (fv_last_seen_ns v) (fv_timeout_secs v) 7"
    by (cases b) (simp_all add: live_dp_def flow_expired_def saturating_sub_def word_le_nat_alt word_less_nat_alt)
  have n: "dp_target_routes (live_dp b) tk = None" for tk by (simp add: live_dp_def fresh_dp_def)
  define f where "f rw = snd (rewrite_write plain_env rw demo_skb 30 24 36 40)" for rw
  have w: "rewrite_write plain_env rw demo_skb 30 24 36 40 = (True, f rw)" for rw
    unfolding f_def using plain_rewrites[of rw] by (metis prod.collapse)
  show ?thesis
    unfolding native_dnat_ingress_def try_native_dnat_ingress_def demo_parse
    by (simp add: v Let_def ingress_existing_def p ingress_translate_def destination_def
        apply_rewrite_def redirect_forward_no_route n entry_point_def w)
qed

section \<open>Properties\<close>

text \<open>C5.  The flow table stays well formed: from any table whose entries are stored under the
  client-side or backend-side key of their own value, every sequence of packets on the two hooks
  leads to such a table again (LRU eviction included).\<close>

theorem datapath_keeps_flows_paired:
  assumes "lru_insert (env_flow_insert env)" "flows_paired (dp_flows d0)" "datapath_reach env d0 d"
  shows "flows_paired (dp_flows d)"
  using assms(3)
proof induction
  case (step d d')
  from step.hyps(2) show ?case
  proof (cases rule: datapath_step.cases)
    case (ingress now s a s')
    then show ?thesis
      unfolding native_dnat_ingress_def
      by (rule entry_pointE) (rule ingress_keeps_paired[OF assms(1) step.IH])
  next
    case (returning now s a s')
    then show ?thesis
      unfolding native_dnat_return_def
      by (rule entry_pointE) (rule return_keeps_paired[OF assms(1) step.IH])
  qed
qed (rule assms(2))

theorem datapath_keeps_flows_paired_witness:
  "flows_paired (dp_flows (snd (snd (native_dnat_ingress plain_env 7 demo_skb nat_dp))))"
proof (rule datapath_keeps_flows_paired[of plain_env nat_dp])
  show "datapath_reach plain_env nat_dp (snd (snd (native_dnat_ingress plain_env 7 demo_skb nat_dp)))"
    by (metis datapath_reach.intros datapath_step.ingress prod.collapse)
qed (simp_all add: flows_paired_def nat_dp_def fresh_dp_def)

text \<open>C2.  No half-translated packet leaves the gateway: whatever the kernel helpers do (they may
  fail at any point), a packet on which either program does not answer \<open>TC_ACT_SHOT\<close> is untouched,
  or its address and port rewrite was carried out completely and the packet is what the redirect
  stage made of the rewritten one.\<close>

theorem nat_never_passes_partial_rewrite:
  "(native_dnat_ingress env now s d = (a, s', d') \<longrightarrow> a \<noteq> TC_ACT_SHOT \<longrightarrow> s' \<noteq> s \<longrightarrow>
     (\<exists>p rw s1 key d1. parse_l4 env s = Inr p \<and>
        rewrite_write env rw s 30 24 (pk_l4_off p + 2) (pk_csum_off p) = (True, s1) \<and>
        redirect_forward env s1 key now d1 = (a, s', d'))) \<and>
   (native_dnat_return env now s d = (a, s', d') \<longrightarrow> a \<noteq> TC_ACT_SHOT \<longrightarrow> s' \<noteq> s \<longrightarrow>
     (\<exists>p rw s1 d1. parse_l4 env s = Inr p \<and>
        rewrite_write env rw s 26 24 (pk_l4_off p) (pk_csum_off p) = (True, s1) \<and>
        return_forward env s1 now d1 = (a, s', d')))"
proof (intro conjI impI)
  assume h: "native_dnat_ingress env now s d = (a, s', d')" "a \<noteq> TC_ACT_SHOT" "s' \<noteq> s"
  obtain r where r: "try_native_dnat_ingress env now s d = (r, s', d')"
      "a = (case r of Some b \<Rightarrow> b | None \<Rightarrow> TC_ACT_PIPE)"
    using h(1) unfolding native_dnat_ingress_def by (rule entry_pointE)
  from r(1) show "\<exists>p rw s1 key d1. parse_l4 env s = Inr p \<and>
        rewrite_write env rw s 30 24 (pk_l4_off p + 2) (pk_csum_off p) = (True, s1) \<and>
        redirect_forward env s1 key now d1 = (a, s', d')"
  proof (cases rule: ingress_cases)
    case (translated p v d1 m)
    from translated(6) show ?thesis
    proof (cases rule: ingress_translate_cases)
      case (sent b s1 f)
      then show ?thesis using translated(1) r(2) by auto
    qed (use h(2) r(2) in simp)
  qed (use h in simp)
next
  assume h: "native_dnat_return env now s d = (a, s', d')" "a \<noteq> TC_ACT_SHOT" "s' \<noteq> s"
  obtain r where r: "try_native_dnat_return env now s d = (r, s', d')"
      "a = (case r of Some b \<Rightarrow> b | None \<Rightarrow> TC_ACT_PIPE)"
    using h(1) unfolding native_dnat_return_def by (rule entry_pointE)
  from r(1) show "\<exists>p rw s1 d1. parse_l4 env s = Inr p \<and>
        rewrite_write env rw s 26 24 (pk_l4_off p) (pk_csum_off p) = (True, s1) \<and>
        return_forward env s1 now d1 = (a, s', d')"
  proof (cases rule: return_cases)
    case (translated p v e s1 d1 ok)
    then have ok: "ok = True" and f: "return_forward env s1 now d1 = (a, s', d')"
      using h(2) r(2) by (auto split: if_splits)
    show ?thesis using translated(1,7) f unfolding ok by blast
  qed (use h in simp)
qed

text \<open>C1.  NAT round trip.  Let a client's packet to a service address be translated by
  \<open>native_dnat_ingress\<close>.  Then the packet names a backend, keeps the client as its source, and the flow
  table maps the backend's reply to the flow; and when \<open>native_dnat_return\<close> sees a reply of that
  backend to that client before the flow expires and does not drop it, the reply leaves with exactly
  the service address and port the client had sent to as its source.\<close>

theorem nat_round_trip:
  assumes env: "load_reads env" "header_layout env" "store_writes env" "csum_local env"
      "fib_typed env" "lru_insert (env_flow_insert env)" "routes_typed d"
    and request: "parse_l4 env s = Inr p"
      "\<And>v. dp_flows d (packet_key p) = Some v \<Longrightarrow> forward_key (packet_key p) v"
    and forward: "native_dnat_ingress env now s d = (a, s', d')" "a \<noteq> TC_ACT_SHOT" "s' \<noteq> s"
  shows "\<exists>p' v. parse_l4 env s' = Inr p' \<and> view_src p' = view_src p \<and> pk_sport p' = pk_sport p \<and>
    dp_flows d' (make_flow_key (view_dst p') (view_src p) (pk_dport p') (pk_sport p) (view_proto p)) = Some v \<and>
    (\<forall>q pq now2 b q' d2.
       parse_l4 env q = Inr pq \<and> view_src pq = view_dst p' \<and> view_dst pq = view_src p \<and>
       pk_sport pq = pk_dport p' \<and> pk_dport pq = pk_sport p \<and> view_proto pq = view_proto p \<and>
       \<not> flow_expired (fv_last_seen_ns v) (fv_timeout_secs v) now2 \<and>
       native_dnat_return env now2 q d' = (b, q', d2) \<and> b \<noteq> TC_ACT_SHOT \<longrightarrow>
       (\<exists>pq'. parse_l4 env q' = Inr pq' \<and> view_src pq' = view_dst p \<and> pk_sport pq' = pk_dport p \<and>
          view_dst pq' = view_src p \<and> pk_dport pq' = pk_sport p))"
proof -
  obtain p' v where t: "live_flow d p now v \<or> new_flow d p now v" "parse_l4 env s' = Inr p'"
    "ih_proto (pk_ip p') = ih_proto (pk_ip p)" "view_src p' = view_src p" "view_dst p' = fv_target v"
    "pk_sport p' = pk_sport p" "pk_dport p' = fv_target_port v"
    "dp_flows d' (reverse_for (packet_key p) v) = Some v" "dp_target_routes d' = dp_target_routes d"
    by (rule ingress_translated[OF env(1-4,7,5,6) forward request(1)])
  have fk: "forward_key (packet_key p) v"
    using t(1) request(2) by (auto simp: live_flow_def new_flow_def)
  then have "fv_vip v = view_dst p" "fv_vip_port v = to_be16 (pk_dport p)"
    by (auto simp: forward_key_def flow_key_def make_flow_key_def)
  then have vip: "fv_vip v = view_dst p" "from_be16 (fv_vip_port v) = pk_dport p" by simp_all
  have key: "make_flow_key (view_dst p') (view_src p) (pk_dport p') (pk_sport p) (view_proto p) =
      reverse_for (packet_key p) v"
    by (simp add: make_flow_key_def reverse_for_def flow_key_def t)
  have rt: "routes_typed d'" using env(7) t(9) by (simp add: routes_typed_def)
  show ?thesis
  proof (rule exI[of _ p'], rule exI[of _ v], intro conjI allI impI)
    show "parse_l4 env s' = Inr p'" "view_src p' = view_src p" "pk_sport p' = pk_sport p"
      "dp_flows d' (make_flow_key (view_dst p') (view_src p) (pk_dport p') (pk_sport p) (view_proto p)) = Some v"
      using t key by simp_all
  next
    fix q pq now2 b q' d2
    assume r: "parse_l4 env q = Inr pq \<and> view_src pq = view_dst p' \<and> view_dst pq = view_src p \<and>
       pk_sport pq = pk_dport p' \<and> pk_dport pq = pk_sport p \<and> view_proto pq = view_proto p \<and>
       \<not> flow_expired (fv_last_seen_ns v) (fv_timeout_secs v) now2 \<and>
       native_dnat_return env now2 q d' = (b, q', d2) \<and> b \<noteq> TC_ACT_SHOT"
    then have "packet_key pq = reverse_for (packet_key p) v"
      unfolding key[symmetric] by (simp add: flow_key_def)
    then have fl: "dp_flows d' (packet_key pq) = Some v" using t(8) by simp
    have r': "parse_l4 env q = Inr pq" "\<not> flow_expired (fv_last_seen_ns v) (fv_timeout_secs v) now2"
      "native_dnat_return env now2 q d' = (b, q', d2)" "b \<noteq> TC_ACT_SHOT"
      using r by blast+
    obtain pq' where "parse_l4 env q' = Inr pq'" "view_src pq' = fv_vip v"
        "pk_sport pq' = from_be16 (fv_vip_port v)" "view_dst pq' = view_dst pq" "pk_dport pq' = pk_dport pq"
      by (rule return_translated[OF env(1-4) rt env(5) r'(1) fl r'(2-4)])
    then show "\<exists>pq'. parse_l4 env q' = Inr pq' \<and> view_src pq' = view_dst p \<and> pk_sport pq' = pk_dport p \<and>
          view_dst pq' = view_src p \<and> pk_dport pq' = pk_sport p"
      using r vip by auto
  qed
qed

theorem nat_never_passes_partial_rewrite_witness:
  "\<exists>p rw s1 key d1. parse_l4 plain_env demo_skb = Inr p \<and>
     rewrite_write plain_env rw demo_skb 30 24 (pk_l4_off p + 2) (pk_csum_off p) = (True, s1) \<and>
     fst (redirect_forward plain_env s1 key 7 d1) = TC_ACT_PIPE"
proof -
  obtain d' where i: "native_dnat_ingress plain_env 7 demo_skb nat_dp =
      (TC_ACT_PIPE, snd (rewrite_write plain_env demo_rewrite demo_skb 30 24 36 40), d')"
    by (rule demo_ingress)
  show ?thesis
    using nat_never_passes_partial_rewrite[of plain_env 7 demo_skb nat_dp, THEN conjunct1, rule_format, OF i _ demo_changed]
    by (metis fst_conv tc_action.distinct(1))
qed

theorem nat_round_trip_witness:
  "\<exists>p' v. parse_l4 plain_env (fst (snd (native_dnat_ingress plain_env 7 demo_skb nat_dp))) = Inr p' \<and>
     view_src p' = 0x0a000001 \<and>
     dp_flows (snd (snd (native_dnat_ingress plain_env 7 demo_skb nat_dp)))
       (make_flow_key (view_dst p') 0x0a000001 (pk_dport p') 0x1111 17) = Some v"
proof -
  obtain d' where i: "native_dnat_ingress plain_env 7 demo_skb nat_dp =
      (TC_ACT_PIPE, snd (rewrite_write plain_env demo_rewrite demo_skb 30 24 36 40), d')"
    by (rule demo_ingress)
  have n: "dp_flows nat_dp k = None" for k by (simp add: nat_dp_def fresh_dp_def)
  have t: "routes_typed nat_dp" by (simp add: routes_typed_def nat_dp_def fresh_dp_def)
  have sp: "pk_sport demo_packet = 0x1111" by (simp add: demo_packet_def)
  from nat_round_trip[OF _ _ _ _ _ _ t demo_parse _ i _ demo_changed] show ?thesis
    unfolding i fst_conv snd_conv demo_key_view(2-4) sp by (auto simp: n)
qed

text \<open>C6.  A flow sticks to its backend: a packet whose key has a live entry is sent to the address
  and port stored in that entry, whatever the listener, target and bucket maps hold by now.\<close>

theorem ingress_sticks_to_backend:
  assumes "load_reads env" "header_layout env" "store_writes env" "csum_local env"
    "routes_typed d" "fib_typed env" "parse_l4 env s = Inr p" "dp_flows d (packet_key p) = Some v"
    "\<not> flow_expired (fv_last_seen_ns v) (fv_timeout_secs v) now"
    "native_dnat_ingress env now s d = (a, s', d')" "a \<noteq> TC_ACT_SHOT"
  shows "\<exists>p'. parse_l4 env s' = Inr p' \<and> view_dst p' = fv_target v \<and> pk_dport p' = fv_target_port v \<and>
    view_src p' = view_src p \<and> pk_sport p' = pk_sport p"
  by (rule ingress_live[OF assms]) blast

theorem ingress_sticks_to_backend_witness:
  "\<exists>p'. parse_l4 plain_env (fst (snd (native_dnat_ingress plain_env 7 demo_skb (live_dp False)))) = Inr p' \<and>
     view_dst p' = 0x0a000109"
proof -
  let ?r = "native_dnat_ingress plain_env 7 demo_skb (live_dp False)"
  have i: "?r = (TC_ACT_PIPE, fst (snd ?r), snd (snd ?r))" using live_ingress by (simp add: prod_eq_iff)
  have "routes_typed (live_dp False)" by (simp add: routes_typed_def live_dp_def fresh_dp_def)
  from ingress_sticks_to_backend[OF _ _ _ _ this _ demo_parse _ _ i] show ?thesis
    by (simp add: live_dp_def flow_expired_def saturating_sub_def word_le_nat_alt word_less_nat_alt
      demo_key_view) blast
qed

text \<open>C7.  \<open>native_dnat_ingress\<close> does not distinguish the two keys of a flow.  A backend's reply that
  passes this program (both programs are attached to the underlay device, this one first) is found
  under the backend-side key, and its destination, the client, is overwritten with its own source,
  the backend.\<close>

theorem ingress_turns_reply_back:
  assumes "load_reads env" "header_layout env" "store_writes env" "csum_local env"
    "routes_typed d" "fib_typed env" "parse_l4 env s = Inr p" "dp_flows d (packet_key p) = Some v"
    "reverse_key (packet_key p) v" "\<not> flow_expired (fv_last_seen_ns v) (fv_timeout_secs v) now"
    "native_dnat_ingress env now s d = (a, s', d')" "a \<noteq> TC_ACT_SHOT"
  shows "\<exists>p'. parse_l4 env s' = Inr p' \<and> view_dst p' = view_src p \<and> pk_dport p' = pk_sport p"
proof -
  have "view_src p = fv_target v" "pk_sport p = fv_target_port v"
    using assms(9) by (auto simp: reverse_key_def flow_key_def make_flow_key_def)
  then show ?thesis by (rule_tac ingress_live[OF assms(1-8,10-12)]) auto
qed

theorem ingress_turns_reply_back_witness:
  "\<exists>p'. parse_l4 plain_env (fst (snd (native_dnat_ingress plain_env 7 demo_skb (live_dp True)))) = Inr p' \<and>
     view_dst p' = 0x0a000001"
proof -
  let ?r = "native_dnat_ingress plain_env 7 demo_skb (live_dp True)"
  have i: "?r = (TC_ACT_PIPE, fst (snd ?r), snd (snd ?r))" using live_ingress by (simp add: prod_eq_iff)
  have "routes_typed (live_dp True)" by (simp add: routes_typed_def live_dp_def fresh_dp_def)
  from ingress_turns_reply_back[OF _ _ _ _ this _ demo_parse _ _ _ i] show ?thesis
    by (simp add: live_dp_def flow_expired_def saturating_sub_def word_le_nat_alt word_less_nat_alt
      demo_key_view reverse_key_def) blast
qed

end
