(* ===== verification/Dscp_Mark.thy ===== *)
theory Dscp_Mark
  imports Datapath
begin

text \<open>
  The marking program \<open>dscp_mark\<close> of \<^verbatim>\<open>edge-lb-ebpf/src/main.rs\<close>: packets to a configured target port
  get the configured DSCP value in the TOS byte, with an incremental update of the IPv4 header
  checksum.  The lemmas show that exactly the TOS byte and the checksum change, that the ECN bits
  stay, and that a correct checksum stays correct, for headers with options as well.
\<close>

section \<open>Operations\<close>

definition stats_bump :: "(Stats \<Rightarrow> Stats) \<Rightarrow> dp \<Rightarrow> dp" where
  "stats_bump update d = d\<lparr>dp_stats := update (dp_stats d)\<rparr>"

definition port_matches :: "dp \<Rightarrow> u32 \<Rightarrow> bool" where
  "port_matches d dport \<longleftrightarrow> dp_target_ports d dport \<noteq> None"

definition configured_dscp :: "dp \<Rightarrow> u32" where
  "configured_dscp d =
     (case dp_dscp_cfg d of v # _ \<Rightarrow> if v < 64 then v else DEFAULT_DSCP | [] \<Rightarrow> DEFAULT_DSCP)"

text \<open>The new TOS byte and the new checksum, from the parsed header.\<close>

definition marked_tos :: "u32 \<Rightarrow> u8 \<Rightarrow> u8" where
  "marked_tos dscp old_tos = ucast (push_bit 2 dscp) OR (old_tos AND 0x03)"

definition marked_check :: "Ipv4Hdr \<Rightarrow> u8 \<Rightarrow> u16" where
  "marked_check ip new_tos =
     (let old_check = u16_from_be_bytes (ih_check ip);
          vihl_words = push_bit 4 (ih_version ip) OR drop_bit 2 (ih_ihl ip);
          old_half = push_bit 8 (ucast vihl_words) OR ucast (ih_tos ip);
          new_half = (old_half AND 0xff00) OR ucast new_tos
      in incremental_csum old_check old_half new_half)"

definition try_dscp_mark :: "ebpf_env \<Rightarrow> skb \<Rightarrow> dp \<Rightarrow> tc_action option \<times> skb \<times> dp" where
  "try_dscp_mark env s d =
     (case env_load env s 0 14 of
        None \<Rightarrow> (None, s, d)
      | Some eth \<Rightarrow>
        if \<not> env_is_ipv4 env eth then (Some TC_ACT_PIPE, s, d)
        else
        (case env_load env s 14 20 of
           None \<Rightarrow> (None, s, d)
         | Some ip_bytes \<Rightarrow>
           let ip = env_ipv4 env ip_bytes in
           if ih_version ip \<noteq> 4 \<or> ih_ihl ip < 20 then (Some TC_ACT_PIPE, s, d)
           else if ih_proto ip \<noteq> Tcp \<and> ih_proto ip \<noteq> Udp then (Some TC_ACT_PIPE, s, d)
           else
           let l4_off = 14 + unat (ih_ihl ip) in
           (case env_load env s l4_off (if ih_proto ip = Tcp then 20 else 8) of
              None \<Rightarrow> (None, s, d)
            | Some l4 \<Rightarrow>
              let dport = (ucast (u16_from_be_bytes (snd (env_l4_ports env (ih_proto ip) l4))) :: u32) in
              if \<not> port_matches d dport then (Some TC_ACT_PIPE, s, d)
              else
              let d1 = stats_bump (\<lambda>st. st\<lparr>st_matched := st_matched st + 1\<rparr>) d;
                  old_tos = ih_tos ip;
                  new_tos = marked_tos (configured_dscp d1) old_tos in
              if old_tos = new_tos then (Some TC_ACT_PIPE, s, d1)
              else
              (case env_store env s 15 [new_tos] of
                 None \<Rightarrow> (None, s, d1)
               | Some s1 \<Rightarrow>
                 (case env_store env s1 24 (ne_bytes16 (to_be16 (marked_check ip new_tos))) of
                    None \<Rightarrow> (None, s1, d1)
                  | Some s2 \<Rightarrow>
                      (Some TC_ACT_PIPE, s2,
                       stats_bump (\<lambda>st. st\<lparr>st_changed := st_changed st + 1\<rparr>) d1))))))"

definition dscp_mark :: "ebpf_env \<Rightarrow> skb \<Rightarrow> dp \<Rightarrow> tc_action \<times> skb \<times> dp" where
  "dscp_mark env s d = entry_point (try_dscp_mark env s d)"

section \<open>The marked header\<close>

lemma configured_dscp_lt: "configured_dscp d < 64"
  by (auto simp: configured_dscp_def split: list.splits)

lemma mask_u8: "(3 :: u8) = mask 2" "(15 :: u8) = mask 4" "(0xff00 :: u16) = push_bit 8 (mask 8)"
  by (simp_all add: mask_eq_exp_minus_1)

lemma marked_tos_ecn: "marked_tos dscp t AND 3 = t AND 3"
  unfolding mask_u8 by (rule bit_eqI) (auto simp: marked_tos_def bit_simps mask_u8)

lemma u32_high_bits:
  assumes "v < 64" "bit (v :: u32) n"
  shows "n < 6"
proof -
  have "take_bit 6 v = v"
    using assms(1)
    by (simp add: unat_eq_iff[symmetric] unsigned_take_bit_eq take_bit_nat_eq_self_iff word_less_nat_alt)
  with assms(2) show ?thesis by (metis bit_take_bit_iff)
qed

lemma marked_tos_dscp: "dscp < 64 \<Longrightarrow> drop_bit 2 (marked_tos dscp t) = ucast dscp"
  by (rule bit_eqI) (auto simp: marked_tos_def bit_simps mask_u8 dest: u32_high_bits)

lemma vihl_words: "push_bit 4 (drop_bit 4 b) OR drop_bit 2 (push_bit 2 (b AND 15)) = (b :: u8)"
  unfolding mask_u8
proof (rule bit_eqI)
  fix n
  show "bit (push_bit 4 (drop_bit 4 b) OR drop_bit 2 (push_bit 2 (b AND mask 4))) n = bit b n"
    by (cases "4 \<le> n") (auto simp: bit_simps dest: bit_imp_le_length)
qed

lemma new_half: "(be16 b t AND 0xff00) OR ucast t' = be16 b t'"
  unfolding mask_u8 by (rule bit_eqI) (auto simp: be16_def bit_simps dest: bit_imp_le_length)

lemma marked_check_view:
  assumes "12 \<le> length b"
  shows "marked_check (ipv4_view b) t =
    incremental_csum (be16 (b ! 10) (b ! 11)) (be16 (b ! 0) (b ! 1)) (be16 (b ! 0) t)"
  using assms
  by (simp add: marked_check_def ipv4_view_def Let_def vihl_words[simplified] be16_def[symmetric] new_half
      u16_from_be_bytes_def)

section \<open>Checksums of headers of any length\<close>

definition csum_valid :: "bytes \<Rightarrow> bool" where
  "csum_valid h \<longleftrightarrow> 0 < words_total h \<and> 65535 dvd words_total h"

lemma words_total_append:
  "even (length a) \<Longrightarrow> words_total (a @ b) = words_total a + words_total b"
  by (induction a rule: words_total.induct) (auto split: list.splits)

lemma words_total_20:
  assumes "length h = 20"
  shows "words_total h = unat (be16 (h ! 0) (h ! 1)) + unat (be16 (h ! 10) (h ! 11)) +
    words_total (take 8 (drop 2 h)) + words_total (drop 12 h)"
  using assms by (elim length_20E) (simp add: numeral_eq_Suc)

text \<open>Replacing the TOS byte and patching the checksum keeps the sum, whatever the rest is.\<close>

lemma marked_sum:
  assumes "20 \<le> length h" "even (length h)"
    "h' = h[1 := t, 10 := ucast (drop_bit 8 c), 11 := ucast c]"
    "c = incremental_csum (be16 (h ! 10) (h ! 11)) (be16 (h ! 0) (h ! 1)) (be16 (h ! 0) t)"
    "csum_valid h" "h ! 0 \<noteq> 0"
  shows "csum_valid h'"
proof -
  let ?a = "take 20 h" and ?b = "drop 20 h"
  have l: "length ?a = 20" using assms(1) by simp
  have h: "words_total h = words_total ?a + words_total ?b"
    using words_total_append[of ?a ?b] l by simp
  have h': "h' = ?a[1 := t, 10 := ucast (drop_bit 8 c), 11 := ucast c] @ ?b"
    unfolding assms(3) by (subst append_take_drop_id[of 20 h, symmetric])
      (use l in \<open>simp add: list_update_append del: append_take_drop_id\<close>)
  let ?a' = "?a[1 := t, 10 := ucast (drop_bit 8 c), 11 := ucast c]"
  have w': "words_total h' = words_total ?a' + words_total ?b"
    unfolding h' using words_total_append[of ?a' ?b] l by simp
  let ?rest = "words_total (take 8 (drop 2 ?a)) + words_total (drop 12 ?a) + words_total ?b"
  have "words_total h = ?rest + unat (be16 (h ! 0) (h ! 1)) + unat (be16 (h ! 10) (h ! 11))"
    unfolding h words_total_20[OF l] by simp
  moreover have new: "words_total h' = ?rest + unat (be16 (h ! 0) t) + unat c"
  proof -
    have "take 8 (drop 2 ?a') = take 8 (drop 2 ?a)" by (rule nth_equalityI) auto
    then show ?thesis unfolding w' using words_total_20[of ?a'] l by simp
  qed
  ultimately have "65535 dvd words_total h'"
    using assms(5) incremental_csum_keeps_sum unfolding csum_valid_def assms(4) by metis
  moreover have "0 < unat (be16 (h ! 0) t)" using assms(6) by (simp add: unat_be16 unat_gt_0)
  ultimately show ?thesis using new by (simp add: csum_valid_def)
qed

lemma even_unat_push_bit: "even (unat (push_bit 2 (y :: u8) AND z))"
proof -
  have "\<not> bit (unat (push_bit 2 y AND z)) 0" by (simp add: bit_unsigned_iff bit_and_iff bit_push_bit_iff)
  then show ?thesis by (simp only: bit_0 not_not)
qed

lemma splice_one: "off < length d \<Longrightarrow> splice off [x] d = d[off := x]"
  by (simp add: splice_def upd_conv_take_nth_drop)

lemma splice_two: "Suc off < length d \<Longrightarrow> splice off [x, y] d = d[off := x, Suc off := y]"
  by (rule nth_equalityI) (auto simp: nth_splice nth_list_update less_Suc_eq)

abbreviation ip_full :: "skb \<Rightarrow> bytes" where
  "ip_full s \<equiv> take (unat (ih_ihl (ipv4_view (ip_header s)))) (drop 14 (sk_data s))"

text \<open>How a packet gets marked.\<close>

lemma try_dscp_mark_cases:
  assumes "try_dscp_mark env s d = (Some a, s', d')"
  obtains (same) "a = TC_ACT_PIPE" "s' = s"
  | (marked) b s1 t l4 where "a = TC_ACT_PIPE" "env_load env s 14 20 = Some b" "\<not> ih_ihl (env_ipv4 env b) < 20"
      "ih_version (env_ipv4 env b) = 4"
      "env_load env s (14 + unat (ih_ihl (env_ipv4 env b))) l4 \<noteq> None"
      "t = marked_tos (configured_dscp d) (ih_tos (env_ipv4 env b))"
      "env_store env s 15 [t] = Some s1"
      "env_store env s1 24 (ne_bytes16 (to_be16 (marked_check (env_ipv4 env b) t))) = Some s'"
proof -
  have c: "configured_dscp (stats_bump f d) = configured_dscp d" for f
    by (simp add: configured_dscp_def stats_bump_def)
  note def = assms[unfolded try_dscp_mark_def Let_def c]
  obtain eth where e: "env_load env s 0 14 = Some eth" using def by (cases "env_load env s 0 14") simp_all
  show ?thesis
  proof (cases "env_is_ipv4 env eth")
    case False then show ?thesis using def e same by simp
  next
    case True
    obtain b where b: "env_load env s 14 20 = Some b" using def e True by (cases "env_load env s 14 20") simp_all
    let ?ip = "env_ipv4 env b" let ?n = "if ih_proto ?ip = Tcp then 20 else 8"
    let ?o = "14 + unat (ih_ihl ?ip)"
    let ?t = "marked_tos (configured_dscp d) (ih_tos ?ip)"
    note def1 = def[unfolded e option.case, simplified True b simp_thms if_False option.case]
    show ?thesis
    proof (cases "ih_version ?ip \<noteq> 4 \<or> ih_ihl ?ip < 20 \<or> (ih_proto ?ip \<noteq> Tcp \<and> ih_proto ?ip \<noteq> Udp)")
      case True then show ?thesis using def1 same by (auto split: if_splits)
    next
      case ok: False
      obtain l4 where l4: "env_load env s ?o ?n = Some l4"
        using def1 ok by (cases "env_load env s ?o ?n") (simp_all split: if_splits)
      have "a = TC_ACT_PIPE \<and> (s' = s \<or> (\<exists>s1. env_store env s 15 [?t] = Some s1 \<and>
          env_store env s1 24 (ne_bytes16 (to_be16 (marked_check ?ip ?t))) = Some s'))"
        using def1 ok l4 by (auto split: if_splits option.splits)
      then show ?thesis
        using same marked[OF _ b, of ?n] ok l4 by (auto simp del: not_less)
    qed
  qed
qed

section \<open>Properties\<close>

text \<open>C10.  When \<open>dscp_mark\<close> changes a packet and returns regularly, the packet carries the configured
  DSCP value, its ECN bits are kept, every byte but the TOS byte and the header checksum is
  unchanged, and a correct IPv4 header checksum is still correct, also for headers with options.\<close>

theorem dscp_mark_correct:
  assumes "load_reads env" "store_writes env" "header_layout env"
    "try_dscp_mark env s d = (Some a, s', d')" "s' \<noteq> s"
  shows "a = TC_ACT_PIPE \<and> changes_only {15, 24, 25} s s' \<and>
    drop_bit 2 (sk_data s' ! 15) = ucast (configured_dscp d) \<and>
    sk_data s' ! 15 AND 3 = sk_data s ! 15 AND 3 \<and>
    (csum_valid (ip_full s) \<longrightarrow> csum_valid (ip_full s'))"
  using assms(4)
proof (cases rule: try_dscp_mark_cases)
  case (marked b s1 t n)
  have b: "b = ip_header s" "34 \<le> length (sk_data s)" using loaded_header[OF assms(1) marked(2)] by auto
  have v: "env_ipv4 env b = ipv4_view (ip_header s)" using assms(3) b by (simp add: header_layout_def)
  let ?c = "marked_check (ipv4_view (ip_header s)) t"
  let ?l = "unat (ih_ihl (ipv4_view (ip_header s)))"
  have s1: "s1 = s\<lparr>sk_data := (sk_data s)[15 := t]\<rparr>"
    using store_writesD[OF assms(2) marked(7)] b(2) by (simp add: splice_one)
  have s': "s' = s\<lparr>sk_data := (sk_data s)[15 := t, 24 := ucast (drop_bit 8 ?c), 25 := ucast ?c]\<rparr>"
    using store_writesD[OF assms(2) marked(8)] b(2)
    by (simp add: s1 v ne_bytes16_to_be be_bytes16_def splice_two)
  have tos: "ih_tos (ipv4_view (ip_header s)) = sk_data s ! 15"
    using b(2) by (simp add: ipv4_view_def)
  have "changes_only {15, 24, 25} s s'" by (auto simp: changes_only_def s')
  moreover have "sk_data s' ! 15 = t" using b(2) by (simp add: s')
  moreover have "csum_valid (ip_full s')" if ok: "csum_valid (ip_full s)"
  proof -
    have len: "20 \<le> ?l" "14 + ?l \<le> length (sk_data s)"
      using marked(3,5) load_readsD[OF assms(1)] unfolding v
      by (auto simp: word_less_nat_alt not_less split: if_splits)
    have ev: "even ?l" using even_unat_push_bit by (simp add: ipv4_view_def)
    have z: "sk_data s ! 14 \<noteq> 0" using marked(4) b(2) unfolding v by (auto simp: ipv4_view_def)
    have h0: "ip_header s' ! 0 = ip_header s ! 0" using b(2) by (simp add: s')
    have l': "unat (ih_ihl (ipv4_view (ip_header s'))) = ?l"
      unfolding ipv4_view_def using h0 by simp
    have "ip_full s' = (ip_full s)[1 := t, 10 := ucast (drop_bit 8 ?c), 11 := ucast ?c]"
      unfolding l' by (simp add: s' drop_update_swap take_update_swap)
    moreover have "?c = incremental_csum (be16 (ip_full s ! 10) (ip_full s ! 11))
        (be16 (ip_full s ! 0) (ip_full s ! 1)) (be16 (ip_full s ! 0) t)"
      using len b(2) by (subst marked_check_view) simp_all
    ultimately show ?thesis
      using marked_sum[of "ip_full s" "ip_full s'" t ?c] ok len ev z b(2) by simp
  qed
  ultimately show ?thesis
    using marked(1,6) marked_tos_ecn marked_tos_dscp[OF configured_dscp_lt] unfolding v tos by simp
qed (use assms(5) in simp)

theorem dscp_mark_correct_witness:
  "\<exists>s' d'. try_dscp_mark plain_env demo_skb (fresh_dp\<lparr>dp_target_ports := [80 \<mapsto> 1], dp_dscp_cfg := [46]\<rparr>)
       = (Some TC_ACT_PIPE, s', d') \<and> sk_data s' ! 15 = 184 \<and> csum_valid (ip_full s')"
proof -
  let ?d = "fresh_dp\<lparr>dp_target_ports := [80 \<mapsto> 1], dp_dscp_cfg := [46]\<rparr>"
  have p: "env_load plain_env demo_skb 0 14 = Some (take 14 (sk_data demo_skb))"
    "env_load plain_env demo_skb 14 20 = Some (ip_header demo_skb)"
    "env_load plain_env demo_skb 34 8 = Some (take 8 (drop 34 (sk_data demo_skb)))"
    "env_is_ipv4 plain_env (take 14 (sk_data demo_skb))"
    "env_ipv4 plain_env = ipv4_view"
    "env_l4_ports plain_env = (\<lambda>p b. (take 2 b, take 2 (drop 2 b)))"
    by (simp_all add: plain_env_def demo_skb_def be16_def)
  have v: "ih_version (ipv4_view (ip_header demo_skb)) = 4" "ih_ihl (ipv4_view (ip_header demo_skb)) = 20"
    "ih_proto (ipv4_view (ip_header demo_skb)) = Udp" "ih_tos (ipv4_view (ip_header demo_skb)) = 0"
    by (simp_all add: ipv4_view_def demo_skb_def proto_of_u8_def)
  have m: "port_matches ?d (ucast (u16_from_be_bytes (take 2 (drop 2 (take 8 (drop 34 (sk_data demo_skb)))))))"
    by (simp add: port_matches_def demo_skb_def u16_from_be_bytes_def be16_def)
  have c: "configured_dscp (stats_bump f ?d) = 46" "configured_dscp ?d = 46" for f
    by (simp_all add: configured_dscp_def stats_bump_def)
  have t: "marked_tos 46 0 = 184" by (simp add: marked_tos_def)
  have l: "length (sk_data demo_skb) = 42" "sk_data demo_skb ! 15 = 0" by (simp_all add: demo_skb_def)
  have ok: "csum_valid (ip_full demo_skb)"
    unfolding v(2) by (simp add: demo_skb_def csum_valid_def be16_def)
  obtain s' d' where r: "try_dscp_mark plain_env demo_skb ?d = (Some TC_ACT_PIPE, s', d')"
      "sk_data s' ! 15 = 184"
    using m by (simp add: try_dscp_mark_def p v c t l splice_def Let_def) (simp add: nth_append l)
  have ne: "s' \<noteq> demo_skb" using r(2) l(2) by auto
  show ?thesis
    using dscp_mark_correct[OF _ _ _ r(1) ne] ok r by auto
qed

end
