(* ===== verification/Backend_Return.thy ===== *)
theory Backend_Return
  imports Redirect
begin

text \<open>
  The backend's return path, \<^verbatim>\<open>edge-lb-ebpf/src/backend_redirect.rs\<close>: ingress learns from a
  DSCP-marked request which gateway its replies belong to; egress sends the replies there by
  rewriting only the Ethernet header.
\<close>

section \<open>Operations\<close>

definition backend_bump :: "(BackendReturnStats \<Rightarrow> BackendReturnStats) \<Rightarrow> dp \<Rightarrow> dp" where
  "backend_bump update d = d\<lparr>dp_backend_stats := update (dp_backend_stats d)\<rparr>"

definition backend_parse :: "ebpf_env \<Rightarrow> skb \<Rightarrow> (bytes \<times> bytes \<times> u16 \<times> u16) option" where
  "backend_parse env s =
     (case env_load env s 0 14 of
        None \<Rightarrow> None
      | Some eth \<Rightarrow>
        if be16 (eth ! 12) (eth ! 13) \<noteq> 0x0800 then None
        else
        (case env_load env s 14 20 of
           None \<Rightarrow> None
         | Some ip \<Rightarrow>
           if ip ! 0 \<noteq> 0x45 \<or> be16 (ip ! 6) (ip ! 7) AND 0xbfff \<noteq> 0 then None
           else
           (case (if ip ! 9 = 6 then Some 40 else if ip ! 9 = 17 then Some 28 else None) of
              None \<Rightarrow> None
            | Some mn \<Rightarrow>
              let len = (ucast (be16 (ip ! 2) (ip ! 3)) :: u32) in
              if len < mn \<or> len + 14 \<noteq> of_nat (length (sk_data s)) then None
              else
              (case env_load env s 34 4 of
                 None \<Rightarrow> None
               | Some ports \<Rightarrow>
                   Some (eth, ip, from_be16 (ne_u16 (ports ! 0) (ports ! 1)),
                         from_be16 (ne_u16 (ports ! 2) (ports ! 3)))))))"

text \<open>The key of the reply flow, from the side of the request and of the reply.\<close>

definition learned_key :: "bytes \<Rightarrow> u16 \<Rightarrow> u16 \<Rightarrow> BackendReturnFlowKey" where
  "learned_key ip sport dport = \<lparr>
     bf_src = be32 (ip ! 16) (ip ! 17) (ip ! 18) (ip ! 19),
     bf_dst = be32 (ip ! 12) (ip ! 13) (ip ! 14) (ip ! 15),
     bf_sport = dport, bf_dport = sport, bf_proto = ip ! 9, bf_pad = [0, 0, 0]\<rparr>"

definition reply_key :: "bytes \<Rightarrow> u16 \<Rightarrow> u16 \<Rightarrow> BackendReturnFlowKey" where
  "reply_key ip sport dport = \<lparr>
     bf_src = be32 (ip ! 12) (ip ! 13) (ip ! 14) (ip ! 15),
     bf_dst = be32 (ip ! 16) (ip ! 17) (ip ! 18) (ip ! 19),
     bf_sport = sport, bf_dport = dport, bf_proto = ip ! 9, bf_pad = [0, 0, 0]\<rparr>"

definition backend_ingress :: "ebpf_env \<Rightarrow> skb \<Rightarrow> u64 \<Rightarrow> dp \<Rightarrow> tc_action \<times> skb \<times> dp" where
  "backend_ingress env s now_ns d =
     (case backend_parse env s of
        None \<Rightarrow> (TC_ACT_PIPE, s, d)
      | Some (_, ip, sport, dport) \<Rightarrow>
        let dscp = (ucast (drop_bit 2 (ip ! 1)) :: u32) in
        (case dp_backend_dscp d dscp of
           None \<Rightarrow> (TC_ACT_PIPE, s, backend_bump (\<lambda>st. st\<lparr>bs_dscp_miss := bs_dscp_miss st + 1\<rparr>) d)
         | Some contract \<Rightarrow>
           if bd_return_ifindex contract = 0 \<or> \<not> unicast_mac (bd_source_mac contract)
              \<or> \<not> unicast_mac (bd_destination_mac contract)
           then (TC_ACT_PIPE, s, backend_bump (\<lambda>st. st\<lparr>bs_unsupported := bs_unsupported st + 1\<rparr>) d)
           else
           let flow = \<lparr>br_expires_ns = saturating_add now_ns BACKEND_RETURN_FLOW_TTL_NS,
                 br_return_ifindex = bd_return_ifindex contract,
                 br_source_mac = bd_source_mac contract,
                 br_destination_mac = bd_destination_mac contract, br_pad = [0, 0]\<rparr>;
               d1 = d\<lparr>dp_backend_flows := env_backend_insert env (dp_backend_flows d)
                       (learned_key ip sport dport) flow\<rparr>
           in (TC_ACT_PIPE, s, backend_bump (\<lambda>st. st\<lparr>bs_learned := bs_learned st + 1\<rparr>) d1)))"

definition backend_egress :: "ebpf_env \<Rightarrow> skb \<Rightarrow> u64 \<Rightarrow> dp \<Rightarrow> tc_action \<times> skb \<times> dp" where
  "backend_egress env s now_ns d =
     (case backend_parse env s of
        None \<Rightarrow> (TC_ACT_PIPE, s, d)
      | Some (_, ip, sport, dport) \<Rightarrow>
        let key = reply_key ip sport dport in
        (case dp_backend_flows d key of
           None \<Rightarrow> (TC_ACT_PIPE, s, backend_bump (\<lambda>st. st\<lparr>bs_flow_miss := bs_flow_miss st + 1\<rparr>) d)
         | Some flow \<Rightarrow>
           if br_expires_ns flow \<le> now_ns
           then (TC_ACT_PIPE, s, backend_bump (\<lambda>st. st\<lparr>bs_expired := bs_expired st + 1\<rparr>)
                  (d\<lparr>dp_backend_flows := (dp_backend_flows d)(key := None)\<rparr>))
           else if br_return_ifindex flow = 0 \<or> \<not> unicast_mac (br_source_mac flow)
              \<or> \<not> unicast_mac (br_destination_mac flow)
           then (TC_ACT_PIPE, s, backend_bump (\<lambda>st. st\<lparr>bs_unsupported := bs_unsupported st + 1\<rparr>) d)
           else
           let macs = br_destination_mac flow @ br_source_mac flow in
           (case env_store env s 0 macs of
              None \<Rightarrow> (TC_ACT_SHOT, s,
                backend_bump (\<lambda>st. st\<lparr>bs_mutation_error := bs_mutation_error st + 1\<rparr>) d)
            | Some s1 \<Rightarrow>
              if sk_ifindex s1 = br_return_ifindex flow
              then (TC_ACT_PIPE, s1, backend_bump (\<lambda>st. st\<lparr>bs_submitted := bs_submitted st + 1\<rparr>) d)
              else
              let action = env_redirect env (br_return_ifindex flow) in
              if action = TC_ACT_REDIRECT
              then (action, s1, backend_bump (\<lambda>st. st\<lparr>bs_submitted := bs_submitted st + 1\<rparr>) d)
              else (TC_ACT_SHOT, s1,
                    backend_bump (\<lambda>st. st\<lparr>bs_mutation_error := bs_mutation_error st + 1\<rparr>) d))))"

text \<open>The two entry points; \<open>bpf_ktime_get_ns\<close> is the argument \<open>now\<close>.\<close>

definition backend_return_ingress :: "ebpf_env \<Rightarrow> skb \<Rightarrow> u64 \<Rightarrow> dp \<Rightarrow> tc_action \<times> skb \<times> dp" where
  "backend_return_ingress env s now d = backend_ingress env s now d"

definition backend_return_egress :: "ebpf_env \<Rightarrow> skb \<Rightarrow> u64 \<Rightarrow> dp \<Rightarrow> tc_action \<times> skb \<times> dp" where
  "backend_return_egress env s now d = backend_egress env s now d"

section \<open>Keys of requests and replies\<close>

lemma slice4_nth:
  assumes "take 4 (drop a x) = take 4 (drop b y)" "a + 4 \<le> length x" "b + 4 \<le> length y" "i < 4"
  shows "x ! (a + i) = y ! (b + i)"
proof -
  have "x ! (a + i) = take 4 (drop a x) ! i" using assms(2,4) by simp
  also have "\<dots> = y ! (b + i)" unfolding assms(1) using assms(3,4) by simp
  finally show ?thesis .
qed

lemma reply_key_of_request:
  assumes "take 4 (drop 12 ip2) = take 4 (drop 16 ip)" "take 4 (drop 16 ip2) = take 4 (drop 12 ip)"
    "ip2 ! 9 = ip ! 9" "length ip = 20" "length ip2 = 20"
  shows "reply_key ip2 dport sport = learned_key ip sport dport"
  using slice4_nth[OF assms(1), of 0] slice4_nth[OF assms(1), of 1] slice4_nth[OF assms(1), of 2]
    slice4_nth[OF assms(1), of 3] slice4_nth[OF assms(2), of 0] slice4_nth[OF assms(2), of 1]
    slice4_nth[OF assms(2), of 2] slice4_nth[OF assms(2), of 3] assms(3-5)
  by (simp add: reply_key_def learned_key_def)

section \<open>Properties\<close>

text \<open>A contract and a learned flow hold six-byte MAC arrays.\<close>

definition contract_usable :: "BackendReturnDscp \<Rightarrow> bool" where
  "contract_usable c \<longleftrightarrow> bd_return_ifindex c \<noteq> 0 \<and> unicast_mac (bd_source_mac c) \<and>
     unicast_mac (bd_destination_mac c) \<and> length (bd_source_mac c) = 6 \<and> length (bd_destination_mac c) = 6"

text \<open>C9.  A backend returns replies to the gateway that sent the request: after an accepted request
  with a DSCP value the gateway contract knows, a reply with the endpoints swapped that leaves before
  the learned entry expires and is not dropped carries the contract's MAC addresses, is otherwise
  unchanged, and goes to the contract's device (redirected, or passed on when it leaves by that
  device already).\<close>

theorem backend_reply_returns_to_gateway:
  assumes "store_writes env" "lru_insert (env_backend_insert env)"
    and request: "backend_parse env s = Some (eth, ip, sport, dport)"
      "dp_backend_dscp d (ucast (drop_bit 2 (ip ! 1))) = Some c" "contract_usable c"
      "backend_return_ingress env s now d = (a, s', d')"
    and reply: "backend_parse env q = Some (eth2, ip2, dport, sport)"
      "take 4 (drop 12 ip2) = take 4 (drop 16 ip)" "take 4 (drop 16 ip2) = take 4 (drop 12 ip)"
      "ip2 ! 9 = ip ! 9" "length ip = 20" "length ip2 = 20"
      "now2 < saturating_add now BACKEND_RETURN_FLOW_TTL_NS"
      "backend_return_egress env q now2 d' = (b, q', d2)" "b \<noteq> TC_ACT_SHOT"
  shows "take 12 (sk_data q') = bd_destination_mac c @ bd_source_mac c \<and> changes_only {0..<12} q q' \<and>
    (if sk_ifindex q = bd_return_ifindex c then b = TC_ACT_PIPE
     else b = TC_ACT_REDIRECT \<and> env_redirect env (bd_return_ifindex c) = TC_ACT_REDIRECT)"
proof -
  let ?f = "\<lparr>br_expires_ns = saturating_add now BACKEND_RETURN_FLOW_TTL_NS,
                 br_return_ifindex = bd_return_ifindex c, br_source_mac = bd_source_mac c,
                 br_destination_mac = bd_destination_mac c, br_pad = [0, 0]\<rparr>"
  have "dp_backend_flows d' (learned_key ip sport dport) = Some ?f"
    using request assms(2)
    by (auto simp: backend_return_ingress_def backend_ingress_def Let_def contract_usable_def
        backend_bump_def lru_insert_def)
  then have f: "dp_backend_flows d' (reply_key ip2 dport sport) = Some ?f"
    using reply_key_of_request[OF reply(2-6)] by simp
  note e = reply(8)[unfolded backend_return_egress_def backend_egress_def reply(1) Let_def]
  have u: "contract_usable c" by (rule request(3))
  have n: "\<not> saturating_add now BACKEND_RETURN_FLOW_TTL_NS \<le> now2" using reply(7) by (simp add: not_le)
  obtain q1 where q1: "env_store env q 0 (bd_destination_mac c @ bd_source_mac c) = Some q1"
    using e f n reply(9) u
    by (cases "env_store env q 0 (bd_destination_mac c @ bd_source_mac c)")
       (auto simp: contract_usable_def)
  have r: "q' = q1" "if sk_ifindex q1 = bd_return_ifindex c then b = TC_ACT_PIPE
     else b = TC_ACT_REDIRECT \<and> env_redirect env (bd_return_ifindex c) = TC_ACT_REDIRECT"
    using e f n reply(9) u q1 by (auto simp: contract_usable_def split: if_splits)
  have l: "length (bd_destination_mac c @ bd_source_mac c) = 12" using u by (simp add: contract_usable_def)
  have i: "sk_ifindex q1 = sk_ifindex q" using store_writesD[OF assms(1) q1] by simp
  show ?thesis
    using store_changes[OF assms(1) q1 subset_refl] r l i by simp
qed

text \<open>The demo request with DSCP 46, its reply, and the contract for that DSCP value.\<close>

definition request_skb :: skb where
  "request_skb = demo_skb\<lparr>sk_data := (sk_data demo_skb)[15 := 184]\<rparr>"

definition reply_skb :: skb where
  "reply_skb = demo_skb\<lparr>sk_data := [2,0,0,0,0,1, 2,0,0,0,0,2, 8,0,
       0x45,0,0,28, 0,0,0,0, 64,17,0x66,0xcf, 10,0,0,2, 10,0,0,1, 0,80,0x11,0x11, 0,8,0,0]\<rparr>"

definition gateway_contract :: BackendReturnDscp where
  "gateway_contract = \<lparr>bd_flags = 0, bd_return_ifindex = 9, bd_source_mac = [2,0,0,0,0,5],
     bd_destination_mac = [2,0,0,0,0,6]\<rparr>"

definition backend_dp :: dp where
  "backend_dp = fresh_dp\<lparr>dp_backend_dscp := [46 \<mapsto> gateway_contract]\<rparr>"

lemma backend_parse_demo:
  "backend_parse plain_env request_skb = Some (take 14 (sk_data request_skb), ip_header request_skb, 0x1111, 80)"
  "backend_parse plain_env reply_skb = Some (take 14 (sk_data reply_skb), ip_header reply_skb, 80, 0x1111)"
  by (simp_all add: backend_parse_def plain_env_def request_skb_def reply_skb_def demo_skb_def be16_def Let_def)

lemma backend_egress_demo:
  "fst (backend_return_egress plain_env reply_skb 6 (snd (snd (backend_return_ingress plain_env request_skb 5 backend_dp))))
     = TC_ACT_REDIRECT"
proof -
  have k: "reply_key (ip_header reply_skb) 80 0x1111 = learned_key (ip_header request_skb) 0x1111 80"
    by (simp add: reply_key_def learned_key_def reply_skb_def request_skb_def demo_skb_def)
  have c': "dp_backend_dscp backend_dp (ucast (drop_bit 2 (drop 14 (sk_data request_skb) ! Suc 0))) = Some gateway_contract"
    by (simp add: backend_dp_def request_skb_def demo_skb_def)
  have e: "env_backend_insert plain_env m x y = m(x \<mapsto> y)" "env_redirect plain_env i = TC_ACT_REDIRECT"
    "env_store plain_env s' off bs = (if off + length bs \<le> length (sk_data s')
     then Some (s'\<lparr>sk_data := splice off bs (sk_data s')\<rparr>) else None)" for m x y i s' off bs
    by (simp_all add: plain_env_def)
  have g: "bd_return_ifindex gateway_contract = 9" "unicast_mac (bd_source_mac gateway_contract)"
    "unicast_mac (bd_destination_mac gateway_contract)" "length (bd_source_mac gateway_contract) = 6"
    "length (bd_destination_mac gateway_contract) = 6"
    by (simp_all add: gateway_contract_def unicast_mac_def replicate_6)
  have t: "\<not> saturating_add 5 BACKEND_RETURN_FLOW_TTL_NS \<le> (6 :: u64)"
    by (simp add: word_le_nat_alt unat_saturating_add)
  have s: "length (sk_data reply_skb) = 42" "sk_ifindex reply_skb = 3" by (simp_all add: reply_skb_def demo_skb_def)
  show ?thesis
    by (simp add: backend_return_egress_def backend_egress_def backend_return_ingress_def backend_ingress_def
        backend_parse_demo c' g Let_def backend_bump_def k t s e)
qed

theorem backend_reply_returns_to_gateway_witness:
  "take 12 (sk_data (fst (snd (backend_return_egress plain_env reply_skb 6
      (snd (snd (backend_return_ingress plain_env request_skb 5 backend_dp)))))))
    = [2,0,0,0,0,6, 2,0,0,0,0,5]"
proof -
  let ?i = "backend_return_ingress plain_env request_skb 5 backend_dp"
  let ?e = "backend_return_egress plain_env reply_skb 6 (snd (snd ?i))"
  have i: "?i = (fst ?i, fst (snd ?i), snd (snd ?i))" by simp
  have e: "?e = (fst ?e, fst (snd ?e), snd (snd ?e))" by simp
  have s: "fst ?e \<noteq> TC_ACT_SHOT" using backend_egress_demo by simp
  have c: "dp_backend_dscp backend_dp (ucast (drop_bit 2 (ip_header request_skb ! 1))) = Some gateway_contract"
    by (simp add: backend_dp_def request_skb_def demo_skb_def)
  have u: "contract_usable gateway_contract"
    by (simp add: contract_usable_def gateway_contract_def unicast_mac_def replicate_6)
  have k: "(6 :: u64) < saturating_add 5 BACKEND_RETURN_FLOW_TTL_NS"
    by (simp add: word_less_nat_alt unat_saturating_add)
  show ?thesis
    using backend_reply_returns_to_gateway[OF _ _ backend_parse_demo(1) c u i backend_parse_demo(2) _ _ _ _ _ k e s]
    by (simp add: request_skb_def reply_skb_def demo_skb_def gateway_contract_def)
qed

end
