(* ===== verification/Rust_Std.thy ===== *)
theory Rust_Std
  imports Prelude "HOL-Library.Monad_Syntax"
begin

text \<open>
  The part of the Rust standard library that the control plane computes with: ASCII string
  functions, integer parsing and printing, and the parser and printer of \<^verbatim>\<open>std::net\<close> addresses.
  A \<^verbatim>\<open>String\<close> is the list of its bytes; configuration strings are ASCII, so \<open>trim\<close> strips the ASCII
  members of the Unicode whitespace class.  Parsers return \<open>None\<close> where the library returns \<open>Err\<close>.
  Nothing in this theory models a file of the repository.
\<close>

section \<open>Strings\<close>

abbreviation code :: "char \<Rightarrow> nat" where
  "code \<equiv> of_char"

definition is_space :: "char \<Rightarrow> bool" where
  "is_space c \<longleftrightarrow> code c = 32 \<or> (9 \<le> code c \<and> code c \<le> 13)"

definition trim :: "string \<Rightarrow> string" where
  "trim s = rev (dropWhile is_space (rev (dropWhile is_space s)))"

definition ascii_lower :: "char \<Rightarrow> char" where
  "ascii_lower c = (if 65 \<le> code c \<and> code c \<le> 90 then char_of (code c + 32) else c)"

definition to_ascii_lowercase :: "string \<Rightarrow> string" where
  "to_ascii_lowercase s = map ascii_lower s"

definition eq_ignore_ascii_case :: "string \<Rightarrow> string \<Rightarrow> bool" where
  "eq_ignore_ascii_case s t \<longleftrightarrow> to_ascii_lowercase s = to_ascii_lowercase t"

fun split_once :: "char \<Rightarrow> string \<Rightarrow> (string \<times> string) option" where
  "split_once c [] = None"
| "split_once c (x # xs) =
     (if x = c then Some ([], xs) else map_option (apfst ((#) x)) (split_once c xs))"

definition rsplit_once :: "char \<Rightarrow> string \<Rightarrow> (string \<times> string) option" where
  "rsplit_once c s = map_option (\<lambda>(a, b). (rev b, rev a)) (split_once c (rev s))"

definition starts_with :: "string \<Rightarrow> string \<Rightarrow> bool" where
  "starts_with pre s \<longleftrightarrow> take (length pre) s = pre"

lemma split_once_append: "c \<notin> set a \<Longrightarrow> split_once c (a @ c # b) = Some (a, b)"
  by (induction a) auto

lemma split_once_Some: "split_once c s = Some (a, b) \<Longrightarrow> s = a @ c # b \<and> c \<notin> set a"
  by (induction s arbitrary: a) (auto split: if_splits)

lemma split_once_None: "split_once c s = None \<longleftrightarrow> c \<notin> set s"
  by (induction s) auto

lemma dropWhile_rev_dropWhile:
  "dropWhile P (rev (dropWhile P (rev (dropWhile P s)))) = rev (dropWhile P (rev (dropWhile P s)))"
proof (cases "dropWhile P s")
  case (Cons x xs)
  then have x: "\<not> P x" by (metis hd_dropWhile list.distinct(1) list.sel(1))
  have "dropWhile P (rev (x # xs)) = (if \<forall>y\<in>set xs. P y then [x] else dropWhile P (rev xs) @ [x])"
    using x dropWhile_append2 [of "rev xs" P "[x]"] dropWhile_append1 [of _ "rev xs" P "[x]"] by auto
  then show ?thesis using Cons x by auto
next
  case Nil
  then show ?thesis by (simp only: rev.simps dropWhile.simps)
qed

lemma trim_trim [simp]: "trim (trim s) = trim s"
  by (simp add: trim_def dropWhile_rev_dropWhile)

lemma trim_Nil [simp]: "trim [] = []"
  by (simp add: trim_def)

section \<open>Integers\<close>

definition to_digit :: "nat \<Rightarrow> char \<Rightarrow> nat option" where
  "to_digit radix c =
     (let d = (if 48 \<le> code c \<and> code c \<le> 57 then code c - 48
               else if 97 \<le> code c \<and> code c \<le> 122 then code c - 87
               else if 65 \<le> code c \<and> code c \<le> 90 then code c - 55 else radix)
      in if d < radix then Some d else None)"

definition digits_value :: "nat \<Rightarrow> nat list \<Rightarrow> nat" where
  "digits_value radix ds = foldl (\<lambda>v d. v * radix + d) 0 ds"

text \<open>\<^verbatim>\<open>str::parse\<close> for an unsigned integer type below \<open>bound\<close>.\<close>

definition parse_uint :: "nat \<Rightarrow> string \<Rightarrow> nat option" where
  "parse_uint bound s =
     (let t = (case s of c # rest \<Rightarrow> if c = CHR ''+'' then rest else s | [] \<Rightarrow> []) in
      if t = [] then None
      else if \<exists>c\<in>set t. to_digit 10 c = None then None
      else let v = digits_value 10 (map (the \<circ> to_digit 10) t) in if v < bound then Some v else None)"

definition parse_u8 :: "string \<Rightarrow> u8 option" where
  "parse_u8 s = map_option of_nat (parse_uint (2 ^ 8) s)"

definition parse_u16 :: "string \<Rightarrow> u16 option" where
  "parse_u16 s = map_option of_nat (parse_uint (2 ^ 16) s)"

definition digit_char :: "nat \<Rightarrow> char" where
  "digit_char d = char_of (48 + d)"

function show_nat :: "nat \<Rightarrow> string" where
  "show_nat n = (if n < 10 then [digit_char n] else show_nat (n div 10) @ [digit_char (n mod 10)])"
  by auto
termination by (relation "measure id") auto

declare show_nat.simps [simp del]

lemma show_nat_lt10 [simp]: "n < 10 \<Longrightarrow> show_nat n = [digit_char n]"
  by (simp add: show_nat.simps [of n])

lemma show_nat_ge10: "\<not> n < 10 \<Longrightarrow> show_nat n = show_nat (n div 10) @ [digit_char (n mod 10)]"
  by (simp add: show_nat.simps [of n])

lemma to_digit_char [simp]: "d < 10 \<Longrightarrow> to_digit 10 (digit_char d) = Some d"
  by (simp add: to_digit_def digit_char_def Let_def)

lemma show_nat_nonempty [simp]: "show_nat n \<noteq> []"
  by (cases "n < 10") (simp_all add: show_nat_ge10)

lemma show_nat_digits: "c \<in> set (show_nat n) \<Longrightarrow> \<exists>d<10. c = digit_char d"
proof (induction n rule: show_nat.induct)
  case (1 n)
  have "\<exists>d<10. digit_char (n mod 10) = digit_char d" by (rule exI [of _ "n mod 10"]) simp
  with 1 show ?case by (cases "n < 10") (auto simp: show_nat_ge10)
qed

lemma show_nat_value: "digits_value 10 (map (the \<circ> to_digit 10) (show_nat n)) = n"
proof (induction n rule: show_nat.induct)
  case (1 n)
  then show ?case
    by (cases "n < 10") (simp_all add: show_nat_ge10 digits_value_def)
qed

lemma length_show_nat: "n < 10 ^ k \<Longrightarrow> 0 < k \<Longrightarrow> length (show_nat n) \<le> k"
proof (induction n arbitrary: k rule: show_nat.induct)
  case (1 n)
  show ?case
  proof (cases "n < 10")
    case True
    then show ?thesis using 1(3) by simp
  next
    case False
    then obtain j where k: "k = Suc j" "0 < j"
      using 1(2,3) by (cases k; cases "k - 1") auto
    have "n div 10 < 10 ^ j" using 1(2) k by (simp add: less_mult_imp_div_less mult.commute)
    then have "length (show_nat (n div 10)) \<le> j" using 1(1) False k by simp
    then show ?thesis using False k by (simp add: show_nat_ge10)
  qed
qed

lemma show_nat_hd_zero: "hd (show_nat n) = digit_char 0 \<Longrightarrow> n = 0"
proof (induction n rule: show_nat.induct)
  case (1 n)
  show ?case
  proof (cases "n < 10")
    case True
    then have "to_digit 10 (digit_char n) = to_digit 10 (digit_char 0)" using 1(2) by simp
    then show ?thesis using True by simp
  next
    case False
    then have "hd (show_nat (n div 10)) = digit_char 0"
      using 1(2) by (simp add: show_nat_ge10)
    then have "n div 10 = 0" using 1(1) False by simp
    then show ?thesis using False by simp
  qed
qed

lemma parse_uint_show_nat: "n < bound \<Longrightarrow> parse_uint bound (show_nat n) = Some n"
proof -
  assume n: "n < bound"
  have plus: "digit_char d \<noteq> CHR ''+''" if "d < 10" for d
    using to_digit_char [OF that] by (auto simp: to_digit_def)
  obtain c rest where s: "show_nat n = c # rest" by (cases "show_nat n") auto
  then have plus': "c \<noteq> CHR ''+''" using show_nat_digits [of c n] plus by auto
  have "\<forall>c\<in>set (show_nat n). to_digit 10 c \<noteq> None"
    using show_nat_digits by fastforce
  then have "\<not> (\<exists>c\<in>set (c # rest). to_digit 10 c = None)" using s by simp
  moreover have "digits_value 10 (map (the \<circ> to_digit 10) (c # rest)) = n"
    using show_nat_value [of n] s by simp
  ultimately show ?thesis
    unfolding parse_uint_def Let_def s list.case if_not_P [OF plus']
    using n by (simp only: if_False if_True list.distinct)
qed

section \<open>Addresses\<close>

datatype IpAddr = V4 u32 | V6 "128 word"

definition is_unspecified :: "IpAddr \<Rightarrow> bool" where
  "is_unspecified ip = (case ip of V4 a \<Rightarrow> a = 0 | V6 a \<Rightarrow> a = 0)"

definition is_loopback :: "IpAddr \<Rightarrow> bool" where
  "is_loopback ip = (case ip of V4 a \<Rightarrow> drop_bit 24 a = 127 | V6 a \<Rightarrow> a = 1)"

definition is_ipv4 :: "IpAddr \<Rightarrow> bool" where
  "is_ipv4 ip = (case ip of V4 _ \<Rightarrow> True | V6 _ \<Rightarrow> False)"

text \<open>The derived order on \<^verbatim>\<open>IpAddr\<close>: IPv4 before IPv6, then the octets in network order.\<close>

instantiation IpAddr :: linorder
begin

definition less_eq_IpAddr :: "IpAddr \<Rightarrow> IpAddr \<Rightarrow> bool" where
  "less_eq_IpAddr x y =
     (case (x, y) of (V4 a, V4 b) \<Rightarrow> a \<le> b | (V6 a, V6 b) \<Rightarrow> a \<le> b | (V4 _, V6 _) \<Rightarrow> True | (V6 _, V4 _) \<Rightarrow> False)"

definition less_IpAddr :: "IpAddr \<Rightarrow> IpAddr \<Rightarrow> bool" where
  "less_IpAddr x y \<longleftrightarrow> x \<le> y \<and> \<not> y \<le> x"

instance
  by standard (auto simp: less_eq_IpAddr_def less_IpAddr_def split: IpAddr.splits)

end

text \<open>A parser consumes a prefix of its input.\<close>

type_synonym 'a reader = "string \<Rightarrow> ('a \<times> string) option"

fun read_given_char :: "char \<Rightarrow> unit reader" where
  "read_given_char c [] = None"
| "read_given_char c (x # xs) = (if x = c then Some ((), xs) else None)"

fun read_digits :: "nat \<Rightarrow> string \<Rightarrow> nat list \<times> string" where
  "read_digits radix [] = ([], [])"
| "read_digits radix (c # cs) =
     (case to_digit radix c of
        None \<Rightarrow> ([], c # cs)
      | Some d \<Rightarrow> (case read_digits radix cs of (ds, rest) \<Rightarrow> (d # ds, rest)))"

definition read_number :: "nat \<Rightarrow> nat option \<Rightarrow> bool \<Rightarrow> nat \<Rightarrow> nat reader" where
  "read_number radix max_digits allow_zero_prefix bound s =
     (case read_digits radix s of
        (ds, rest) \<Rightarrow>
          if ds = [] then None
          else if (case max_digits of Some k \<Rightarrow> k < length ds | None \<Rightarrow> False) then None
          else if \<not> allow_zero_prefix \<and> hd ds = 0 \<and> 1 < length ds then None
          else if digits_value radix ds < bound then Some (digits_value radix ds, rest) else None)"

abbreviation read_octet :: "nat reader" where
  "read_octet \<equiv> read_number 10 (Some 3) False 256"

definition ipv4_of_octets :: "nat \<Rightarrow> nat \<Rightarrow> nat \<Rightarrow> nat \<Rightarrow> u32" where
  "ipv4_of_octets a b c d = be32 (of_nat a) (of_nat b) (of_nat c) (of_nat d)"

definition read_ipv4_addr :: "u32 reader" where
  "read_ipv4_addr s = do {
     (a, s1) \<leftarrow> read_octet s;
     (_, s2) \<leftarrow> read_given_char CHR ''.'' s1;
     (b, s3) \<leftarrow> read_octet s2;
     (_, s4) \<leftarrow> read_given_char CHR ''.'' s3;
     (c, s5) \<leftarrow> read_octet s4;
     (_, s6) \<leftarrow> read_given_char CHR ''.'' s5;
     (d, s7) \<leftarrow> read_octet s6;
     Some (ipv4_of_octets a b c d, s7)
   }"

text \<open>The groups of an IPv6 address, at most the given number of them; the flag says that the last
  two come from an embedded IPv4 address.\<close>

fun read_groups :: "nat \<Rightarrow> bool \<Rightarrow> string \<Rightarrow> nat list \<times> bool \<times> string" where
  "read_groups 0 first s = ([], False, s)"
| "read_groups (Suc k) first s =
     (let start = (if first then Some s else map_option snd (read_given_char CHR '':'' s)) in
      case (if 0 < k then Option.bind start read_ipv4_addr else None) of
        Some (a, rest) \<Rightarrow> ([unat a div 65536, unat a mod 65536], True, rest)
      | None \<Rightarrow>
          (case Option.bind start (read_number 16 (Some 4) True 65536) of
             Some (g, rest) \<Rightarrow> (case read_groups k False rest of (gs, v4, r) \<Rightarrow> (g # gs, v4, r))
           | None \<Rightarrow> ([], False, s)))"

definition ipv6_of_groups :: "nat list \<Rightarrow> 128 word" where
  "ipv6_of_groups gs = of_nat (digits_value 65536 gs)"

definition read_ipv6_addr :: "(128 word) reader" where
  "read_ipv6_addr s =
     (case read_groups 8 True s of
        (head, head_ipv4, s1) \<Rightarrow>
          if length head = 8 then Some (ipv6_of_groups head, s1)
          else if head_ipv4 then None
          else do {
            (_, s2) \<leftarrow> read_given_char CHR '':'' s1;
            (_, s3) \<leftarrow> read_given_char CHR '':'' s2;
            (case read_groups (7 - length head) True s3 of
               (tail, _, s4) \<Rightarrow>
                 Some (ipv6_of_groups (head @ replicate (8 - length head - length tail) 0 @ tail), s4))
          })"

definition parse_ip_addr :: "string \<Rightarrow> IpAddr option" where
  "parse_ip_addr s =
     (case (case read_ipv4_addr s of
              Some (a, rest) \<Rightarrow> Some (V4 a, rest)
            | None \<Rightarrow> map_option (apfst V6) (read_ipv6_addr s)) of
        Some (ip, []) \<Rightarrow> Some ip
      | _ \<Rightarrow> None)"

text \<open>\<^verbatim>\<open>SocketAddr::from_str\<close>: an IPv4 address or a bracketed IPv6 address with an optional scope id,
  followed by a port.\<close>

definition read_port :: "nat reader" where
  "read_port s = do {
     (_, s1) \<leftarrow> read_given_char CHR '':'' s;
     read_number 10 None True 65536 s1
   }"

definition read_scope_id :: "string \<Rightarrow> string" where
  "read_scope_id s =
     (case Option.bind (read_given_char CHR ''%'' s) (\<lambda>(_, s1). read_number 10 None True (2 ^ 32) s1) of
        Some (_, rest) \<Rightarrow> rest
      | None \<Rightarrow> s)"

definition read_socket_v4 :: "(IpAddr \<times> u16) reader" where
  "read_socket_v4 s = do {
     (a, s1) \<leftarrow> read_ipv4_addr s;
     (p, s2) \<leftarrow> read_port s1;
     Some ((V4 a, of_nat p), s2)
   }"

definition read_socket_v6 :: "(IpAddr \<times> u16) reader" where
  "read_socket_v6 s = do {
     (_, s1) \<leftarrow> read_given_char CHR ''['' s;
     (a, s2) \<leftarrow> read_ipv6_addr s1;
     (_, s3) \<leftarrow> read_given_char CHR '']'' (read_scope_id s2);
     (p, s4) \<leftarrow> read_port s3;
     Some ((V6 a, of_nat p), s4)
   }"

definition parse_socket_addr :: "string \<Rightarrow> (IpAddr \<times> u16) option" where
  "parse_socket_addr s =
     (case (case read_socket_v4 s of Some r \<Rightarrow> Some r | None \<Rightarrow> read_socket_v6 s) of
        Some (addr, []) \<Rightarrow> Some addr
      | _ \<Rightarrow> None)"

section \<open>Printing addresses\<close>

definition octet :: "nat \<Rightarrow> u32 \<Rightarrow> nat" where
  "octet i a = unat a div 256 ^ (3 - i) mod 256"

definition show_ipv4 :: "u32 \<Rightarrow> string" where
  "show_ipv4 a = show_nat (octet 0 a) @ CHR ''.'' # show_nat (octet 1 a) @ CHR ''.'' #
     show_nat (octet 2 a) @ CHR ''.'' # show_nat (octet 3 a)"

function show_hex :: "nat \<Rightarrow> string" where
  "show_hex n = (let d = char_of (if n mod 16 < 10 then 48 + n mod 16 else 87 + n mod 16) in
     if n < 16 then [d] else show_hex (n div 16) @ [d])"
  by auto
termination by (relation "measure id") auto

declare show_hex.simps [simp del]

definition segments :: "128 word \<Rightarrow> nat list" where
  "segments a = map (\<lambda>i. unat a div 65536 ^ (7 - i) mod 65536) [0..<8]"

fun show_groups :: "nat list \<Rightarrow> string" where
  "show_groups [] = []"
| "show_groups [g] = show_hex g"
| "show_groups (g # gs) = show_hex g @ CHR '':'' # show_groups gs"

text \<open>The first longest run of zero groups, as (start, length).\<close>

definition zero_run :: "nat list \<Rightarrow> nat \<times> nat" where
  "zero_run gs = foldl (\<lambda>best i. let n = length (takeWhile ((=) 0) (drop i gs)) in
     if snd best < n then (i, n) else best) (0, 0) [0..<length gs]"

definition show_ipv6 :: "128 word \<Rightarrow> string" where
  "show_ipv6 a =
     (let gs = segments a in
      if take 6 gs = [0, 0, 0, 0, 0, 65535]
      then ''::ffff:'' @ show_ipv4 (ucast a)
      else case zero_run gs of (start, len) \<Rightarrow>
        if 1 < len then show_groups (take start gs) @ ''::'' @ show_groups (drop (start + len) gs)
        else show_groups gs)"

definition show_ip :: "IpAddr \<Rightarrow> string" where
  "show_ip ip = (case ip of V4 a \<Rightarrow> show_ipv4 a | V6 a \<Rightarrow> show_ipv6 a)"

lemma read_digits_append:
  "\<forall>c\<in>set s. to_digit radix c \<noteq> None \<Longrightarrow>
   (case rest of [] \<Rightarrow> True | c # _ \<Rightarrow> to_digit radix c = None) \<Longrightarrow>
   read_digits radix (s @ rest) = (map (the \<circ> to_digit radix) s, rest)"
  by (induction s) (auto split: list.splits)

lemma read_octet_show:
  assumes n: "n < 256" and rest: "case rest of [] \<Rightarrow> True | c # _ \<Rightarrow> to_digit 10 c = None"
  shows "read_octet (show_nat n @ rest) = Some (n, rest)"
proof -
  have digits: "read_digits 10 (show_nat n @ rest) = (map (the \<circ> to_digit 10) (show_nat n), rest)"
    by (rule read_digits_append [OF _ rest]) (use show_nat_digits in fastforce)
  have len: "length (show_nat n) \<le> 3" using n by (intro length_show_nat) auto
  have zero: "n = 0" if "hd (map (the \<circ> to_digit 10) (show_nat n)) = 0"
  proof -
    have "hd (show_nat n) \<in> set (show_nat n)" by simp
    then obtain d where d: "d < 10" "hd (show_nat n) = digit_char d"
      using show_nat_digits by blast
    with that have "d = 0" by (simp add: hd_map)
    with d show ?thesis using show_nat_hd_zero by simp
  qed
  have "\<not> (hd (map (the \<circ> to_digit 10) (show_nat n)) = 0 \<and> 1 < length (show_nat n))"
    using zero by auto
  with len show ?thesis
    unfolding read_number_def digits using n show_nat_value [of n] by (simp del: list.map_comp map_map)
qed

lemma octet_lt [simp]: "octet i a < 256"
  by (simp add: octet_def)

lemma octet_ucast:
  "of_nat (octet 0 a) = (ucast (drop_bit 24 a) :: u8)" "of_nat (octet 1 a) = (ucast (drop_bit 16 a) :: u8)"
  "of_nat (octet 2 a) = (ucast (drop_bit 8 a) :: u8)" "of_nat (octet 3 a) = (ucast a :: u8)"
  by (simp_all add: octet_def word_unat_eq_iff unat_of_nat unsigned_ucast_eq unsigned_drop_bit_eq
      drop_bit_eq_div take_bit_eq_mod mod_mult2_eq [symmetric] unat_div)

lemma read_ipv4_addr_show:
  "case rest of [] \<Rightarrow> True | c # _ \<Rightarrow> to_digit 10 c = None \<Longrightarrow>
   read_ipv4_addr (show_ipv4 a @ rest) = Some (a, rest)"
proof -
  assume rest: "case rest of [] \<Rightarrow> True | c # _ \<Rightarrow> to_digit 10 c = None"
  have dot: "to_digit 10 CHR ''.'' = None" by (simp add: to_digit_def)
  have "read_octet (show_nat n @ CHR ''.'' # t) = Some (n, CHR ''.'' # t)" if "n < 256" for n t
    using that dot by (intro read_octet_show) auto
  then show ?thesis
    using read_octet_show [OF octet_lt rest, of 3 a]
    by (simp add: read_ipv4_addr_def show_ipv4_def ipv4_of_octets_def octet_ucast octet_ucast(2) [unfolded One_nat_def])
qed

lemma parse_ip_addr_show [simp]: "parse_ip_addr (show_ipv4 a) = Some (V4 a)"
  using read_ipv4_addr_show [of "[]" a] by (simp add: parse_ip_addr_def)

lemma show_ipv4_inj [simp]: "show_ipv4 a = show_ipv4 b \<longleftrightarrow> a = b"
  by (metis parse_ip_addr_show IpAddr.inject(1) option.inject)

lemma slash_notin_show_nat: "CHR ''/'' \<notin> set (show_nat n)"
proof
  assume "CHR ''/'' \<in> set (show_nat n)"
  then obtain d where "d < 10" "CHR ''/'' = digit_char d" using show_nat_digits by blast
  then have "to_digit 10 CHR ''/'' = Some d" by simp
  then show False by (simp add: to_digit_def)
qed

lemma slash_notin_show_ipv4 [simp]: "CHR ''/'' \<notin> set (show_ipv4 a)"
  by (simp add: show_ipv4_def slash_notin_show_nat)

lemma parse_ip_addr_Nil [simp]: "parse_ip_addr [] = None"
  by code_simp

lemma parse_ip_addr_example: "parse_ip_addr ''192.0.2.11'' = Some (V4 0xC000020B)"
  by code_simp

end
