(* ===== verification/Config_Model.thy ===== *)
theory Config_Model
  imports Common Rust_Std "HOL-Library.Char_ord" "HOL-Library.Multiset" "HOL-Library.List_Lexorder" "HOL-Library.Product_Lexorder"
begin

text \<open>
  The configuration model of \<^verbatim>\<open>edge-lb/src/config/model.rs\<close> and the derivations of
  \<^verbatim>\<open>edge-lb/src/config/mod.rs\<close>: the structs with the source's fields, their default values, the marks,
  route tables and slots of the return paths, and the effective node inventory.  Serde attributes
  (the TOML syntax of a field) are not modelled; \<^verbatim>\<open>usize\<close> is \<open>nat\<close>.
\<close>

section \<open>Data\<close>

datatype NodeRole = Backend | Gateway

datatype Protocol = ProtocolTcp | ProtocolUdp

datatype LbSelect = Rr | Hash | ConsistentHash | Priority | Persist | Lc

primrec select_code :: "LbSelect \<Rightarrow> u32" where
  "select_code Rr = NATIVE_SELECT_RR"
| "select_code Hash = NATIVE_SELECT_HASH"
| "select_code ConsistentHash = NATIVE_SELECT_CONSISTENT_HASH"
| "select_code Priority = NATIVE_SELECT_PRIORITY"
| "select_code Persist = NATIVE_SELECT_PERSIST"
| "select_code Lc = NATIVE_SELECT_LC"

datatype LbMode = LbModeDefault

datatype ActiveSource = SourceFile | SourceManual | SourceXds | SourceHttp

datatype ControlPlaneMode = ModeFile | ModeXds

record GatewayNode =
  gn_name :: string
  gn_public_ip :: IpAddr
  gn_underlay_ip :: IpAddr
  gn_overlay_ip :: string

record BackendNode =
  bn_name :: string
  bn_public_ip :: IpAddr
  bn_underlay_ip :: IpAddr
  bn_overlay_ip :: string

record GatewayReturnPath =
  grp_gateway :: "string option"
  grp_gateway_underlay_ip :: IpAddr
  grp_gateway_overlay_ip :: IpAddr
  grp_backend_overlay_ip :: "string option"
  grp_dscp :: u32
  grp_mark :: u32
  grp_route_table_id :: u32

record BackendTarget =
  bt_backend :: "string option"
  bt_address :: IpAddr
  bt_weight :: u32

record TargetGroup =
  tg_name :: string
  tg_monitor :: bool
  tg_probe_type :: "string option"
  tg_probe_port :: "u16 option"
  tg_probe_req :: "string option"
  tg_probe_resp :: "string option"
  tg_probe_skip_tls_verify :: bool
  tg_period_secs :: "u32 option"
  tg_retries :: "u32 option"
  tg_targets :: "BackendTarget list"

record Listener =
  ls_name :: string
  ls_port :: u16
  ls_target_port :: u16
  ls_target_group :: string
  ls_vip_ips :: "IpAddr list"
  ls_protocols :: "Protocol list"
  ls_select :: LbSelect
  ls_mode :: LbMode
  ls_inactive_timeout :: "u32 option"

record ControlPlaneConfig =
  cpc_enabled :: bool
  cpc_mode :: ControlPlaneMode
  cpc_listen :: string
  cpc_gateway_port :: "u16 option"
  cpc_token :: "string option"
  cpc_trusted_source_cidrs :: "string list"

record HaConfig =
  hac_active_source :: ActiveSource
  hac_watch_interval_secs :: u64

record NetworkConfig =
  nw_gateway_public_ip :: IpAddr
  nw_gateway_ip :: IpAddr
  nw_standby_gateway_ip :: "IpAddr option"
  nw_backend_public_ip :: "IpAddr option"
  nw_backend_ip :: "IpAddr option"
  nw_overlay_cidr :: string
  nw_underlay_dev :: string
  nw_vxlan_dev :: string
  nw_vni :: u32
  nw_vxlan_port :: u16
  nw_vxlan_mtu :: u32
  nw_vxlan_mtu_auto :: bool
  nw_dscp :: u32

record IpDiscoveryConfig =
  idc_public_ip_env :: "string option"
  idc_underlay_ip_env :: "string option"
  idc_underlay_dev_env :: "string option"
  idc_stun_servers :: "string list"
  idc_udp_probe_addr :: string

record ApiConfig =
  api_listen :: string
  api_auth_token :: "string option"
  api_trusted_source_cidrs :: "string list"

record GatewayReconcileConfig =
  grc_interval_secs :: u64

record GatewayXdsConfig =
  gxc_listen :: string
  gxc_token :: "string option"
  gxc_trusted_source_cidrs :: "string list"

record GatewayMetricsConfig =
  gmc_enabled :: bool
  gmc_listen :: string
  gmc_trusted_source_cidrs :: "string list"

record GatewayFlowPersistenceConfig =
  gfp_enabled :: bool
  gfp_interval_secs :: u64
  gfp_min_remaining_ttl_secs :: u64
  gfp_max_records :: nat
  gfp_restore_on_start :: bool
  gfp_flush_on_shutdown :: bool

record GatewayConfig =
  gwc_xds :: "GatewayXdsConfig option"
  gwc_reconcile :: "GatewayReconcileConfig option"
  gwc_control_plane :: "ControlPlaneConfig option"
  gwc_network :: "NetworkConfig option"
  gwc_api :: "ApiConfig option"
  gwc_metrics :: "GatewayMetricsConfig option"
  gwc_flow_persistence :: "GatewayFlowPersistenceConfig option"
  gwc_overlay_ip :: string
  gwc_dscp_pref :: u16

record BackendXdsConfig =
  bxc_gateway :: string
  bxc_gateways :: "string list"
  bxc_token :: "string option"
  bxc_reconnect_interval_secs :: u64

record BackendReturnPathConfig =
  brc_vxlan_dev :: string
  brc_ct_mark :: u32
  brc_fwmark :: string
  brc_route_table :: string
  brc_route_table_id :: u32
  brc_rule_priority :: u32
  brc_nft_table :: string
  brc_mss :: u32

record BackendControlConfig =
  bcc_source :: ActiveSource
  bcc_reconnect_interval_secs :: u64

record BackendConfig =
  bkc_xds :: "BackendXdsConfig option"
  bkc_return_path :: "BackendReturnPathConfig option"
  bkc_control :: "BackendControlConfig option"
  bkc_control_plane :: "ControlPlaneConfig option"
  bkc_network :: "NetworkConfig option"
  bkc_api :: "ApiConfig option"
  bkc_overlay_ip :: string
  bkc_ct_mark :: u32
  bkc_fwmark :: string
  bkc_route_table :: string
  bkc_route_table_id :: u32
  bkc_rule_priority :: u32
  bkc_nft_table :: string
  bkc_mss :: u32

text \<open>\<open>fc_runtime_discovery\<close>, a report that is filled at run time and never read by the
  configuration code, is left out.\<close>

record FileConfig =
  fc_node_role :: NodeRole
  fc_node_name :: string
  fc_public_ip :: IpAddr
  fc_underlay_ip :: IpAddr
  fc_log_level :: string
  fc_state_dir :: string
  fc_ha :: HaConfig
  fc_network :: NetworkConfig
  fc_discovery :: IpDiscoveryConfig
  fc_gateway_nodes :: "GatewayNode list"
  fc_backend_nodes :: "BackendNode list"
  fc_target_groups :: "TargetGroup list"
  fc_listeners :: "Listener list"
  fc_backend_return_paths :: "GatewayReturnPath list"
  fc_gateway :: GatewayConfig
  fc_backend :: BackendConfig
  fc_api :: ApiConfig
  fc_control_plane :: ControlPlaneConfig

section \<open>Defaults\<close>

definition non_empty_trimmed :: "string \<Rightarrow> string option" where
  "non_empty_trimmed s = (let v = trim s in if v \<noteq> [] then Some v else None)"

text \<open>The arguments are the variable \<^verbatim>\<open>EDGE_LB_NODE_NAME\<close>, the contents of \<^verbatim>\<open>/etc/hostname\<close> and the
  variable \<^verbatim>\<open>HOSTNAME\<close>, where they can be read.\<close>

definition default_node_name :: "string option \<Rightarrow> string option \<Rightarrow> string option \<Rightarrow> string" where
  "default_node_name var_node_name etc_hostname var_hostname =
     (case Option.bind var_node_name non_empty_trimmed of
        Some v \<Rightarrow> v
      | None \<Rightarrow>
          (case Option.bind etc_hostname non_empty_trimmed of
             Some v \<Rightarrow> v
           | None \<Rightarrow> (case Option.bind var_hostname non_empty_trimmed of Some v \<Rightarrow> v | None \<Rightarrow> ''edge-lb-node'')))"

definition default_gateway_overlay :: string where
  "default_gateway_overlay = ''10.255.255.1/24''"

definition old_default_gateway_overlay :: string where
  "old_default_gateway_overlay = ''10.255.255.1/30''"

definition default_backend_overlay :: string where
  "default_backend_overlay = ''10.255.255.2/24''"

definition old_default_backend_overlay :: string where
  "old_default_backend_overlay = ''10.255.255.2/30''"

definition default_gateway_public_ip :: IpAddr where
  "default_gateway_public_ip = V4 (ipv4_of_octets 203 0 113 10)"

definition default_gateway_ip :: IpAddr where
  "default_gateway_ip = V4 (ipv4_of_octets 192 0 2 11)"

definition default_auto_ip :: IpAddr where
  "default_auto_ip = V4 0"

definition default_listener :: Listener where
  "default_listener = \<lparr>ls_name = [], ls_port = 0, ls_target_port = 0, ls_target_group = [],
     ls_vip_ips = [], ls_protocols = [ProtocolTcp], ls_select = Rr, ls_mode = LbModeDefault,
     ls_inactive_timeout = None\<rparr>"

definition default_control_plane_config :: ControlPlaneConfig where
  "default_control_plane_config = \<lparr>cpc_enabled = False, cpc_mode = ModeFile,
     cpc_listen = ''127.0.0.1:22222'', cpc_gateway_port = None, cpc_token = None,
     cpc_trusted_source_cidrs = []\<rparr>"

definition default_ha_config :: HaConfig where
  "default_ha_config = \<lparr>hac_active_source = SourceFile, hac_watch_interval_secs = 3\<rparr>"

definition default_network_config :: NetworkConfig where
  "default_network_config = \<lparr>nw_gateway_public_ip = default_gateway_public_ip,
     nw_gateway_ip = default_gateway_ip, nw_standby_gateway_ip = None, nw_backend_public_ip = None,
     nw_backend_ip = None, nw_overlay_cidr = ''10.255.255.0/24'', nw_underlay_dev = ''auto'',
     nw_vxlan_dev = ''auto'', nw_vni = 100, nw_vxlan_port = 4789, nw_vxlan_mtu = 1450,
     nw_vxlan_mtu_auto = False, nw_dscp = 46\<rparr>"

definition default_ip_discovery_config :: IpDiscoveryConfig where
  "default_ip_discovery_config = \<lparr>idc_public_ip_env = Some ''EDGE_LB_PUBLIC_IP'',
     idc_underlay_ip_env = Some ''EDGE_LB_UNDERLAY_IP'',
     idc_underlay_dev_env = Some ''EDGE_LB_UNDERLAY_DEV'',
     idc_stun_servers = [''stun.l.google.com:19302''], idc_udp_probe_addr = ''8.8.8.8:53''\<rparr>"

definition default_gateway_config :: GatewayConfig where
  "default_gateway_config = \<lparr>gwc_xds = None, gwc_reconcile = None, gwc_control_plane = None,
     gwc_network = None, gwc_api = None, gwc_metrics = None, gwc_flow_persistence = None,
     gwc_overlay_ip = default_gateway_overlay, gwc_dscp_pref = 1\<rparr>"

definition default_flow_persistence_config :: GatewayFlowPersistenceConfig where
  "default_flow_persistence_config = \<lparr>gfp_enabled = False, gfp_interval_secs = 30,
     gfp_min_remaining_ttl_secs = 5, gfp_max_records = 524288, gfp_restore_on_start = True,
     gfp_flush_on_shutdown = True\<rparr>"

definition default_backend_config :: BackendConfig where
  "default_backend_config = \<lparr>bkc_xds = None, bkc_return_path = None, bkc_control = None,
     bkc_control_plane = None, bkc_network = None, bkc_api = None,
     bkc_overlay_ip = default_backend_overlay, bkc_ct_mark = 1, bkc_fwmark = ''0x1/0xff'',
     bkc_route_table = ''edge-return'', bkc_route_table_id = 100, bkc_rule_priority = 100,
     bkc_nft_table = ''edge_lb_return'', bkc_mss = 1410\<rparr>"

definition default_api_config :: ApiConfig where
  "default_api_config = \<lparr>api_listen = ''127.0.0.1:18080'', api_auth_token = None,
     api_trusted_source_cidrs = []\<rparr>"

definition default_file_config :: "string \<Rightarrow> FileConfig" where
  "default_file_config node_name = \<lparr>fc_node_role = Backend, fc_node_name = node_name,
     fc_public_ip = default_auto_ip, fc_underlay_ip = default_auto_ip, fc_log_level = ''info'',
     fc_state_dir = ''/var/lib/edge-lb'', fc_ha = default_ha_config, fc_network = default_network_config,
     fc_discovery = default_ip_discovery_config, fc_gateway_nodes = [], fc_backend_nodes = [],
     fc_target_groups = [], fc_listeners = [], fc_backend_return_paths = [],
     fc_gateway = default_gateway_config, fc_backend = default_backend_config,
     fc_api = default_api_config, fc_control_plane = default_control_plane_config\<rparr>"

section \<open>Return-path identifiers\<close>

abbreviation EDGE_MARK_BASE :: u32 where "EDGE_MARK_BASE \<equiv> 0x1000"
abbreviation EDGE_TABLE_BASE :: u32 where "EDGE_TABLE_BASE \<equiv> 1000"
abbreviation EDGE_MAX_GATEWAY_SLOTS :: u32 where "EDGE_MAX_GATEWAY_SLOTS \<equiv> 6"
abbreviation EDGE_DSCP_MASK :: u32 where "EDGE_DSCP_MASK \<equiv> 0x3f"
abbreviation EDGE_SLOT_STRIDE :: u32 where "EDGE_SLOT_STRIDE \<equiv> 64"

definition return_mark :: "u32 \<Rightarrow> u32 \<Rightarrow> u32" where
  "return_mark dscp gateway_slot =
     (let slot = min gateway_slot (EDGE_MAX_GATEWAY_SLOTS - 1)
      in EDGE_MARK_BASE OR push_bit 6 (slot + 1) OR (dscp AND EDGE_DSCP_MASK))"

definition return_table_id :: "u32 \<Rightarrow> u32 \<Rightarrow> u32" where
  "return_table_id dscp gateway_slot =
     (let slot = min gateway_slot (EDGE_MAX_GATEWAY_SLOTS - 1)
      in EDGE_TABLE_BASE + (slot + 1) * EDGE_SLOT_STRIDE + (dscp AND EDGE_DSCP_MASK))"

definition ip_sort_key :: "IpAddr \<Rightarrow> nat \<times> nat" where
  "ip_sort_key ip = (case ip of V4 a \<Rightarrow> (4, unat a) | V6 a \<Rightarrow> (6, unat a))"

text \<open>\<^verbatim>\<open>Iterator::position\<close> for an equality test.\<close>

fun position :: "'a \<Rightarrow> 'a list \<Rightarrow> nat option" where
  "position x [] = None"
| "position x (y # ys) = (if y = x then Some 0 else map_option Suc (position x ys))"

definition gateway_slot :: "GatewayNode list \<Rightarrow> IpAddr \<Rightarrow> u32" where
  "gateway_slot gateways gateway_underlay =
     (case position gateway_underlay (remdups_adj (sort_key ip_sort_key (map gn_underlay_ip gateways))) of
        Some i \<Rightarrow> of_nat i
      | None \<Rightarrow> 0)"

section \<open>Effective inventory\<close>

definition backend_nodes_effective :: "FileConfig \<Rightarrow> BackendNode list" where
  "backend_nodes_effective cfg =
     (if fc_backend_nodes cfg \<noteq> [] then fc_backend_nodes cfg
      else case (nw_backend_public_ip (fc_network cfg), nw_backend_ip (fc_network cfg)) of
             (Some public_ip, Some underlay_ip) \<Rightarrow>
               [\<lparr>bn_name = fc_node_name cfg, bn_public_ip = public_ip, bn_underlay_ip = underlay_ip,
                 bn_overlay_ip = bkc_overlay_ip (fc_backend cfg)\<rparr>]
           | _ \<Rightarrow> [])"

definition find_or_first :: "('a \<Rightarrow> bool) \<Rightarrow> 'a list \<Rightarrow> 'a option" where
  "find_or_first P xs = (case List.find P xs of Some x \<Rightarrow> Some x | None \<Rightarrow> (case xs of x # _ \<Rightarrow> Some x | [] \<Rightarrow> None))"

definition local_backend :: "FileConfig \<Rightarrow> BackendNode option" where
  "local_backend cfg = find_or_first (\<lambda>b. bn_name b = fc_node_name cfg) (backend_nodes_effective cfg)"

definition backend_by_underlay :: "FileConfig \<Rightarrow> IpAddr \<Rightarrow> BackendNode option" where
  "backend_by_underlay cfg underlay = List.find (\<lambda>b. bn_underlay_ip b = underlay) (backend_nodes_effective cfg)"

definition gateway_by_key :: "FileConfig \<Rightarrow> string \<Rightarrow> GatewayNode option" where
  "gateway_by_key cfg key =
     List.find (\<lambda>g. gn_name g = key \<or> show_ip (gn_underlay_ip g) = key) (fc_gateway_nodes cfg)"

definition resolve_backend_target_address :: "FileConfig \<Rightarrow> BackendTarget \<Rightarrow> IpAddr" where
  "resolve_backend_target_address cfg target =
     (if \<not> is_unspecified (bt_address target) then bt_address target
      else case Option.bind (bt_backend target) (\<lambda>name.
                  map_option bn_underlay_ip (List.find (\<lambda>b. bn_name b = name) (backend_nodes_effective cfg))) of
             Some ip \<Rightarrow> ip
           | None \<Rightarrow> bt_address target)"

definition parse_overlay_host :: "string \<Rightarrow> IpAddr option" where
  "parse_overlay_host s = parse_ip_addr (takeWhile ((\<noteq>) CHR ''/'') s)"

text \<open>\<^verbatim>\<open>Vec::dedup_by\<close>: an element goes when it is the same as the last one kept.\<close>

fun dedup_by :: "('a \<Rightarrow> 'a \<Rightarrow> bool) \<Rightarrow> 'a list \<Rightarrow> 'a list" where
  "dedup_by same (x # y # ys) =
     (if same y x then dedup_by same (x # ys) else x # dedup_by same (y # ys))"
| "dedup_by same xs = xs"

definition return_path_id :: "GatewayReturnPath \<Rightarrow> IpAddr \<times> IpAddr \<times> u32 \<times> u32 \<times> u32" where
  "return_path_id p = (grp_gateway_underlay_ip p, grp_gateway_overlay_ip p, grp_dscp p, grp_mark p, grp_route_table_id p)"

definition dedup_gateway_return_paths :: "GatewayReturnPath list \<Rightarrow> GatewayReturnPath list" where
  "dedup_gateway_return_paths paths =
     dedup_by (\<lambda>a b. return_path_id a = return_path_id b)
       (sort_key (\<lambda>p. (grp_gateway_underlay_ip p, grp_gateway_overlay_ip p, grp_dscp p, grp_mark p, grp_route_table_id p,
          case grp_gateway p of Some g \<Rightarrow> g | None \<Rightarrow> [])) paths)"

definition derived_return_path :: "FileConfig \<Rightarrow> string option \<Rightarrow> GatewayNode \<Rightarrow> GatewayReturnPath option" where
  "derived_return_path cfg backend_overlay_ip gateway =
     (case parse_overlay_host (gn_overlay_ip gateway) of
        None \<Rightarrow> None
      | Some gateway_overlay_ip \<Rightarrow>
          let slot = gateway_slot (fc_gateway_nodes cfg) (gn_underlay_ip gateway);
              dscp = nw_dscp (fc_network cfg)
          in Some \<lparr>grp_gateway = Some (gn_name gateway), grp_gateway_underlay_ip = gn_underlay_ip gateway,
                   grp_gateway_overlay_ip = gateway_overlay_ip, grp_backend_overlay_ip = backend_overlay_ip,
                   grp_dscp = dscp, grp_mark = return_mark dscp slot, grp_route_table_id = return_table_id dscp slot\<rparr>)"

definition backend_return_paths :: "FileConfig \<Rightarrow> GatewayReturnPath list" where
  "backend_return_paths cfg =
     (if fc_backend_return_paths cfg \<noteq> [] then dedup_gateway_return_paths (fc_backend_return_paths cfg)
      else dedup_gateway_return_paths (List.map_filter
             (derived_return_path cfg (map_option bn_overlay_ip (local_backend cfg))) (fc_gateway_nodes cfg)))"

section \<open>Return-path identifiers are disjoint\<close>

lemma position_Some: "x \<in> set xs \<Longrightarrow> \<exists>i<length xs. position x xs = Some i \<and> xs ! i = x"
proof (induction xs)
  case (Cons y ys)
  then show ?case by (cases "y = x") auto
qed simp

lemma position_inj: "x \<in> set xs \<Longrightarrow> y \<in> set xs \<Longrightarrow> position x xs = position y xs \<Longrightarrow> x = y"
  using position_Some by (metis option.inject)

lemma ip_sort_key_inj: "ip_sort_key a = ip_sort_key b \<Longrightarrow> a = b"
  by (auto simp: ip_sort_key_def unat_eq_iff split: IpAddr.splits)

text \<open>The list of underlays that a slot is a position of: sorted, without repetition, and the same for
  every gateway list with the same underlays.\<close>

definition slot_order :: "GatewayNode list \<Rightarrow> IpAddr list" where
  "slot_order gws = remdups_adj (sort_key ip_sort_key (map gn_underlay_ip gws))"

lemma map_remdups_adj_inj: "inj_on f (set xs) \<Longrightarrow> map f (remdups_adj xs) = remdups_adj (map f xs)"
  by (induction xs rule: remdups_adj.induct) (auto simp: inj_on_def)

lemma strict_sorted_remdups_adj: "sorted xs \<Longrightarrow> sorted_wrt (<) (remdups_adj xs)"
  for xs :: "'a::linorder list"
  by (induction xs rule: remdups_adj.induct) auto

lemma slot_order_keys:
  "map ip_sort_key (slot_order gws) = sorted_list_of_set ((ip_sort_key \<circ> gn_underlay_ip) ` set gws)"
proof -
  let ?xs = "sort_key ip_sort_key (map gn_underlay_ip gws)"
  have keys: "map ip_sort_key (slot_order gws) = remdups_adj (map ip_sort_key ?xs)"
    unfolding slot_order_def by (rule map_remdups_adj_inj) (auto intro: inj_onI dest: ip_sort_key_inj)
  have "sorted (map ip_sort_key ?xs)" by (rule sorted_sort_key)
  then have "sorted_wrt (<) (map ip_sort_key (slot_order gws))"
    unfolding keys by (rule strict_sorted_remdups_adj)
  moreover have "set (map ip_sort_key (slot_order gws)) = (ip_sort_key \<circ> gn_underlay_ip) ` set gws"
    unfolding slot_order_def by (simp add: image_comp)
  ultimately show ?thesis
    by (metis sorted_list_of_set.idem_if_sorted_distinct strict_sorted_iff)
qed

lemma slot_order_set: "set (slot_order gws) = gn_underlay_ip ` set gws"
  by (simp add: slot_order_def)

lemma slot_order_cong:
  "gn_underlay_ip ` set gws = gn_underlay_ip ` set gws' \<Longrightarrow> slot_order gws = slot_order gws'"
  by (metis slot_order_keys image_comp ip_sort_key_inj list.inj_map_strong)

lemma slot_order_length: "length (slot_order gws) = card (gn_underlay_ip ` set gws)"
proof -
  have "length (slot_order gws) = card ((ip_sort_key \<circ> gn_underlay_ip) ` set gws)"
    by (metis length_map length_sorted_list_of_set slot_order_keys)
  then show ?thesis
    by (metis card_image image_comp inj_on_def ip_sort_key_inj)
qed

lemma gateway_slot_position:
  assumes "g \<in> set gws" "card (gn_underlay_ip ` set gws) \<le> 6"
  obtains i where "i < 6" "position (gn_underlay_ip g) (slot_order gws) = Some i"
    "gateway_slot gws (gn_underlay_ip g) = of_nat i"
  using position_Some [of "gn_underlay_ip g" "slot_order gws"] assms
  by (auto simp: slot_order_set slot_order_length gateway_slot_def simp flip: slot_order_def)

lemma gateway_slot_neq:
  assumes g: "g \<in> set gws" and h: "h \<in> set gws" and few: "card (gn_underlay_ip ` set gws) \<le> 6"
    and neq: "gn_underlay_ip g \<noteq> gn_underlay_ip h"
  obtains i j where "i < 6" "j < 6" "i \<noteq> j" "gateway_slot gws (gn_underlay_ip g) = of_nat i"
    "gateway_slot gws (gn_underlay_ip h) = of_nat j"
proof -
  obtain i where i: "i < 6" "position (gn_underlay_ip g) (slot_order gws) = Some i"
    "gateway_slot gws (gn_underlay_ip g) = of_nat i" by (rule gateway_slot_position [OF g few])
  obtain j where j: "j < 6" "position (gn_underlay_ip h) (slot_order gws) = Some j"
    "gateway_slot gws (gn_underlay_ip h) = of_nat j" by (rule gateway_slot_position [OF h few])
  have "i \<noteq> j" using i j g h neq position_inj [of _ "slot_order gws"] by (auto simp: slot_order_set)
  with i j that show thesis by blast
qed

lemma unat_and_3f: "unat (d AND 0x3f) = unat d mod 64" for d :: u32
proof -
  have "d AND 0x3f = take_bit 6 d" by (simp add: take_bit_eq_mask mask_eq_exp_minus_1)
  then show ?thesis by (simp add: unsigned_take_bit_eq take_bit_eq_mod unat_mod)
qed

lemma min_slot_cases:
  obtains k where "k \<le> 5" "min s (EDGE_MAX_GATEWAY_SLOTS - 1) = of_nat k" "k = min (unat s) 5"
proof (rule that [of "min (unat s) 5"])
  show "min s (EDGE_MAX_GATEWAY_SLOTS - 1) = of_nat (min (unat s) 5)"
    by (cases "unat s \<le> 5") (simp_all add: min_def word_le_nat_alt)
qed simp_all

lemma unat_return_table_id: "unat (return_table_id d s) = 1064 + 64 * min (unat s) 5 + unat d mod 64"
proof -
  obtain k where k: "k \<le> 5" "min s (EDGE_MAX_GATEWAY_SLOTS - 1) = of_nat k" "k = min (unat s) 5"
    by (rule min_slot_cases)
  have "d AND EDGE_DSCP_MASK = of_nat (unat d mod 64)" by (simp flip: unat_and_3f)
  then have "return_table_id d s = of_nat (1064 + 64 * k + unat d mod 64)"
    unfolding return_table_id_def Let_def k(2) by simp
  moreover have "1064 + 64 * k + unat d mod 64 < 2 ^ LENGTH(32)"
    using k(1) mod_less_divisor [of 64 "unat d"] by simp
  ultimately show ?thesis using k(3) by (simp only: unat_of_nat_lt)
qed

lemma or_low_bits: "c AND 0x3f = 0 \<Longrightarrow> c OR (d AND 0x3f) = c + (d AND 0x3f)" for c d :: u32
  by (metis (no_types, lifting) and.assoc and.commute and_zero_eq word_plus_and_or add.left_neutral)

lemma mark_base: "k \<le> 5 \<Longrightarrow> EDGE_MARK_BASE OR push_bit 6 (of_nat k + 1) = of_nat (0x1040 + 64 * k)"
proof -
  assume "k \<le> 5"
  then have "k \<in> {0, 1, 2, 3, 4, 5}" by auto
  then show ?thesis by (auto simp: push_bit_eq_mult)
qed

lemma mark_base_low: "k \<le> 5 \<Longrightarrow> (of_nat (0x1040 + 64 * k) :: u32) AND 0x3f = 0"
proof -
  assume "k \<le> 5"
  then have "k \<in> {0, 1, 2, 3, 4, 5}" by auto
  then show ?thesis by auto
qed

lemma unat_return_mark: "unat (return_mark d s) = 0x1040 + 64 * min (unat s) 5 + unat d mod 64"
proof -
  obtain k where k: "k \<le> 5" "min s (EDGE_MAX_GATEWAY_SLOTS - 1) = of_nat k" "k = min (unat s) 5"
    by (rule min_slot_cases)
  have "d AND EDGE_DSCP_MASK = of_nat (unat d mod 64)" by (simp flip: unat_and_3f)
  then have "return_mark d s = of_nat (0x1040 + 64 * k + unat d mod 64)"
    unfolding return_mark_def Let_def k(2) or.assoc [symmetric] mark_base [OF k(1)]
      or_low_bits [OF mark_base_low [OF k(1)]] by (simp only: of_nat_add)
  moreover have "0x1040 + 64 * k + unat d mod 64 < 2 ^ LENGTH(32)"
    using k(1) mod_less_divisor [of 64 "unat d"] by simp
  ultimately show ?thesis using k(3) by (simp only: unat_of_nat_lt)
qed

text \<open>C17. Return-path identifiers.  With at most six distinct gateway underlays, two gateways never get
  the same fwmark or the same route table, whatever the DSCP values; the identifiers stay in the ranges
  0x1040..0x13ff and 1064..1447 that the clean-up code owns; and the slot of a gateway depends only on
  the set of underlays, so every node computes the same one.\<close>

theorem return_ids_disjoint:
  assumes g: "g \<in> set gws" and h: "h \<in> set gws" and neq: "gn_underlay_ip g \<noteq> gn_underlay_ip h"
    and few: "card (gn_underlay_ip ` set gws) \<le> 6"
    and same: "gn_underlay_ip ` set gws' = gn_underlay_ip ` set gws"
  shows "let s = gateway_slot gws (gn_underlay_ip g); t = gateway_slot gws' (gn_underlay_ip h) in
    return_mark d s \<noteq> return_mark e t \<and> return_table_id d s \<noteq> return_table_id e t \<and>
    0x1040 \<le> return_mark d s \<and> return_mark d s < 0x1400 \<and>
    1064 \<le> return_table_id d s \<and> return_table_id d s < 1448 \<and>
    gateway_slot gws' (gn_underlay_ip g) = s"
proof -
  have slots: "gateway_slot gws' ip = gateway_slot gws ip" for ip
    unfolding gateway_slot_def slot_order_def [symmetric] slot_order_cong [OF same] ..
  obtain i j where ij: "i < 6" "j < 6" "i \<noteq> j" "gateway_slot gws (gn_underlay_ip g) = of_nat i"
    "gateway_slot gws (gn_underlay_ip h) = of_nat j"
    using gateway_slot_neq [OF g h few neq] by metis
  have u: "unat (of_nat i :: u32) = i" "unat (of_nat j :: u32) = j"
    using ij(1,2) by (simp_all add: unat_of_nat_lt)
  have "64 * i + unat d mod 64 \<noteq> 64 * j + unat e mod 64"
    using ij(3) mod_less_divisor [of 64 "unat d"] mod_less_divisor [of 64 "unat e"] by linarith
  then have "unat (return_mark d (of_nat i)) \<noteq> unat (return_mark e (of_nat j))"
    "unat (return_table_id d (of_nat i)) \<noteq> unat (return_table_id e (of_nat j))"
    unfolding unat_return_mark unat_return_table_id u using ij(1,2) by simp_all
  then have "return_mark d (of_nat i) \<noteq> return_mark e (of_nat j)"
    "return_table_id d (of_nat i) \<noteq> return_table_id e (of_nat j)" by metis+
  moreover have "unat d mod 64 < 64" by simp
  ultimately show ?thesis
    unfolding Let_def slots ij(4,5) word_le_nat_alt word_less_nat_alt unat_return_mark unat_return_table_id u
    using ij(1) by auto
qed

theorem return_ids_disjoint_witness:
  "let gw = \<lambda>n ip. \<lparr>gn_name = n, gn_public_ip = default_auto_ip, gn_underlay_ip = V4 ip, gn_overlay_ip = default_gateway_overlay\<rparr>;
       a = gw ''a'' 0xC0A8000C; b = gw ''b'' 0xC0A80010 in
   return_mark 46 (gateway_slot [a, b] (gn_underlay_ip a)) \<noteq> return_mark 46 (gateway_slot [b, a] (gn_underlay_ip b))"
  unfolding Let_def
  by (rule return_ids_disjoint [unfolded Let_def, THEN conjunct1]) (simp_all add: card_insert_if insert_commute)

end
