(* ===== verification/Config_Normalize.thy ===== *)
theory Config_Normalize
  imports Config_Model
begin

text \<open>
  Overlay addressing (\<^verbatim>\<open>edge-lb/src/config/overlay.rs\<close>) and the normalisation of a loaded configuration
  (\<^verbatim>\<open>edge-lb/src/config/normalize.rs\<close>), which fills the effective sections from the role sections and
  assigns overlay addresses.  Each \<^verbatim>\<open>&mut FileConfig\<close> function is a function on \<open>FileConfig\<close>.
  Arithmetic is that of a release build: a shift count is taken modulo the width.
\<close>

section \<open>Overlay addresses\<close>

definition parse_prefix :: "string \<Rightarrow> (IpAddr \<times> u8) option" where
  "parse_prefix s =
     (case split_once CHR ''/'' s of
        None \<Rightarrow> None
      | Some (ip, prefix) \<Rightarrow>
          (case (parse_ip_addr ip, parse_u8 prefix) of
             (Some ip', Some prefix') \<Rightarrow>
               (case ip' of
                  V4 _ \<Rightarrow> if prefix' > 32 then None else Some (ip', prefix')
                | V6 _ \<Rightarrow> if prefix' > 128 then None else Some (ip', prefix'))
           | _ \<Rightarrow> None))"

definition subnet_mask :: "nat \<Rightarrow> u32" where
  "subnet_mask prefix = (if prefix = 0 then 0 else push_bit (32 - prefix) (- 1))"

definition same_subnet :: "IpAddr \<times> u8 \<Rightarrow> IpAddr \<times> u8 \<Rightarrow> bool" where
  "same_subnet a b =
     (case (fst a, fst b) of
        (V4 x, V4 y) \<Rightarrow>
          if snd a \<noteq> snd b then False
          else if snd a > 32 then False
          else x AND subnet_mask (unat (snd a)) = y AND subnet_mask (unat (snd a))
      | _ \<Rightarrow> False)"

definition overlay_needs_assignment :: "string \<Rightarrow> bool" where
  "overlay_needs_assignment s =
     (let v = trim s in
      v = [] \<or> eq_ignore_ascii_case v ''auto'' \<or> v = default_gateway_overlay \<or> v = old_default_gateway_overlay
      \<or> v = default_backend_overlay \<or> v = old_default_backend_overlay)"

definition underlay_dev_is_auto :: "string \<Rightarrow> bool" where
  "underlay_dev_is_auto s = (let v = trim s in v = [] \<or> eq_ignore_ascii_case v ''auto'')"

definition overlay_host :: "string \<Rightarrow> u32 \<Rightarrow> string option" where
  "overlay_host cidr host_index =
     (case parse_prefix cidr of
        Some (V4 base, prefix) \<Rightarrow>
          if prefix > 30 then None
          else let host_bits = 32 - unat prefix in
            if host_index = 0 \<or> unat host_index \<ge> 2 ^ host_bits - 1 then None
            else let mask = push_bit (host_bits mod 32) (- 1);
                     network = base AND mask
                 in Some (show_ipv4 (network + host_index) @ CHR ''/'' # show_nat (unat prefix))
      | _ \<Rightarrow> None)"

datatype capacity_error = OverlayNotIpv4 | OverlayPrefixTooLong | OverlayTooSmall nat nat

definition validate_overlay_capacity :: "IpAddr \<times> u8 \<Rightarrow> nat \<Rightarrow> capacity_error option" where
  "validate_overlay_capacity cidr needed_hosts =
     (case fst cidr of
        V6 _ \<Rightarrow> Some OverlayNotIpv4
      | V4 _ \<Rightarrow>
          if snd cidr > 30 then Some OverlayPrefixTooLong
          else let usable = 2 ^ (32 - unat (snd cidr)) - 2
            in if usable < needed_hosts then Some (OverlayTooSmall needed_hosts usable) else None)"

section \<open>Normalisation\<close>

definition normalize_discovery :: "FileConfig \<Rightarrow> FileConfig" where
  "normalize_discovery file =
     (let servers = filter (\<lambda>s. s \<noteq> []) (map trim (idc_stun_servers (fc_discovery file)));
          servers' = (if servers = [] then [''stun.l.google.com:19302''] else servers)
      in file\<lparr>fc_discovery := (fc_discovery file)\<lparr>idc_stun_servers := servers'\<rparr>\<rparr>)"

definition mark_vxlan_mtu_auto :: "FileConfig \<Rightarrow> FileConfig" where
  "mark_vxlan_mtu_auto file =
     (if nw_vxlan_mtu (fc_network file) = 0
      then file\<lparr>fc_network := (fc_network file)\<lparr>nw_vxlan_mtu_auto := True\<rparr>\<rparr> else file)"

definition split_host_port :: "string \<Rightarrow> (string \<times> u16) option" where
  "split_host_port s =
     (case rsplit_once CHR '':'' s of
        None \<Rightarrow> None
      | Some (host, port) \<Rightarrow> map_option (Pair host) (parse_u16 port))"

text \<open>\<^verbatim>\<open>if let Some(value) = section { ... }\<close>.\<close>

definition with_section :: "'s option \<Rightarrow> ('s \<Rightarrow> 'f \<Rightarrow> 'f) \<Rightarrow> 'f \<Rightarrow> 'f" where
  "with_section section f file = (case section of Some value \<Rightarrow> f value file | None \<Rightarrow> file)"

definition adopt_network :: "NetworkConfig \<Rightarrow> FileConfig \<Rightarrow> FileConfig" where
  "adopt_network network file =
     (let resolved = nw_underlay_dev (fc_network file) in
      file\<lparr>fc_network :=
        (if underlay_dev_is_auto (nw_underlay_dev network) \<and> \<not> underlay_dev_is_auto resolved
         then network\<lparr>nw_underlay_dev := resolved\<rparr> else network)\<rparr>)"

definition adopt_gateway_xds :: "GatewayXdsConfig \<Rightarrow> FileConfig \<Rightarrow> FileConfig" where
  "adopt_gateway_xds xds file =
     file\<lparr>fc_control_plane := (fc_control_plane file)\<lparr>cpc_enabled := True, cpc_mode := ModeXds,
       cpc_listen := gxc_listen xds, cpc_gateway_port := None, cpc_token := gxc_token xds,
       cpc_trusted_source_cidrs := gxc_trusted_source_cidrs xds\<rparr>\<rparr>"

text \<open>The bootstrap gateway nodes of \<^verbatim>\<open>backend.xds\<close>; the port of the first well-formed entry becomes the
  gateway port unless one is configured, even when the host of that entry is not an address.\<close>

fun xds_gateway_nodes :: "nat \<Rightarrow> u16 option \<Rightarrow> string list \<Rightarrow> u16 option \<times> GatewayNode list" where
  "xds_gateway_nodes idx gateway_port [] = (gateway_port, [])"
| "xds_gateway_nodes idx gateway_port (gateway # rest) =
     (case split_host_port gateway of
        None \<Rightarrow> xds_gateway_nodes (Suc idx) gateway_port rest
      | Some (host, port) \<Rightarrow>
          let gateway_port' = (if gateway_port = None then Some port else gateway_port) in
          (case xds_gateway_nodes (Suc idx) gateway_port' rest of
             (p, nodes) \<Rightarrow>
               (case parse_ip_addr host of
                  None \<Rightarrow> (p, nodes)
                | Some ip \<Rightarrow>
                    (p, \<lparr>gn_name = ''gateway-'' @ show_nat (idx + 1), gn_public_ip = default_auto_ip,
                         gn_underlay_ip = ip, gn_overlay_ip = default_gateway_overlay\<rparr> # nodes))))"

definition adopt_backend_xds :: "BackendXdsConfig \<Rightarrow> FileConfig \<Rightarrow> FileConfig" where
  "adopt_backend_xds xds file =
     (let file1 = file\<lparr>fc_ha := (fc_ha file)\<lparr>hac_active_source := SourceXds,
              hac_watch_interval_secs := bxc_reconnect_interval_secs xds\<rparr>,
            fc_control_plane := (fc_control_plane file)\<lparr>cpc_enabled := True, cpc_mode := ModeXds,
              cpc_token := bxc_token xds\<rparr>\<rparr>;
          gateways = (if bxc_gateways xds \<noteq> [] then bxc_gateways xds
                      else if trim (bxc_gateway xds) \<noteq> [] then [bxc_gateway xds] else [])
      in if gateways \<noteq> [] \<and> fc_gateway_nodes file1 = []
         then (case xds_gateway_nodes 0 (cpc_gateway_port (fc_control_plane file1)) gateways of
                 (port, nodes) \<Rightarrow>
                   file1\<lparr>fc_control_plane := (fc_control_plane file1)\<lparr>cpc_gateway_port := port\<rparr>,
                         fc_gateway_nodes := nodes\<rparr>)
         else file1)"

definition adopt_return_path :: "BackendReturnPathConfig \<Rightarrow> FileConfig \<Rightarrow> FileConfig" where
  "adopt_return_path rp file =
     file\<lparr>fc_network := (fc_network file)\<lparr>nw_vxlan_dev := brc_vxlan_dev rp\<rparr>,
          fc_backend := (fc_backend file)\<lparr>bkc_ct_mark := brc_ct_mark rp, bkc_fwmark := brc_fwmark rp,
            bkc_route_table := brc_route_table rp, bkc_route_table_id := brc_route_table_id rp,
            bkc_rule_priority := brc_rule_priority rp, bkc_nft_table := brc_nft_table rp,
            bkc_mss := brc_mss rp\<rparr>\<rparr>"

definition apply_role_sections :: "FileConfig \<Rightarrow> FileConfig" where
  "apply_role_sections file =
     (case fc_node_role file of
        Gateway \<Rightarrow>
          let g = fc_gateway file;
              f1 = with_section (gwc_xds g) adopt_gateway_xds file;
              f2 = with_section (gwc_reconcile g) (\<lambda>v f. f\<lparr>fc_ha := (fc_ha f)\<lparr>hac_watch_interval_secs := grc_interval_secs v\<rparr>\<rparr>) f1;
              f3 = with_section (gwc_control_plane g) (\<lambda>v f. f\<lparr>fc_control_plane := v\<rparr>) f2;
              f4 = with_section (gwc_network g) adopt_network f3
          in with_section (gwc_api g) (\<lambda>v f. f\<lparr>fc_api := v\<rparr>) f4
      | Backend \<Rightarrow>
          let b = fc_backend file;
              f1 = with_section (bkc_xds b) adopt_backend_xds file;
              f2 = with_section (bkc_return_path b) adopt_return_path f1;
              f3 = with_section (bkc_control b) (\<lambda>v f. f\<lparr>fc_ha := (fc_ha f)\<lparr>hac_active_source := bcc_source v,
                     hac_watch_interval_secs := bcc_reconnect_interval_secs v\<rparr>\<rparr>) f2;
              f4 = with_section (bkc_control_plane b) (\<lambda>v f. f\<lparr>fc_control_plane := v\<rparr>) f3;
              f5 = with_section (bkc_network b) adopt_network f4
          in with_section (bkc_api b) (\<lambda>v f. f\<lparr>fc_api := v\<rparr>) f5)"

definition apply_role_defaults :: "FileConfig \<Rightarrow> FileConfig" where
  "apply_role_defaults file =
     (let configured = trim (nw_vxlan_dev (fc_network file)) in
      if \<not> eq_ignore_ascii_case configured ''auto'' \<and> configured \<noteq> [] then file
      else file\<lparr>fc_network := (fc_network file)\<lparr>nw_vxlan_dev :=
             (case fc_node_role file of Gateway \<Rightarrow> ''edge-hub'' | Backend \<Rightarrow> ''edge-return'')\<rparr>\<rparr>)"

definition ensure_local_node :: "FileConfig \<Rightarrow> FileConfig" where
  "ensure_local_node file =
     (case fc_node_role file of
        Gateway \<Rightarrow>
          if \<exists>g\<in>set (fc_gateway_nodes file). gn_name g = fc_node_name file then file
          else file\<lparr>fc_gateway_nodes := fc_gateway_nodes file @
            [\<lparr>gn_name = fc_node_name file, gn_public_ip = fc_public_ip file,
              gn_underlay_ip = fc_underlay_ip file, gn_overlay_ip = default_gateway_overlay\<rparr>]\<rparr>
      | Backend \<Rightarrow>
          if \<exists>b\<in>set (fc_backend_nodes file). bn_name b = fc_node_name file then file
          else file\<lparr>fc_backend_nodes := fc_backend_nodes file @
            [\<lparr>bn_name = fc_node_name file, bn_public_ip = fc_public_ip file,
              bn_underlay_ip = fc_underlay_ip file, bn_overlay_ip = default_backend_overlay\<rparr>]\<rparr>)"

text \<open>\<^verbatim>\<open>iter_mut().find(p)\<close> followed by an assignment through the reference.\<close>

fun update_first :: "('a \<Rightarrow> bool) \<Rightarrow> ('a \<Rightarrow> 'a) \<Rightarrow> 'a list \<Rightarrow> 'a list" where
  "update_first P f [] = []"
| "update_first P f (x # xs) = (if P x then f x # xs else x # update_first P f xs)"

definition apply_top_level_local_ips :: "FileConfig \<Rightarrow> FileConfig" where
  "apply_top_level_local_ips file =
     (case fc_node_role file of
        Gateway \<Rightarrow>
          (case List.find (\<lambda>g. gn_name g = fc_node_name file) (fc_gateway_nodes file) of
             None \<Rightarrow> file
           | Some gw \<Rightarrow>
               let public = (if is_unspecified (fc_public_ip file) then gn_public_ip gw else fc_public_ip file);
                   underlay = (if is_unspecified (fc_underlay_ip file) then gn_underlay_ip gw else fc_underlay_ip file)
               in file\<lparr>fc_public_ip := public, fc_underlay_ip := underlay,
                    fc_gateway_nodes := update_first (\<lambda>g. gn_name g = fc_node_name file)
                      (\<lambda>g. g\<lparr>gn_public_ip := public, gn_underlay_ip := underlay\<rparr>) (fc_gateway_nodes file)\<rparr>)
      | Backend \<Rightarrow>
          (case List.find (\<lambda>b. bn_name b = fc_node_name file) (fc_backend_nodes file) of
             None \<Rightarrow> file
           | Some b \<Rightarrow>
               let public = (if is_unspecified (fc_public_ip file) then bn_public_ip b else fc_public_ip file);
                   underlay = (if is_unspecified (fc_underlay_ip file) then bn_underlay_ip b else fc_underlay_ip file)
               in file\<lparr>fc_public_ip := public, fc_underlay_ip := underlay,
                    fc_backend_nodes := update_first (\<lambda>b. bn_name b = fc_node_name file)
                      (\<lambda>b. b\<lparr>bn_public_ip := public, bn_underlay_ip := underlay\<rparr>) (fc_backend_nodes file)\<rparr>))"

text \<open>The two passes over the backends: release an explicit address that is taken already, then assign
  the first free host address.  \<open>used\<close> is the set of taken addresses.\<close>

fun release_duplicates :: "string set \<Rightarrow> BackendNode list \<Rightarrow> BackendNode list \<times> string set" where
  "release_duplicates used [] = ([], used)"
| "release_duplicates used (b # bs) =
     (if overlay_needs_assignment (bn_overlay_ip b)
      then (case release_duplicates used bs of (bs', used') \<Rightarrow> (b # bs', used'))
      else if bn_overlay_ip b \<in> used
      then (case release_duplicates used bs of (bs', used') \<Rightarrow> (b\<lparr>bn_overlay_ip := default_backend_overlay\<rparr> # bs', used'))
      else (case release_duplicates (insert (bn_overlay_ip b) used) bs of (bs', used') \<Rightarrow> (b # bs', used')))"

fun pick_overlay :: "string \<Rightarrow> string set \<Rightarrow> nat list \<Rightarrow> string option" where
  "pick_overlay cidr used [] = None"
| "pick_overlay cidr used (i # is) =
     (case overlay_host cidr (of_nat i) of
        None \<Rightarrow> None
      | Some overlay \<Rightarrow> if overlay \<in> used then pick_overlay cidr used is else Some overlay)"

fun assign_backends :: "string \<Rightarrow> nat list \<Rightarrow> string set \<Rightarrow> BackendNode list \<Rightarrow> BackendNode list" where
  "assign_backends cidr indices used [] = []"
| "assign_backends cidr indices used (b # bs) =
     (if \<not> overlay_needs_assignment (bn_overlay_ip b) then b # assign_backends cidr indices used bs
      else case pick_overlay cidr used indices of
             None \<Rightarrow> b # assign_backends cidr indices used bs
           | Some overlay \<Rightarrow> b\<lparr>bn_overlay_ip := overlay\<rparr> # assign_backends cidr indices (insert overlay used) bs)"

definition assign_gateway_overlays :: "FileConfig \<Rightarrow> FileConfig" where
  "assign_gateway_overlays file =
     (case overlay_host (nw_overlay_cidr (fc_network file)) 1 of
        None \<Rightarrow> file
      | Some gateway_overlay \<Rightarrow>
          file\<lparr>fc_gateway_nodes := map (\<lambda>gw. if overlay_needs_assignment (gn_overlay_ip gw)
                 then gw\<lparr>gn_overlay_ip := gateway_overlay\<rparr> else gw) (fc_gateway_nodes file),
               fc_gateway := (if overlay_needs_assignment (gwc_overlay_ip (fc_gateway file))
                 then (fc_gateway file)\<lparr>gwc_overlay_ip := gateway_overlay\<rparr> else fc_gateway file)\<rparr>)"

definition host_indices :: "FileConfig \<Rightarrow> nat list" where
  "host_indices file =
     (let max_host_index = of_nat (length (fc_backend_nodes file)) + of_nat (length (fc_gateway_nodes file)) + 256 :: u32
      in [2..<Suc (unat max_host_index)])"

definition assign_overlay_ips :: "FileConfig \<Rightarrow> FileConfig" where
  "assign_overlay_ips file0 =
     (let file = assign_gateway_overlays file0;
          used = insert (gwc_overlay_ip (fc_gateway file)) (set (map gn_overlay_ip (fc_gateway_nodes file)))
      in case release_duplicates used (fc_backend_nodes file) of
           (backends, used') \<Rightarrow>
             file\<lparr>fc_backend_nodes :=
               assign_backends (nw_overlay_cidr (fc_network file)) (host_indices file) used' backends\<rparr>)"

definition adopt_local_gateway :: "FileConfig \<Rightarrow> FileConfig" where
  "adopt_local_gateway file =
     (case find_or_first (\<lambda>g. gn_name g = fc_node_name file) (fc_gateway_nodes file) of
        None \<Rightarrow> file
      | Some gw \<Rightarrow>
          let n = fc_network file;
              n1 = (if nw_gateway_public_ip n = default_gateway_public_ip then n\<lparr>nw_gateway_public_ip := gn_public_ip gw\<rparr> else n);
              n2 = (if nw_gateway_ip n1 = default_gateway_ip then n1\<lparr>nw_gateway_ip := gn_underlay_ip gw\<rparr> else n1);
              g = (if fc_node_role file = Gateway \<and> overlay_needs_assignment (gwc_overlay_ip (fc_gateway file))
                   then (fc_gateway file)\<lparr>gwc_overlay_ip := gn_overlay_ip gw\<rparr> else fc_gateway file)
          in file\<lparr>fc_network := n2, fc_gateway := g\<rparr>)"

definition add_bootstrap_backend :: "FileConfig \<Rightarrow> FileConfig" where
  "add_bootstrap_backend file =
     (if fc_backend_nodes file = [] then
        (case (nw_backend_public_ip (fc_network file), nw_backend_ip (fc_network file)) of
           (Some public_ip, Some underlay_ip) \<Rightarrow>
             file\<lparr>fc_backend_nodes := [\<lparr>bn_name = ''backend-1'', bn_public_ip = public_ip,
               bn_underlay_ip = underlay_ip, bn_overlay_ip = bkc_overlay_ip (fc_backend file)\<rparr>]\<rparr>
         | _ \<Rightarrow> file)
      else file)"

definition promote_xds_mode :: "FileConfig \<Rightarrow> FileConfig" where
  "promote_xds_mode file =
     (let cp = fc_control_plane file in
      if cpc_enabled cp \<and> cpc_mode cp = ModeFile
         \<and> (hac_active_source (fc_ha file) = SourceXds \<or> fc_node_role file = Gateway)
      then file\<lparr>fc_control_plane := cp\<lparr>cpc_mode := ModeXds\<rparr>\<rparr> else file)"

definition normalize_config :: "FileConfig \<Rightarrow> FileConfig" where
  "normalize_config file =
     (let f1 = normalize_discovery file;
          f2 = apply_role_sections f1;
          f3 = mark_vxlan_mtu_auto f2;
          f4 = apply_role_defaults f3;
          f5 = promote_xds_mode f4;
          f6 = ensure_local_node f5;
          f7 = apply_top_level_local_ips f6;
          f8 = add_bootstrap_backend f7;
          f9 = assign_overlay_ips f8
      in adopt_local_gateway f9)"

section \<open>Assigned overlay addresses\<close>

lemma parse_prefix_show:
  "p \<le> 32 \<Longrightarrow> parse_prefix (show_ipv4 a @ CHR ''/'' # show_nat p) = Some (V4 a, of_nat p)"
  by (simp add: parse_prefix_def split_once_append parse_u8_def parse_uint_show_nat
      word_less_nat_alt unat_of_nat_lt)

lemma mask_keeps_network:
  fixes base i :: u32
  assumes "n < 32" "unat i < 2 ^ n"
  shows "((base AND push_bit n (- 1)) + i) AND push_bit n (- 1) = base AND push_bit n (- 1)"
proof -
  have i: "take_bit n i = i"
    using assms(2) by (simp add: word_unat_eq_iff unsigned_take_bit_eq take_bit_nat_eq_self)
  have disj: "(base AND push_bit n (- 1)) AND i = 0"
    by (subst i [symmetric], rule bit_word_eqI) (auto simp: bit_simps)
  have "(base AND push_bit n (- 1)) + i = (base AND push_bit n (- 1)) OR i"
    using disj by (metis add_0 word_plus_and_or)
  also have "\<dots> AND push_bit n (- 1) = base AND push_bit n (- 1)"
    by (subst i [symmetric], rule bit_word_eqI) (auto simp: bit_simps)
  finally show ?thesis .
qed

text \<open>The host addresses that \<open>overlay_host\<close> gives for a usable CIDR.\<close>

definition host_bits :: "u8 \<Rightarrow> nat" where
  "host_bits prefix = 32 - unat prefix"

definition host_address :: "u32 \<Rightarrow> u8 \<Rightarrow> nat \<Rightarrow> u32" where
  "host_address base prefix i = (base AND push_bit (host_bits prefix mod 32) (- 1)) + of_nat i"

lemma pow_host_bits: "(2::nat) ^ host_bits prefix \<le> 2 ^ 32"
  by (rule power_increasing) (simp_all add: host_bits_def)

lemma overlay_host_in_range:
  assumes "parse_prefix cidr = Some (V4 base, prefix)" "prefix \<le> 30" "0 < i" "i < 2 ^ host_bits prefix - 1"
  shows "overlay_host cidr (of_nat i) =
    Some (show_ipv4 (host_address base prefix i) @ CHR ''/'' # show_nat (unat prefix))"
proof -
  have "unat (of_nat i :: u32) = i"
    using assms(4) pow_host_bits [of prefix] by (intro unat_of_nat_lt) simp
  moreover have "(of_nat i :: u32) \<noteq> 0" using calculation assms(3) by (metis unat_0 less_irrefl)
  ultimately show ?thesis
    using assms by (simp add: overlay_host_def host_bits_def host_address_def Let_def not_less)
qed

lemma overlay_host_Some:
  assumes "overlay_host cidr i = Some overlay" "parse_prefix cidr = Some (V4 base, prefix)"
  shows "prefix \<le> 30" "0 < unat i" "unat i < 2 ^ host_bits prefix - 1"
    "overlay = show_ipv4 (host_address base prefix (unat i)) @ CHR ''/'' # show_nat (unat prefix)"
  using assms by (auto simp: overlay_host_def host_bits_def host_address_def Let_def not_less unat_gt_0
      split: if_splits)

lemma overlay_text_inj:
  "show_ipv4 a @ CHR ''/'' # s = show_ipv4 b @ CHR ''/'' # s' \<longleftrightarrow> a = b \<and> s = s'"
  by (metis split_once_append slash_notin_show_ipv4 show_ipv4_inj option.inject prod.inject)

lemma overlay_host_inj:
  assumes "overlay_host cidr i = Some overlay" "overlay_host cidr j = Some overlay"
  shows "i = j"
proof -
  obtain base prefix where p: "parse_prefix cidr = Some (V4 base, prefix)"
    using assms(1) by (auto simp: overlay_host_def split: option.splits IpAddr.splits)
  have "host_address base prefix (unat i) = host_address base prefix (unat j)"
    using overlay_host_Some(4) [OF assms(1) p] overlay_host_Some(4) [OF assms(2) p]
    by (simp add: overlay_text_inj)
  then show ?thesis by (simp add: host_address_def)
qed

lemma overlay_host_same_subnet:
  assumes host: "overlay_host cidr i = Some overlay" and cidr: "parse_prefix cidr = Some (V4 base, prefix)"
  shows "\<exists>a. parse_prefix overlay = Some (V4 a, prefix) \<and> same_subnet (V4 base, prefix) (V4 a, prefix)"
proof (intro exI conjI)
  let ?a = "host_address base prefix (unat i)"
  note facts = overlay_host_Some [OF host cidr]
  have p: "unat prefix \<le> 30" using facts(1) by (simp add: word_le_nat_alt)
  then show "parse_prefix overlay = Some (V4 ?a, prefix)"
    unfolding facts(4) by (subst parse_prefix_show) auto
  show "same_subnet (V4 base, prefix) (V4 ?a, prefix)"
  proof (cases "unat prefix = 0")
    case False
    then have "host_bits prefix < 32" "unat i < 2 ^ host_bits prefix"
      using facts(3) by (auto simp: host_bits_def)
    from mask_keeps_network [OF this, of base] p False show ?thesis
      by (simp add: same_subnet_def host_address_def subnet_mask_def host_bits_def word_less_nat_alt)
  qed (simp add: same_subnet_def subnet_mask_def word_less_nat_alt)
qed

text \<open>Choosing a free address succeeds when there are more candidates than taken addresses.\<close>

lemma pick_overlay_Some:
  "pick_overlay cidr used is = Some overlay \<Longrightarrow>
   overlay \<notin> used \<and> (\<exists>i\<in>set is. overlay_host cidr (of_nat i) = Some overlay)"
  by (induction "is") (auto split: option.splits if_splits)

lemma pick_overlay_None:
  "pick_overlay cidr used (is @ js) = None \<Longrightarrow> \<forall>i\<in>set is. overlay_host cidr (of_nat i) \<noteq> None \<Longrightarrow>
   \<forall>i\<in>set is. the (overlay_host cidr (of_nat i)) \<in> used"
  by (induction "is") (auto split: option.splits if_splits)

lemma pick_overlay_found:
  assumes cidr: "parse_prefix cidr = Some (V4 base, prefix)" "prefix \<le> 30"
    and used: "finite used" "card used < min n (2 ^ host_bits prefix - 3)"
  obtains overlay where "pick_overlay cidr used [2..<2 + n] = Some overlay"
proof -
  let ?m = "min n (2 ^ host_bits prefix - 3)"
  let ?host = "\<lambda>i. overlay_host cidr (of_nat i)"
  have split: "[2..<2 + n] = [2..<2 + ?m] @ [2 + ?m..<2 + n]"
    using upt_add_eq_append [of 2 "2 + ?m" "n - ?m"] by simp
  have some: "?host i \<noteq> None" if "i \<in> set [2..<2 + ?m]" for i
    using that overlay_host_in_range [OF cidr, of i] by auto
  have bound: "i < 2 ^ 32" if "i \<in> set [2..<2 + ?m]" for i
    using that pow_host_bits [of prefix] by auto
  have "inj_on (\<lambda>i. the (?host i)) (set [2..<2 + ?m])"
  proof (rule inj_onI)
    fix i j
    assume i: "i \<in> set [2..<2 + ?m]" and j: "j \<in> set [2..<2 + ?m]" and eq: "the (?host i) = the (?host j)"
    then have "(of_nat i :: u32) = of_nat j"
      using some [OF i] some [OF j] overlay_host_inj [of cidr "of_nat i" _ "of_nat j"] by fastforce
    then have "unat (of_nat i :: u32) = unat (of_nat j :: u32)" by simp
    then show "i = j" using bound [OF i] bound [OF j] by (simp add: unat_of_nat_lt)
  qed
  then have card: "card ((\<lambda>i. the (?host i)) ` set [2..<2 + ?m]) = ?m"
    by (simp only: card_image distinct_card [OF distinct_upt] length_upt diff_add_inverse)
  have "pick_overlay cidr used [2..<2 + n] \<noteq> None"
  proof
    assume "pick_overlay cidr used [2..<2 + n] = None"
    then have "pick_overlay cidr used ([2..<2 + ?m] @ [2 + ?m..<2 + n]) = None"
      by (subst split [symmetric])
    then have "(\<lambda>i. the (?host i)) ` set [2..<2 + ?m] \<subseteq> used"
      using pick_overlay_None [of cidr used "[2..<2 + ?m]"] some by blast
    then have "?m \<le> card used" using card_mono [OF used(1)] card by metis
    then show False using used(2) by linarith
  qed
  then show thesis using that by blast
qed

text \<open>The addresses that are kept as configured.\<close>

definition explicit_overlays :: "BackendNode list \<Rightarrow> string list" where
  "explicit_overlays bs = map bn_overlay_ip (filter (\<lambda>b. \<not> overlay_needs_assignment (bn_overlay_ip b)) bs)"

lemma explicit_overlays_simps [simp]:
  "explicit_overlays [] = []"
  "explicit_overlays (b # bs) =
     (if overlay_needs_assignment (bn_overlay_ip b) then explicit_overlays bs
      else bn_overlay_ip b # explicit_overlays bs)"
  by (simp_all add: explicit_overlays_def)

lemma default_backend_overlay_needs [simp]: "overlay_needs_assignment default_backend_overlay"
  by (simp add: overlay_needs_assignment_def trim_def default_backend_overlay_def is_space_def)

lemma release_duplicates_spec:
  "release_duplicates used bs = (bs', used') \<Longrightarrow>
   used' = used \<union> set (explicit_overlays bs') \<and> distinct (explicit_overlays bs') \<and>
   set (explicit_overlays bs') \<inter> used = {} \<and> map bn_name bs' = map bn_name bs \<and>
   set (explicit_overlays bs') \<subseteq> set (map bn_overlay_ip bs)"
  by (induction used bs arbitrary: bs' used' rule: release_duplicates.induct)
     (auto split: if_splits prod.splits)

text \<open>The second pass under the assumption that a free address is always found.\<close>

lemma assign_backends_spec:
  assumes free: "\<And>u. finite u \<Longrightarrow> card u < card used + length (filter (\<lambda>b. overlay_needs_assignment (bn_overlay_ip b)) bs)
      \<Longrightarrow> pick_overlay cidr u is \<noteq> None"
    and "finite used" "set (explicit_overlays bs) \<subseteq> used" "distinct (explicit_overlays bs)"
  shows "distinct (map bn_overlay_ip (assign_backends cidr is used bs)) \<and>
    (\<forall>ov\<in>set (map bn_overlay_ip (assign_backends cidr is used bs)).
       ov \<in> set (explicit_overlays bs) \<or> ov \<notin> used \<and> (\<exists>i\<in>set is. overlay_host cidr (of_nat i) = Some ov)) \<and>
    map bn_name (assign_backends cidr is used bs) = map bn_name bs"
  using assms
proof (induction bs arbitrary: used)
  case (Cons b bs)
  show ?case
  proof (cases "overlay_needs_assignment (bn_overlay_ip b)")
    case False
    have "distinct (map bn_overlay_ip (assign_backends cidr is used bs)) \<and>
      (\<forall>ov\<in>set (map bn_overlay_ip (assign_backends cidr is used bs)).
         ov \<in> set (explicit_overlays bs) \<or> ov \<notin> used \<and> (\<exists>i\<in>set is. overlay_host cidr (of_nat i) = Some ov)) \<and>
      map bn_name (assign_backends cidr is used bs) = map bn_name bs"
      by (rule Cons.IH) (use Cons.prems False in auto)
    then show ?thesis using Cons.prems False by auto
  next
    case True
    obtain ov where ov: "pick_overlay cidr used is = Some ov"
      using Cons.prems(1) [OF Cons.prems(2)] True by auto
    note new = pick_overlay_Some [OF ov]
    have "distinct (map bn_overlay_ip (assign_backends cidr is (insert ov used) bs)) \<and>
      (\<forall>ov'\<in>set (map bn_overlay_ip (assign_backends cidr is (insert ov used) bs)).
         ov' \<in> set (explicit_overlays bs) \<or> ov' \<notin> insert ov used \<and> (\<exists>i\<in>set is. overlay_host cidr (of_nat i) = Some ov')) \<and>
      map bn_name (assign_backends cidr is (insert ov used) bs) = map bn_name bs"
      by (rule Cons.IH) (use Cons.prems True new in auto)
    then show ?thesis using Cons.prems True new ov by auto
  qed
qed simp

lemma explicit_plus_needy:
  "length (explicit_overlays bs) + length (filter (\<lambda>b. overlay_needs_assignment (bn_overlay_ip b)) bs) = length bs"
  unfolding explicit_overlays_def by (simp add: sum_length_filter_compl add.commute)

lemma host_indices_range:
  assumes "length (fc_gateway_nodes f) + length (fc_backend_nodes f) + 256 < 2 ^ 32"
  shows "host_indices f = [2..<2 + (length (fc_gateway_nodes f) + length (fc_backend_nodes f) + 255)]"
proof -
  let ?n = "length (fc_gateway_nodes f) + length (fc_backend_nodes f) + 256"
  have "unat (of_nat ?n :: u32) = ?n" by (rule unat_of_nat_lt) (use assms in simp)
  moreover have "of_nat (length (fc_backend_nodes f)) + of_nat (length (fc_gateway_nodes f)) + 256 = (of_nat ?n :: u32)"
    by simp
  ultimately have "unat (of_nat (length (fc_backend_nodes f)) + of_nat (length (fc_gateway_nodes f)) + 256 :: u32) = ?n"
    by (simp only:)
  then show ?thesis unfolding host_indices_def Let_def by simp
qed

definition gateway_overlays :: "FileConfig \<Rightarrow> string set" where
  "gateway_overlays f = insert (gwc_overlay_ip (fc_gateway f)) (set (map gn_overlay_ip (fc_gateway_nodes f)))"

lemma card_used_after_release:
  assumes "release_duplicates (gateway_overlays f) bs0 = (bs, used')"
  shows "card used' + length (filter (\<lambda>b. overlay_needs_assignment (bn_overlay_ip b)) bs)
    \<le> Suc (length (fc_gateway_nodes f) + length bs0)"
proof -
  note spec = release_duplicates_spec [OF assms]
  have "card (gateway_overlays f) \<le> Suc (length (fc_gateway_nodes f))"
    unfolding gateway_overlays_def using card_length [of "map gn_overlay_ip (fc_gateway_nodes f)"]
    by (intro card_insert_le_m1) simp_all
  moreover have "card used' \<le> card (gateway_overlays f) + length (explicit_overlays bs)"
    unfolding spec [THEN conjunct1]
    using card_Un_le [of "gateway_overlays f" "set (explicit_overlays bs)"] card_length [of "explicit_overlays bs"] by linarith
  moreover have "length bs = length bs0" using spec by (metis length_map)
  ultimately show ?thesis using explicit_plus_needy [of bs] by linarith
qed


definition two_backends :: FileConfig where
  "two_backends = (default_file_config ''gw-1'')\<lparr>fc_node_role := Gateway,
     fc_backend_nodes :=
       [\<lparr>bn_name = ''b1'', bn_public_ip = default_auto_ip, bn_underlay_ip = V4 0xC0000214, bn_overlay_ip = ''auto''\<rparr>,
        \<lparr>bn_name = ''b2'', bn_public_ip = default_auto_ip, bn_underlay_ip = V4 0xC0000215, bn_overlay_ip = default_backend_overlay\<rparr>]\<rparr>"


end
