(* ===== verification/Config_Validate.thy ===== *)
theory Config_Validate
  imports Config_Normalize
begin

text \<open>
  Validation of the configuration: \<^verbatim>\<open>edge-lb/src/config/validate.rs\<close> and
  \<^verbatim>\<open>edge-lb/src/config/return_contract.rs\<close>.  A check gives \<open>None\<close> when it passes and \<open>Some e\<close> for its
  \<^verbatim>\<open>bail!\<close>; a validator is the first failing check in the source's order.  A \<^verbatim>\<open>HashSet\<close> that a loop fills
  is a set argument of the recursion.
\<close>

datatype return_path_error =
    PathDscp u32 | PathMarkZero | PathTableZero | PathDscpTwice u32 | PathMarkTwice u32 | PathTableTwice u32

datatype probe_error = ProbeType | ProbePortZero | ProbePortUnused | ProbePeriodZero | ProbePayload | ProbeTls

datatype config_error =
    LogLevelEmpty | StunServerEmpty nat | StunServerForm nat | StunServerPort nat
  | DscpRange | VniRange | VxlanPortZero | MtuTooSmall | MssTooBig | CtMarkRange | FwmarkForm
  | RouteTableZero | DevicesEqual | WatchIntervalZero | ReturnPath return_path_error
  | TooManyXdsGateways nat | XdsSourceWithoutControlPlane | BadOverlayCidr | Capacity capacity_error
  | BadGatewayOverlay | GatewayOverlayOutside | BadGatewayNodeOverlay nat | GatewayIsBackend nat
  | BackendNameEmpty nat | BackendNameDuplicate string | BackendUnderlayDuplicate IpAddr
  | BackendOverlayDuplicate string | BadBackendOverlay nat | BackendOverlayOutside nat
  | StandbyIsActive | GroupNameEmpty nat | GroupNameDuplicate string | Probe string probe_error
  | TargetWeightZero string nat | TargetUnspecified string nat | TargetBackendUnknown string nat
  | ListenerNameEmpty nat | ListenerNameDuplicate string | ListenerPortZero string
  | ListenerTargetPortZero string | ListenerTimeoutZero string | ListenerVipUnspecified string
  | ListenerVipDuplicate string | ListenerGroupUnknown string | ListenerNoProtocol string
  | ListenerKeyDuplicate u16 Protocol | ChashCapacity nat | TokenTooShort | BadTrustedCidr string
  | BadListen string | TokenRequired | GatewayPortZero

definition ensure :: "bool \<Rightarrow> 'e \<Rightarrow> 'e option" where
  "ensure cond e = (if cond then None else Some e)"

fun first_err :: "'e option list \<Rightarrow> 'e option" where
  "first_err [] = None"
| "first_err (Some e # _) = Some e"
| "first_err (None # rest) = first_err rest"

lemma first_err_None [simp]: "first_err cs = None \<longleftrightarrow> (\<forall>c\<in>set cs. c = None)"
  by (induction cs rule: first_err.induct) auto

lemma ensure_None [simp]: "ensure cond e = None \<longleftrightarrow> cond"
  by (simp add: ensure_def)

section \<open>Return-path contract\<close>

fun validate_return_paths ::
    "u32 set \<Rightarrow> u32 set \<Rightarrow> u32 set \<Rightarrow> GatewayReturnPath list \<Rightarrow> return_path_error option" where
  "validate_return_paths dscps marks tables [] = None"
| "validate_return_paths dscps marks tables (path # rest) =
     first_err
       [ensure (1 \<le> grp_dscp path \<and> grp_dscp path \<le> 63) (PathDscp (grp_dscp path)),
        ensure (grp_mark path \<noteq> 0) PathMarkZero,
        ensure (grp_route_table_id path \<noteq> 0) PathTableZero,
        ensure (grp_dscp path \<notin> dscps) (PathDscpTwice (grp_dscp path)),
        ensure (grp_mark path \<notin> marks) (PathMarkTwice (grp_mark path)),
        ensure (grp_route_table_id path \<notin> tables) (PathTableTwice (grp_route_table_id path)),
        validate_return_paths (insert (grp_dscp path) dscps) (insert (grp_mark path) marks)
          (insert (grp_route_table_id path) tables) rest]"

definition validate_return_contract :: "GatewayReturnPath list \<Rightarrow> return_path_error option" where
  "validate_return_contract paths = validate_return_paths {} {} {} paths"

definition validate_backend_return_paths :: "FileConfig \<Rightarrow> return_path_error option" where
  "validate_backend_return_paths file = validate_return_contract (backend_return_paths file)"

section \<open>Field checks\<close>

text \<open>\<^verbatim>\<open>str::split_once("]:")\<close>, of which only the right part is used.\<close>

fun after_bracket :: "string \<Rightarrow> string option" where
  "after_bracket (a # b # rest) = (if a = CHR '']'' \<and> b = CHR '':'' then Some rest else after_bracket (b # rest))"
| "after_bracket _ = None"

definition validate_stun_server :: "nat \<Rightarrow> string \<Rightarrow> config_error option" where
  "validate_stun_server index server0 =
     (let server = trim server0 in
      if server = [] then Some (StunServerEmpty index)
      else case (if hd server = CHR ''['' then after_bracket (tl server)
                 else map_option snd (rsplit_once CHR '':'' server)) of
             None \<Rightarrow> Some (StunServerForm index)
           | Some port \<Rightarrow>
               (case parse_u16 port of
                  None \<Rightarrow> Some (StunServerPort index)
                | Some p \<Rightarrow> ensure (p \<noteq> 0) (StunServerPort index)))"

definition effective_backend_xds_gateways :: "FileConfig \<Rightarrow> string list" where
  "effective_backend_xds_gateways file =
     (case bkc_xds (fc_backend file) of
        None \<Rightarrow> []
      | Some xds \<Rightarrow>
          if bxc_gateways xds = [] \<and> trim (bxc_gateway xds) \<noteq> [] then [bxc_gateway xds] else bxc_gateways xds)"

definition validate_native_listener :: "Listener \<Rightarrow> config_error option" where
  "validate_native_listener listener =
     ensure (ls_inactive_timeout listener \<noteq> Some 0) (ListenerTimeoutZero (ls_name listener))"

definition validate_probe_config :: "TargetGroup \<Rightarrow> probe_error option" where
  "validate_probe_config probe =
     (let normalized = to_ascii_lowercase (trim (case tg_probe_type probe of Some t \<Rightarrow> t | None \<Rightarrow> []));
          non_blank = (\<lambda>v. case v of Some t \<Rightarrow> trim t \<noteq> [] | None \<Rightarrow> False);
          has_payload = (non_blank (tg_probe_req probe) \<or> non_blank (tg_probe_resp probe))
      in first_err
       [ensure (normalized = [] \<or> normalized \<in> {''none'', ''ping'', ''tcp'', ''udp'', ''http'', ''https''}) ProbeType,
        (case tg_probe_port probe of
           None \<Rightarrow> None
         | Some port \<Rightarrow> first_err
             [ensure (port \<noteq> 0) ProbePortZero,
              ensure (normalized \<notin> {''none'', ''ping''}) ProbePortUnused]),
        ensure (tg_period_secs probe \<noteq> Some 0) ProbePeriodZero,
        ensure (has_payload \<longrightarrow> normalized \<in> {''tcp'', ''udp'', ''http'', ''https''}) ProbePayload,
        ensure (tg_probe_skip_tls_verify probe \<longrightarrow> normalized = ''https'') ProbeTls])"

definition max_consistent_hash_datapath_listeners :: nat where
  "max_consistent_hash_datapath_listeners = 262144 div 1024"

definition unique_protocol_count :: "Protocol list \<Rightarrow> nat" where
  "unique_protocol_count protocols = card (set protocols)"

definition configured_listener_expansion_count :: "FileConfig \<Rightarrow> Listener \<Rightarrow> nat" where
  "configured_listener_expansion_count file listener =
     (1 + card (set (ls_vip_ips listener) - {nw_gateway_ip (fc_network file)})) * unique_protocol_count (ls_protocols listener)"

definition validate_consistent_hash_listener_capacity ::
    "FileConfig \<Rightarrow> (FileConfig \<Rightarrow> Listener \<Rightarrow> nat) \<Rightarrow> config_error option" where
  "validate_consistent_hash_listener_capacity file expansion_count =
     (let expanded = sum_list (map (expansion_count file)
            (filter (\<lambda>l. ls_select l = ConsistentHash) (fc_listeners file)))
      in ensure (expanded \<le> max_consistent_hash_datapath_listeners) (ChashCapacity expanded))"

section \<open>Loops over the inventory\<close>

fun validate_gateway_nodes :: "BackendNode list \<Rightarrow> nat \<Rightarrow> GatewayNode list \<Rightarrow> config_error option" where
  "validate_gateway_nodes backends idx [] = None"
| "validate_gateway_nodes backends idx (gw # rest) =
     first_err
       [ensure (parse_prefix (gn_overlay_ip gw) \<noteq> None) (BadGatewayNodeOverlay idx),
        ensure (is_unspecified (gn_underlay_ip gw) \<or> \<not> (\<exists>b\<in>set backends. bn_underlay_ip b = gn_underlay_ip gw))
          (GatewayIsBackend idx),
        validate_gateway_nodes backends (Suc idx) rest]"

fun validate_backends ::
    "IpAddr \<times> u8 \<Rightarrow> bool \<Rightarrow> string set \<Rightarrow> IpAddr set \<Rightarrow> string set \<Rightarrow> nat \<Rightarrow> BackendNode list \<Rightarrow> config_error option" where
  "validate_backends overlay_cidr cross_overlay names underlays overlays idx [] = None"
| "validate_backends overlay_cidr cross_overlay names underlays overlays idx (b # rest) =
     first_err
       [ensure (trim (bn_name b) \<noteq> []) (BackendNameEmpty idx),
        ensure (bn_name b \<notin> names) (BackendNameDuplicate (bn_name b)),
        ensure (is_unspecified (bn_underlay_ip b) \<or> bn_underlay_ip b \<notin> underlays)
          (BackendUnderlayDuplicate (bn_underlay_ip b)),
        ensure (bn_overlay_ip b \<notin> overlays) (BackendOverlayDuplicate (bn_overlay_ip b)),
        (case parse_prefix (bn_overlay_ip b) of
           None \<Rightarrow> Some (BadBackendOverlay idx)
         | Some overlay \<Rightarrow>
             ensure (cross_overlay \<or> same_subnet overlay_cidr overlay) (BackendOverlayOutside idx)),
        validate_backends overlay_cidr cross_overlay (insert (bn_name b) names)
          (if is_unspecified (bn_underlay_ip b) then underlays else insert (bn_underlay_ip b) underlays)
          (insert (bn_overlay_ip b) overlays) (Suc idx) rest]"

fun validate_targets :: "BackendNode list \<Rightarrow> string \<Rightarrow> nat \<Rightarrow> BackendTarget list \<Rightarrow> config_error option" where
  "validate_targets backends group_name idx [] = None"
| "validate_targets backends group_name idx (target # rest) =
     first_err
       [ensure (bt_weight target \<noteq> 0) (TargetWeightZero group_name idx),
        ensure (\<not> is_unspecified (bt_address target)) (TargetUnspecified group_name idx),
        ensure (case bt_backend target of
                  None \<Rightarrow> True
                | Some name \<Rightarrow> \<exists>node\<in>set backends. bn_name node = name) (TargetBackendUnknown group_name idx),
        validate_targets backends group_name (Suc idx) rest]"

fun validate_target_groups ::
    "BackendNode list \<Rightarrow> string set \<Rightarrow> nat \<Rightarrow> TargetGroup list \<Rightarrow> config_error option" where
  "validate_target_groups backends names idx [] = None"
| "validate_target_groups backends names idx (tgroup # rest) =
     first_err
       [ensure (trim (tg_name tgroup) \<noteq> []) (GroupNameEmpty idx),
        ensure (tg_name tgroup \<notin> names) (GroupNameDuplicate (tg_name tgroup)),
        (if tg_monitor tgroup then map_option (Probe (tg_name tgroup)) (validate_probe_config tgroup) else None),
        validate_targets backends (tg_name tgroup) 0 (tg_targets tgroup),
        validate_target_groups backends (insert (tg_name tgroup) names) (Suc idx) rest]"

fun insert_listener_keys ::
    "u16 \<Rightarrow> (u16 \<times> Protocol) set \<Rightarrow> Protocol list \<Rightarrow> config_error + (u16 \<times> Protocol) set" where
  "insert_listener_keys port keys [] = Inr keys"
| "insert_listener_keys port keys (protocol # rest) =
     (if (port, protocol) \<in> keys then Inl (ListenerKeyDuplicate port protocol)
      else insert_listener_keys port (insert (port, protocol) keys) rest)"

fun validate_listeners ::
    "string set \<Rightarrow> string set \<Rightarrow> (u16 \<times> Protocol) set \<Rightarrow> nat \<Rightarrow> Listener list \<Rightarrow> config_error option" where
  "validate_listeners group_names names keys idx [] = None"
| "validate_listeners group_names names keys idx (l # rest) =
     first_err
       [ensure (trim (ls_name l) \<noteq> []) (ListenerNameEmpty idx),
        ensure (ls_name l \<notin> names) (ListenerNameDuplicate (ls_name l)),
        ensure (ls_port l \<noteq> 0) (ListenerPortZero (ls_name l)),
        ensure (ls_target_port l \<noteq> 0) (ListenerTargetPortZero (ls_name l)),
        validate_native_listener l,
        ensure (\<forall>vip\<in>set (ls_vip_ips l). \<not> is_unspecified vip) (ListenerVipUnspecified (ls_name l)),
        ensure (card (set (ls_vip_ips l)) = length (ls_vip_ips l)) (ListenerVipDuplicate (ls_name l)),
        ensure (ls_target_group l \<in> group_names) (ListenerGroupUnknown (ls_name l)),
        ensure (ls_protocols l \<noteq> []) (ListenerNoProtocol (ls_name l)),
        (case insert_listener_keys (ls_port l) keys (ls_protocols l) of
           Inl e \<Rightarrow> Some e
         | Inr keys' \<Rightarrow> validate_listeners group_names (insert (ls_name l) names) keys' (Suc idx) rest)]"

section \<open>The validator\<close>

definition validate_network :: "FileConfig \<Rightarrow> config_error option" where
  "validate_network file =
     (let n = fc_network file; b = fc_backend file in
      first_err
       [ensure (trim (fc_log_level file) \<noteq> []) LogLevelEmpty,
        first_err (map (\<lambda>(index, server). validate_stun_server index server)
          (enumerate 0 (idc_stun_servers (fc_discovery file)))),
        ensure (1 \<le> nw_dscp n \<and> nw_dscp n \<le> 63) DscpRange,
        ensure (nw_vni n \<noteq> 0 \<and> nw_vni n \<le> 0xffffff) VniRange,
        ensure (nw_vxlan_port n \<noteq> 0) VxlanPortZero,
        ensure (nw_vxlan_mtu n \<ge> 576) MtuTooSmall,
        ensure (bkc_mss b \<noteq> 0 \<and> bkc_mss b \<le> saturating_sub (nw_vxlan_mtu n) 40) MssTooBig,
        ensure (bkc_ct_mark b \<noteq> 0 \<and> bkc_ct_mark b \<le> 0xff) CtMarkRange,
        ensure (starts_with ''0x'' (bkc_fwmark b) \<and> CHR ''/'' \<in> set (bkc_fwmark b)) FwmarkForm,
        ensure (bkc_route_table_id b \<noteq> 0) RouteTableZero,
        ensure (nw_underlay_dev n \<noteq> nw_vxlan_dev n) DevicesEqual,
        ensure (hac_watch_interval_secs (fc_ha file) \<noteq> 0) WatchIntervalZero,
        (if fc_node_role file = Backend then first_err
           [(if fc_backend_return_paths file \<noteq> [] then map_option ReturnPath (validate_backend_return_paths file) else None),
            (let k = length (effective_backend_xds_gateways file) in ensure (k \<le> 2) (TooManyXdsGateways k))]
         else None),
        ensure (hac_active_source (fc_ha file) = SourceXds \<longrightarrow>
            cpc_enabled (fc_control_plane file) \<and> cpc_mode (fc_control_plane file) = ModeXds)
          XdsSourceWithoutControlPlane])"

definition validate_inventory :: "FileConfig \<Rightarrow> config_error option" where
  "validate_inventory file =
     (let n = fc_network file; g = fc_gateway file; backends = backend_nodes_effective file in
      case parse_prefix (nw_overlay_cidr n) of
        None \<Rightarrow> Some BadOverlayCidr
      | Some overlay_cidr \<Rightarrow>
          first_err
           [map_option Capacity (validate_overlay_capacity overlay_cidr (length backends + 1)),
            (case parse_prefix (gwc_overlay_ip g) of
               None \<Rightarrow> Some BadGatewayOverlay
             | Some own \<Rightarrow> ensure (same_subnet overlay_cidr own) GatewayOverlayOutside),
            validate_gateway_nodes backends 0 (fc_gateway_nodes file),
            validate_backends overlay_cidr
              (fc_node_role file = Backend \<and> hac_active_source (fc_ha file) = SourceXds) {} {} {} 0 backends,
            ensure (nw_standby_gateway_ip n \<noteq> Some (nw_gateway_ip n)) StandbyIsActive])"

definition validate_services :: "FileConfig \<Rightarrow> config_error option" where
  "validate_services file =
     (if fc_node_role file = Gateway then first_err
        [validate_target_groups (backend_nodes_effective file) {} 0 (fc_target_groups file),
         validate_listeners (set (map tg_name (fc_target_groups file))) {} {} 0 (fc_listeners file),
         validate_consistent_hash_listener_capacity file configured_listener_expansion_count]
      else None)"

definition check_cidrs :: "string list \<Rightarrow> config_error option" where
  "check_cidrs cidrs = first_err (map (\<lambda>cidr. ensure (parse_prefix cidr \<noteq> None) (BadTrustedCidr cidr)) cidrs)"

definition check_token_length :: "string option \<Rightarrow> config_error option" where
  "check_token_length token = (case token of Some t \<Rightarrow> ensure (length t \<ge> 16) TokenTooShort | None \<Rightarrow> None)"

definition check_listen :: "string \<Rightarrow> string option \<Rightarrow> config_error option" where
  "check_listen listen token =
     (case parse_socket_addr listen of
        None \<Rightarrow> Some (BadListen listen)
      | Some (ip, _) \<Rightarrow> ensure (is_loopback ip \<or> token \<noteq> None) TokenRequired)"

definition validate_access :: "FileConfig \<Rightarrow> config_error option" where
  "validate_access file =
     (let api = fc_api file; cp = fc_control_plane file in
      first_err
       [check_token_length (api_auth_token api),
        check_cidrs (api_trusted_source_cidrs api),
        (if fc_node_role file = Gateway then first_err
           [check_listen (api_listen api) (api_auth_token api),
            (case gwc_metrics (fc_gateway file) of
               None \<Rightarrow> None
             | Some metrics \<Rightarrow> first_err
                 [ensure (gmc_enabled metrics \<longrightarrow> parse_socket_addr (gmc_listen metrics) \<noteq> None) (BadListen (gmc_listen metrics)),
                  check_cidrs (gmc_trusted_source_cidrs metrics)])]
         else None),
        (if cpc_enabled cp then first_err
           [check_listen (cpc_listen cp) (cpc_token cp),
            check_token_length (cpc_token cp),
            ensure (\<not> (fc_node_role file = Backend \<and> hac_active_source (fc_ha file) = SourceXds
              \<and> cpc_gateway_port cp = Some 0)) GatewayPortZero,
            check_cidrs (cpc_trusted_source_cidrs cp)]
         else None)])"

definition validate_config :: "FileConfig \<Rightarrow> config_error option" where
  "validate_config file = first_err [validate_network file, validate_inventory file, validate_services file, validate_access file]"

section \<open>What a validated configuration satisfies\<close>

lemma validate_return_paths_None:
  "validate_return_paths dscps marks tables paths = None \<longleftrightarrow>
   (\<forall>p\<in>set paths. 1 \<le> grp_dscp p \<and> grp_dscp p \<le> 63 \<and> grp_mark p \<noteq> 0 \<and> grp_route_table_id p \<noteq> 0
      \<and> grp_dscp p \<notin> dscps \<and> grp_mark p \<notin> marks \<and> grp_route_table_id p \<notin> tables)
   \<and> distinct (map grp_dscp paths) \<and> distinct (map grp_mark paths) \<and> distinct (map grp_route_table_id paths)"
  by (induction paths arbitrary: dscps marks tables) (auto simp: image_iff)

definition listener_keys :: "Listener \<Rightarrow> (u16 \<times> Protocol) list" where
  "listener_keys l = map (Pair (ls_port l)) (ls_protocols l)"

definition listener_ok :: "string set \<Rightarrow> Listener \<Rightarrow> bool" where
  "listener_ok group_names l \<longleftrightarrow>
     ls_port l \<noteq> 0 \<and> ls_target_port l \<noteq> 0 \<and> ls_inactive_timeout l \<noteq> Some 0 \<and>
     (\<forall>vip\<in>set (ls_vip_ips l). \<not> is_unspecified vip) \<and> distinct (ls_vip_ips l) \<and>
     ls_target_group l \<in> group_names \<and> ls_protocols l \<noteq> []"

lemma insert_listener_keys_Inr:
  "insert_listener_keys port keys ps = Inr keys' \<Longrightarrow>
   distinct ps \<and> keys' = keys \<union> Pair port ` set ps \<and> Pair port ` set ps \<inter> keys = {}"
  by (induction port keys ps rule: insert_listener_keys.induct) (auto split: if_splits)

lemma validate_listeners_None:
  assumes "validate_listeners group_names names keys idx ls = None"
  shows "(\<forall>l\<in>set ls. listener_ok group_names l) \<and> distinct (concat (map listener_keys ls)) \<and>
    set (concat (map listener_keys ls)) \<inter> keys = {} \<and> distinct (map ls_name ls) \<and> ls_name ` set ls \<inter> names = {}"
  using assms
proof (induction ls arbitrary: names keys idx)
  case (Cons l ls)
  then obtain keys' where keys': "insert_listener_keys (ls_port l) keys (ls_protocols l) = Inr keys'"
    and rest: "validate_listeners group_names (insert (ls_name l) names) keys' (Suc idx) ls = None"
    by (auto split: sum.splits)
  note ih = Cons.IH [OF rest] and here = insert_listener_keys_Inr [OF keys']
  have "listener_ok group_names l" "ls_name l \<notin> names"
    using Cons.prems by (simp_all add: listener_ok_def validate_native_listener_def card_distinct)
  moreover have "distinct (listener_keys l)" "set (listener_keys l) = Pair (ls_port l) ` set (ls_protocols l)"
    using here by (auto simp: listener_keys_def distinct_map inj_on_def)
  ultimately show ?case using ih here by auto
qed simp

definition target_ok :: "BackendTarget \<Rightarrow> bool" where
  "target_ok t \<longleftrightarrow> bt_weight t \<noteq> 0 \<and> \<not> is_unspecified (bt_address t)"

lemma validate_targets_None:
  "validate_targets backends group_name idx ts = None \<Longrightarrow> \<forall>t\<in>set ts. target_ok t"
  by (induction ts arbitrary: idx) (auto simp: target_ok_def)

lemma validate_target_groups_None:
  assumes "validate_target_groups backends names idx gs = None"
  shows "(\<forall>g\<in>set gs. \<forall>t\<in>set (tg_targets g). target_ok t) \<and> distinct (map tg_name gs) \<and> tg_name ` set gs \<inter> names = {}"
  using assms
proof (induction gs arbitrary: names idx)
  case (Cons g gs)
  then have "validate_targets backends (tg_name g) 0 (tg_targets g) = None" "tg_name g \<notin> names"
    "validate_target_groups backends (insert (tg_name g) names) (Suc idx) gs = None" by auto
  then show ?case using Cons.IH validate_targets_None by fastforce
qed simp

lemma validate_backends_None:
  assumes "validate_backends overlay cross names underlays overlays idx bs = None"
  shows "distinct (map bn_name bs) \<and> bn_name ` set bs \<inter> names = {} \<and>
    distinct (map bn_overlay_ip bs) \<and> bn_overlay_ip ` set bs \<inter> overlays = {} \<and>
    (\<forall>b\<in>set bs. trim (bn_name b) \<noteq> [] \<and> (\<exists>ov. parse_prefix (bn_overlay_ip b) = Some ov \<and> (cross \<or> same_subnet overlay ov)))"
  using assms
proof (induction bs arbitrary: names underlays overlays idx)
  case (Cons b bs)
  from Cons.prems have "validate_backends overlay cross (insert (bn_name b) names)
      (if is_unspecified (bn_underlay_ip b) then underlays else insert (bn_underlay_ip b) underlays)
      (insert (bn_overlay_ip b) overlays) (Suc idx) bs = None" by simp
  from Cons.IH [OF this] Cons.prems show ?case by (auto split: option.splits)
qed simp

text \<open>The facts about listeners and target groups that the datapath projection needs.\<close>

lemma validated_services:
  assumes "validate_config file = None" "fc_node_role file = Gateway"
  shows "\<forall>l\<in>set (fc_listeners file). listener_ok (tg_name ` set (fc_target_groups file)) l"
    "distinct (concat (map listener_keys (fc_listeners file)))"
    "\<forall>g\<in>set (fc_target_groups file). \<forall>t\<in>set (tg_targets g). target_ok t"
    "distinct (map tg_name (fc_target_groups file))"
    "validate_consistent_hash_listener_capacity file configured_listener_expansion_count = None"
proof -
  have all: "validate_target_groups (backend_nodes_effective file) {} 0 (fc_target_groups file) = None"
    "validate_listeners (set (map tg_name (fc_target_groups file))) {} {} 0 (fc_listeners file) = None"
    "validate_consistent_hash_listener_capacity file configured_listener_expansion_count = None"
    using assms by (simp_all add: validate_config_def validate_services_def)
  show "\<forall>l\<in>set (fc_listeners file). listener_ok (tg_name ` set (fc_target_groups file)) l"
    "distinct (concat (map listener_keys (fc_listeners file)))"
    using validate_listeners_None [OF all(2)] by simp_all
  show "\<forall>g\<in>set (fc_target_groups file). \<forall>t\<in>set (tg_targets g). target_ok t"
    "distinct (map tg_name (fc_target_groups file))"
    using validate_target_groups_None [OF all(1)] by simp_all
  show "validate_consistent_hash_listener_capacity file configured_listener_expansion_count = None"
    by (rule all(3))
qed

section \<open>The derived return contract\<close>

lemma dedup_by_ids:
  "f ` set (dedup_by (\<lambda>a b. f a = f b) xs) = f ` set xs"
  by (induction "\<lambda>a b. f a = f b" xs rule: dedup_by.induct) auto

lemma dedup_paths_ids: "return_path_id ` set (dedup_gateway_return_paths paths) = return_path_id ` set paths"
  by (simp add: dedup_gateway_return_paths_def dedup_by_ids)

text \<open>C18. The contract a backend derives from its own gateway inventory.  Every derived path carries the one
  configured DSCP, so as soon as two gateways with different underlays have a readable overlay address,
  the contract is rejected as ambiguous: a backend without received return paths can be applied with one
  gateway only.\<close>

theorem derived_contract_ambiguous:
  assumes none: "fc_backend_return_paths file = []"
    and gws: "g \<in> set (fc_gateway_nodes file)" "h \<in> set (fc_gateway_nodes file)"
    and ov: "parse_overlay_host (gn_overlay_ip g) \<noteq> None" "parse_overlay_host (gn_overlay_ip h) \<noteq> None"
    and neq: "gn_underlay_ip g \<noteq> gn_underlay_ip h"
  shows "validate_backend_return_paths file \<noteq> None"
proof
  let ?derive = "derived_return_path file (map_option bn_overlay_ip (local_backend file))"
  let ?paths = "List.map_filter ?derive (fc_gateway_nodes file)"
  have derived: "\<exists>p. ?derive x = Some p \<and> grp_gateway_underlay_ip p = gn_underlay_ip x \<and> grp_dscp p = nw_dscp (fc_network file)"
    if "parse_overlay_host (gn_overlay_ip x) \<noteq> None" for x
    using that by (auto simp: derived_return_path_def Let_def)
  from derived [OF ov(1)] derived [OF ov(2)] obtain p q where pq: "?derive g = Some p" "?derive h = Some q"
    "grp_gateway_underlay_ip p \<noteq> grp_gateway_underlay_ip q" "grp_dscp p = grp_dscp q" using neq by auto
  then have "return_path_id p \<in> return_path_id ` set ?paths" "return_path_id q \<in> return_path_id ` set ?paths"
    using gws by (force simp: List.map_filter_def)+
  then have "return_path_id p \<in> return_path_id ` set (dedup_gateway_return_paths ?paths)"
    "return_path_id q \<in> return_path_id ` set (dedup_gateway_return_paths ?paths)"
    by (simp_all only: dedup_paths_ids)
  then obtain p' q' where out: "p' \<in> set (dedup_gateway_return_paths ?paths)" "q' \<in> set (dedup_gateway_return_paths ?paths)"
    "return_path_id p' = return_path_id p" "return_path_id q' = return_path_id q"
    by (elim imageE) (metis that)
  assume "validate_backend_return_paths file = None"
  then have "distinct (map grp_dscp (dedup_gateway_return_paths ?paths))"
    using none by (simp add: validate_backend_return_paths_def validate_return_contract_def
      validate_return_paths_None backend_return_paths_def)
  then have "p' = q'"
    using out pq(4) by (auto simp: distinct_map inj_on_def return_path_id_def)
  then show False using out pq(3) by (simp add: return_path_id_def)
qed

definition two_gateways :: FileConfig where
  "two_gateways = (default_file_config ''b-1'')\<lparr>fc_gateway_nodes :=
     [\<lparr>gn_name = ''gateway-a'', gn_public_ip = default_auto_ip, gn_underlay_ip = V4 0xC000020A, gn_overlay_ip = ''10.44.0.1/24''\<rparr>,
      \<lparr>gn_name = ''gateway-b'', gn_public_ip = default_auto_ip, gn_underlay_ip = V4 0xC000020B, gn_overlay_ip = ''10.45.0.1/24''\<rparr>]\<rparr>"

theorem derived_contract_ambiguous_witness: "validate_backend_return_paths two_gateways \<noteq> None"
proof (rule derived_contract_ambiguous)
  show "fc_backend_return_paths two_gateways = []"
    by (simp add: two_gateways_def default_file_config_def)
  show "hd (fc_gateway_nodes two_gateways) \<in> set (fc_gateway_nodes two_gateways)"
    "last (fc_gateway_nodes two_gateways) \<in> set (fc_gateway_nodes two_gateways)"
    by (simp_all add: two_gateways_def)
  show "gn_underlay_ip (hd (fc_gateway_nodes two_gateways)) \<noteq> gn_underlay_ip (last (fc_gateway_nodes two_gateways))"
    by (simp add: two_gateways_def)
  show "parse_overlay_host (gn_overlay_ip (hd (fc_gateway_nodes two_gateways))) \<noteq> None"
    "parse_overlay_host (gn_overlay_ip (last (fc_gateway_nodes two_gateways))) \<noteq> None"
    by code_simp+
qed

end
