(* ===== verification/Native_Model.thy ===== *)
theory Native_Model
  imports Config_Validate
begin

text \<open>
  The control-plane view of the native datapath: \<^verbatim>\<open>edge-lb/src/provider/native/model.rs\<close>.  An \<^verbatim>\<open>Ipv4Addr\<close> is the 32-bit number of its octets in network
  order, so \<^verbatim>\<open>u32::from_be_bytes(addr.octets())\<close> is the identity.  Errors are vals of
  \<open>model_error\<close> in the left summand.
\<close>

section \<open>Native listeners\<close>

datatype model_error = MissingTargetGroup string string | AddressUnspecified | Ipv6Unsupported

datatype NativeProtocol = NativeTcp | NativeUdp

primrec ip_proto :: "NativeProtocol \<Rightarrow> u8" where
  "ip_proto NativeTcp = 6"
| "ip_proto NativeUdp = 17"

primrec native_protocol :: "Protocol \<Rightarrow> NativeProtocol" where
  "native_protocol ProtocolTcp = NativeTcp"
| "native_protocol ProtocolUdp = NativeUdp"

record NativeListenerKey =
  key_vip_ip :: u32
  key_vip_port :: u16
  key_protocol :: NativeProtocol

datatype NativeTargetState = Active | Inactive

record NativeTarget =
  nt_address :: u32
  nt_port :: u16
  nt_weight :: u32
  nt_state :: NativeTargetState

record NativeListener =
  nl_name :: string
  nl_target_group :: string
  nl_key :: NativeListenerKey
  nl_select :: u32
  nl_inactive_timeout_secs :: u32
  nl_dscp :: u32
  nl_targets :: "NativeTarget list"

definition ipv4_addr :: "IpAddr \<Rightarrow> model_error + u32" where
  "ipv4_addr ip =
     (case ip of
        V4 a \<Rightarrow> if \<not> is_unspecified (V4 a) then Inr a else Inl AddressUnspecified
      | V6 _ \<Rightarrow> Inl Ipv6Unsupported)"

text \<open>\<^verbatim>\<open>iter().map(f).collect::<Result<Vec<_>>>()\<close>.\<close>

fun collect_results :: "('e + 'a) list \<Rightarrow> 'e + 'a list" where
  "collect_results [] = Inr []"
| "collect_results (Inl e # rest) = Inl e"
| "collect_results (Inr x # rest) =
     (case collect_results rest of Inl e \<Rightarrow> Inl e | Inr xs \<Rightarrow> Inr (x # xs))"

fun merge_configured :: "u32 list \<Rightarrow> IpAddr list \<Rightarrow> model_error + u32 list" where
  "merge_configured vals [] = Inr vals"
| "merge_configured vals (vip # rest) =
     (case ipv4_addr vip of
        Inl e \<Rightarrow> Inl e
      | Inr a \<Rightarrow> merge_configured (if a \<in> set vals then vals else vals @ [a]) rest)"

definition merge_vip_ips :: "u32 \<Rightarrow> IpAddr list \<Rightarrow> u32 option \<Rightarrow> model_error + u32 list" where
  "merge_vip_ips gateway configured shared =
     (case merge_configured [gateway] configured of
        Inl e \<Rightarrow> Inl e
      | Inr vals \<Rightarrow>
          (case shared of
             Some vip \<Rightarrow> Inr (if vip \<in> set vals then vals else vals @ [vip])
           | None \<Rightarrow> Inr vals))"

text \<open>The shared VIP of the HA runtime, as \<open>effective_vip_ips\<close> reads it from the state directory, is
  the argument \<open>shared\<close>.\<close>

definition effective_vip_ips :: "FileConfig \<Rightarrow> IpAddr list \<Rightarrow> u32 option \<Rightarrow> model_error + u32 list" where
  "effective_vip_ips cfg configured shared =
     (case ipv4_addr (nw_gateway_ip (fc_network cfg)) of
        Inl e \<Rightarrow> Inl e
      | Inr gateway \<Rightarrow> merge_vip_ips gateway configured shared)"

definition listener_from_target_group ::
    "FileConfig \<Rightarrow> u32 option \<Rightarrow> Listener \<Rightarrow> TargetGroup \<Rightarrow> model_error + NativeListener list" where
  "listener_from_target_group cfg shared listener tgroup =
     (case collect_results (map (\<lambda>target.
             case ipv4_addr (resolve_backend_target_address cfg target) of
               Inl e \<Rightarrow> Inl e
             | Inr address \<Rightarrow> Inr \<lparr>nt_address = address, nt_port = ls_target_port listener,
                 nt_weight = bt_weight target, nt_state = Active\<rparr>) (tg_targets tgroup)) of
        Inl e \<Rightarrow> Inl e
      | Inr targets \<Rightarrow>
          if targets = [] then Inr []
          else
          (case effective_vip_ips cfg (ls_vip_ips listener) shared of
             Inl e \<Rightarrow> Inl e
           | Inr vips \<Rightarrow>
               Inr (concat (map (\<lambda>vip. map (\<lambda>protocol.
                 \<lparr>nl_name = ls_name listener, nl_target_group = tg_name tgroup,
                  nl_key = \<lparr>key_vip_ip = vip, key_vip_port = ls_port listener,
                    key_protocol = native_protocol protocol\<rparr>,
                  nl_select = select_code (ls_select listener),
                  nl_inactive_timeout_secs = (case ls_inactive_timeout listener of Some t \<Rightarrow> t | None \<Rightarrow> 240),
                  nl_dscp = nw_dscp (fc_network cfg), nl_targets = targets\<rparr>) (ls_protocols listener)) vips))))"

fun expand_listeners :: "FileConfig \<Rightarrow> u32 option \<Rightarrow> Listener list \<Rightarrow> model_error + NativeListener list" where
  "expand_listeners cfg shared [] = Inr []"
| "expand_listeners cfg shared (listener # rest) =
     (case List.find (\<lambda>tgroup. tg_name tgroup = ls_target_group listener) (fc_target_groups cfg) of
        None \<Rightarrow> Inl (MissingTargetGroup (ls_name listener) (ls_target_group listener))
      | Some tgroup \<Rightarrow>
          (case listener_from_target_group cfg shared listener tgroup of
             Inl e \<Rightarrow> Inl e
           | Inr native \<Rightarrow>
               (case expand_listeners cfg shared rest of
                  Inl e \<Rightarrow> Inl e
                | Inr others \<Rightarrow> Inr (native @ others))))"

definition listeners_from_config :: "FileConfig \<Rightarrow> u32 option \<Rightarrow> model_error + NativeListener list" where
  "listeners_from_config cfg shared =
     (if fc_listeners cfg \<noteq> [] then expand_listeners cfg shared (fc_listeners cfg) else Inr [])"

section \<open>Projection of a validated configuration\<close>

definition ipv4_usable :: "IpAddr \<Rightarrow> bool" where
  "ipv4_usable ip \<longleftrightarrow> is_ipv4 ip \<and> \<not> is_unspecified ip"

lemma ipv4_usable_cases:
  assumes "ipv4_usable ip" obtains a where "ip = V4 a" "a \<noteq> 0" "ipv4_addr ip = Inr a"
  using assms that by (cases ip) (auto simp: ipv4_usable_def is_ipv4_def is_unspecified_def ipv4_addr_def)

lemma collect_results_Inr:
  "\<forall>x\<in>set xs. \<exists>y. f x = Inr y \<and> P x y \<Longrightarrow> \<exists>ys. collect_results (map f xs) = Inr ys \<and> list_all2 P xs ys"
  by (induction xs) auto

lemma merge_configured_Inr:
  assumes "\<forall>vip\<in>set vips. ipv4_usable vip" "distinct vals"
  shows "\<exists>out. merge_configured vals vips = Inr out \<and> distinct out \<and> set out = set vals \<union> {a. V4 a \<in> set vips}"
  using assms
proof (induction vips arbitrary: "vals")
  case (Cons vip vips)
  then obtain a where a: "vip = V4 a" "ipv4_addr vip = Inr a" by (metis ipv4_usable_cases list.set_intros(1))
  let ?vals = "if a \<in> set vals then vals else vals @ [a]"
  have "\<forall>vip\<in>set vips. ipv4_usable vip" "distinct ?vals" using Cons.prems by auto
  from Cons.IH [OF this] obtain out where "merge_configured ?vals vips = Inr out" "distinct out"
    "set out = set ?vals \<union> {a. V4 a \<in> set vips}" by blast
  then show ?case using a by auto
qed simp

lemma merge_vip_ips_Inr:
  assumes "\<forall>vip\<in>set vips. ipv4_usable vip"
  shows "\<exists>out. merge_vip_ips g vips shared = Inr out \<and> distinct out \<and>
    set out = insert g ({a. V4 a \<in> set vips} \<union> set_option shared)"
proof -
  obtain out where out: "merge_configured [g] vips = Inr out" "distinct out" "set out = insert g {a. V4 a \<in> set vips}"
    using merge_configured_Inr [OF assms, of "[g]"] by auto
  then show ?thesis by (cases shared) (auto simp: merge_vip_ips_def)
qed

lemma native_protocol_inj [simp]: "native_protocol a = native_protocol b \<longleftrightarrow> a = b"
  by (cases a; cases b) simp_all

text \<open>The listeners that one configured listener stands for.\<close>

definition native_for :: "FileConfig \<Rightarrow> Listener \<Rightarrow> string \<Rightarrow> NativeTarget list \<Rightarrow> u32 \<Rightarrow> Protocol \<Rightarrow> NativeListener" where
  "native_for cfg l group_name targets vip protocol =
     \<lparr>nl_name = ls_name l, nl_target_group = group_name,
      nl_key = \<lparr>key_vip_ip = vip, key_vip_port = ls_port l, key_protocol = native_protocol protocol\<rparr>,
      nl_select = select_code (ls_select l),
      nl_inactive_timeout_secs = (case ls_inactive_timeout l of Some t \<Rightarrow> t | None \<Rightarrow> 240),
      nl_dscp = nw_dscp (fc_network cfg), nl_targets = targets\<rparr>"

definition native_target_ok :: "NativeTarget \<Rightarrow> bool" where
  "native_target_ok t \<longleftrightarrow> nt_weight t \<noteq> 0 \<and> nt_port t \<noteq> 0 \<and> nt_address t \<noteq> 0 \<and> nt_state t = Active"

definition native_listener_ok :: "NativeListener \<Rightarrow> bool" where
  "native_listener_ok n \<longleftrightarrow> nl_targets n \<noteq> [] \<and> key_vip_port (nl_key n) \<noteq> 0 \<and> nl_inactive_timeout_secs n \<noteq> 0 \<and>
     (\<forall>t\<in>set (nl_targets n). native_target_ok t)"

text \<open>The part of a key that separates configured listeners.\<close>

definition port_key :: "NativeListener \<Rightarrow> u16 \<times> NativeProtocol" where
  "port_key n = (key_vip_port (nl_key n), key_protocol (nl_key n))"

text \<open>What is proved of the expansion \<open>ns\<close> of a listener \<open>l\<close>.\<close>

definition expands_to :: "FileConfig \<Rightarrow> u32 option \<Rightarrow> Listener \<Rightarrow> NativeListener list \<Rightarrow> bool" where
  "expands_to cfg shared l ns \<longleftrightarrow>
     distinct (map nl_key ns) \<and> (\<forall>n\<in>set ns. native_listener_ok n) \<and>
     port_key ` set ns \<subseteq> (\<lambda>p. (ls_port l, native_protocol p)) ` set (ls_protocols l) \<and>
     (\<forall>n\<in>set ns. nl_select n = select_code (ls_select l)) \<and>
     (shared = None \<longrightarrow> length ns \<le> configured_listener_expansion_count cfg l)"

lemma expansion_shape:
  assumes ok: "listener_ok groups l" and protocols: "distinct (ls_protocols l)"
    and targets: "targets \<noteq> []" "\<forall>t\<in>set targets. native_target_ok t"
    and vips: "distinct vips" "set vips = insert g ({a. V4 a \<in> set (ls_vip_ips l)} \<union> set_option shared)"
    and gateway: "nw_gateway_ip (fc_network cfg) = V4 g" and v4: "\<forall>vip\<in>set (ls_vip_ips l). ipv4_usable vip"
  shows "expands_to cfg shared l (concat (map (\<lambda>vip. map (native_for cfg l name targets vip) (ls_protocols l)) vips))"
proof -
  let ?ns = "concat (map (\<lambda>vip. map (native_for cfg l name targets vip) (ls_protocols l)) vips)"
  have "map nl_key ?ns = map (\<lambda>(vip, p). \<lparr>key_vip_ip = vip, key_vip_port = ls_port l, key_protocol = native_protocol p\<rparr>)
      (List.product vips (ls_protocols l))"
    by (simp add: product_concat_map map_concat comp_def native_for_def)
  then have "distinct (map nl_key ?ns)"
    using vips(1) protocols by (auto simp: distinct_map distinct_product inj_on_def)
  moreover have "native_listener_ok n" if "n \<in> set ?ns" for n
    using that ok targets by (auto simp: native_listener_ok_def native_for_def listener_ok_def split: option.splits)
  moreover have "length ?ns \<le> configured_listener_expansion_count cfg l" if "shared = None"
  proof -
    let ?a = "{a. V4 a \<in> set (ls_vip_ips l)}"
    have "x \<in> V4 ` (?a - {g})" if "x \<in> set (ls_vip_ips l)" "x \<noteq> V4 g" for x
      using v4 [rule_format, OF that(1)] that by (elim ipv4_usable_cases) auto
    then have "set (ls_vip_ips l) - {V4 g} = V4 ` (?a - {g})" by blast
    then have "card (set (ls_vip_ips l) - {V4 g}) = card (?a - {g})" by (simp add: card_image inj_on_def)
    moreover have "length vips = card (insert g ?a)" using vips that distinct_card [OF vips(1)] by simp
    moreover have "card (insert g ?a) = Suc (card (?a - {g}))"
    proof (rule card.insert_remove)
      show "finite ?a" using vips(2) finite_set [of vips] by (simp add: finite_Un)
    qed
    moreover have "length (ls_protocols l) = card (set (ls_protocols l))" using protocols by (simp add: distinct_card)
    moreover have "length ?ns = length vips * length (ls_protocols l)"
      by (simp add: length_concat comp_def sum_list_triv)
    ultimately show ?thesis
      by (simp add: configured_listener_expansion_count_def unique_protocol_count_def gateway)
  qed
  ultimately show ?thesis by (auto simp: expands_to_def port_key_def native_for_def)
qed

lemma listener_expands:
  assumes ok: "listener_ok groups l" and protocols: "distinct (ls_protocols l)"
    and gateway: "nw_gateway_ip (fc_network cfg) = V4 g" "g \<noteq> 0"
    and v4: "\<forall>vip\<in>set (ls_vip_ips l). ipv4_usable vip"
    and targets: "\<forall>t\<in>set (tg_targets tgroup). bt_weight t \<noteq> 0 \<and> ipv4_usable (bt_address t)"
  shows "\<exists>ns. listener_from_target_group cfg shared l tgroup = Inr ns \<and> expands_to cfg shared l ns"
proof -
  let ?f = "\<lambda>target. case ipv4_addr (resolve_backend_target_address cfg target) of
      Inl e \<Rightarrow> Inl e
    | Inr address \<Rightarrow> Inr \<lparr>nt_address = address, nt_port = ls_target_port l, nt_weight = bt_weight target, nt_state = Active\<rparr>"
  have "\<exists>y. ?f t = Inr y \<and> native_target_ok y" if "t \<in> set (tg_targets tgroup)" for t
  proof -
    have "bt_weight t \<noteq> 0" "ipv4_usable (bt_address t)" using targets that by auto
    moreover obtain a where "bt_address t = V4 a" "a \<noteq> 0" "ipv4_addr (bt_address t) = Inr a"
      using calculation(2) by (rule ipv4_usable_cases)
    moreover have "resolve_backend_target_address cfg t = bt_address t"
      using calculation(2) by (simp add: resolve_backend_target_address_def ipv4_usable_def)
    ultimately show ?thesis using ok by (simp add: native_target_ok_def listener_ok_def)
  qed
  then obtain ts where ts: "collect_results (map ?f (tg_targets tgroup)) = Inr ts"
    "list_all2 (\<lambda>_. native_target_ok) (tg_targets tgroup) ts"
    using collect_results_Inr [of "tg_targets tgroup" ?f "\<lambda>_. native_target_ok"] by blast
  then have tok: "\<forall>t\<in>set ts. native_target_ok t"
    by (auto simp: list_all2_conv_all_nth in_set_conv_nth)
  obtain vips where vips: "merge_vip_ips g (ls_vip_ips l) shared = Inr vips" "distinct vips"
    "set vips = insert g ({a. V4 a \<in> set (ls_vip_ips l)} \<union> set_option shared)"
    using merge_vip_ips_Inr [OF v4, of g shared] by (elim exE conjE) (rule that)
  have "effective_vip_ips cfg (ls_vip_ips l) shared = Inr vips"
    using vips(1) gateway by (simp add: effective_vip_ips_def ipv4_addr_def is_unspecified_def)
  then have result: "listener_from_target_group cfg shared l tgroup =
      Inr (if ts = [] then [] else concat (map (\<lambda>vip. map (native_for cfg l (tg_name tgroup) ts vip) (ls_protocols l)) vips))"
    unfolding listener_from_target_group_def ts(1) native_for_def by simp
  show ?thesis
  proof (cases "ts = []")
    case True
    then show ?thesis using result by (simp add: expands_to_def)
  next
    case False
    from expansion_shape [OF ok protocols False tok vips(2,3) gateway(1) v4] show ?thesis using result False by simp
  qed
qed

lemma find_group:
  "ls_target_group l \<in> tg_name ` set gs \<Longrightarrow>
   \<exists>tgroup\<in>set gs. List.find (\<lambda>tgroup. tg_name tgroup = ls_target_group l) gs = Some tgroup"
  by (induction gs) auto

definition wellformed_services :: "FileConfig \<Rightarrow> bool" where
  "wellformed_services cfg \<longleftrightarrow>
     (\<forall>tgroup\<in>set (fc_target_groups cfg). \<forall>t\<in>set (tg_targets tgroup). bt_weight t \<noteq> 0 \<and> ipv4_usable (bt_address t))"

lemma expand_listeners_Inr:
  assumes gateway: "nw_gateway_ip (fc_network cfg) = V4 g" "g \<noteq> 0" and services: "wellformed_services cfg"
    and "\<forall>l\<in>set ls. listener_ok (tg_name ` set (fc_target_groups cfg)) l"
    and "\<forall>l\<in>set ls. \<forall>vip\<in>set (ls_vip_ips l). ipv4_usable vip"
    and "distinct (concat (map listener_keys ls))"
  shows "\<exists>ns. expand_listeners cfg shared ls = Inr ns \<and> distinct (map nl_key ns) \<and> (\<forall>n\<in>set ns. native_listener_ok n) \<and>
    port_key ` set ns \<subseteq> (\<lambda>(port, p). (port, native_protocol p)) ` set (concat (map listener_keys ls)) \<and>
    (shared = None \<longrightarrow> length (filter (\<lambda>n. nl_select n = NATIVE_SELECT_CONSISTENT_HASH) ns)
       \<le> sum_list (map (configured_listener_expansion_count cfg) (filter (\<lambda>l. ls_select l = ConsistentHash) ls)))"
  using assms(4-)
proof (induction ls)
  case (Cons l ls)
  have ok: "listener_ok (tg_name ` set (fc_target_groups cfg)) l" using Cons.prems by simp
  have protocols: "distinct (ls_protocols l)"
    using Cons.prems(3) by (simp add: listener_keys_def distinct_map)
  obtain tgroup where tgroup: "tgroup \<in> set (fc_target_groups cfg)"
    "List.find (\<lambda>tgroup. tg_name tgroup = ls_target_group l) (fc_target_groups cfg) = Some tgroup"
    using find_group ok unfolding listener_ok_def by blast
  have "\<forall>t\<in>set (tg_targets tgroup). bt_weight t \<noteq> 0 \<and> ipv4_usable (bt_address t)"
    using services tgroup(1) by (simp add: wellformed_services_def)
  moreover have "\<forall>vip\<in>set (ls_vip_ips l). ipv4_usable vip" using Cons.prems by simp
  ultimately obtain ns where ns: "listener_from_target_group cfg shared l tgroup = Inr ns" "expands_to cfg shared l ns"
    using listener_expands [OF ok protocols gateway] by blast
  from Cons obtain ms where ms: "expand_listeners cfg shared ls = Inr ms" "distinct (map nl_key ms)"
    "\<forall>n\<in>set ms. native_listener_ok n"
    "port_key ` set ms \<subseteq> (\<lambda>(port, p). (port, native_protocol p)) ` set (concat (map listener_keys ls))"
    "shared = None \<longrightarrow> length (filter (\<lambda>n. nl_select n = NATIVE_SELECT_CONSISTENT_HASH) ms)
       \<le> sum_list (map (configured_listener_expansion_count cfg) (filter (\<lambda>l. ls_select l = ConsistentHash) ls))" by auto
  let ?nat = "\<lambda>(port, p). (port, native_protocol p)"
  have here: "port_key ` set ns \<subseteq> ?nat ` set (listener_keys l)"
    using ns(2) by (simp add: expands_to_def listener_keys_def image_comp comp_def)
  have "?nat ` set (listener_keys l) \<inter> ?nat ` set (concat (map listener_keys ls)) = {}"
    using Cons.prems(3) by auto
  then have "port_key ` set ns \<inter> port_key ` set ms = {}" using here ms(4) by blast
  then have "set (map nl_key ns) \<inter> set (map nl_key ms) = {}" by (auto simp: port_key_def)
  moreover have "length (filter (\<lambda>n. nl_select n = NATIVE_SELECT_CONSISTENT_HASH) ns)
      \<le> (if ls_select l = ConsistentHash then configured_listener_expansion_count cfg l else 0)" if "shared = None"
  proof -
    have "filter (\<lambda>n. nl_select n = NATIVE_SELECT_CONSISTENT_HASH) ns = []" if "ls_select l \<noteq> ConsistentHash"
      using that ns(2) by (cases "ls_select l") (auto simp: expands_to_def filter_empty_conv)
    then show ?thesis
      using ns(2) that length_filter_le [of _ ns] by (auto simp: expands_to_def intro: order_trans)
  qed
  ultimately have keys: "distinct (map nl_key (ns @ ms))"
    and count: "shared = None \<longrightarrow> length (filter (\<lambda>n. nl_select n = NATIVE_SELECT_CONSISTENT_HASH) (ns @ ms))
      \<le> sum_list (map (configured_listener_expansion_count cfg) (filter (\<lambda>l. ls_select l = ConsistentHash) (l # ls)))"
    using ns(2) ms(2,5) by (auto simp: expands_to_def)
  have "expand_listeners cfg shared (l # ls) = Inr (ns @ ms)" using ns(1) ms(1) tgroup(2) by simp
  moreover have "port_key ` set (ns @ ms) \<subseteq> ?nat ` set (concat (map listener_keys (l # ls)))"
    using here ms(4) unfolding set_append image_Un list.map concat.simps by blast
  moreover have "\<forall>n\<in>set (ns @ ms). native_listener_ok n" using ns(2) ms(3) by (auto simp: expands_to_def)
  ultimately show ?case using keys count by blast
qed simp


text \<open>The configuration of the repository's own test of a default DNAT listener, before normalisation.\<close>

definition sample_config :: FileConfig where
  "sample_config = (default_file_config ''gw-1'')\<lparr>fc_node_role := Gateway,
     fc_public_ip := V4 0xC633640A, fc_underlay_ip := V4 0xC000020A,
     fc_network := default_network_config\<lparr>nw_underlay_dev := ''eth0'', nw_gateway_ip := V4 0xC000020A\<rparr>,
     fc_backend_nodes := [\<lparr>bn_name = ''backend-1'', bn_public_ip = V4 0xC6336414, bn_underlay_ip = V4 0xC0000214,
       bn_overlay_ip = ''10.255.255.2/24''\<rparr>],
     fc_target_groups := [\<lparr>tg_name = ''tcp-8080-targets'', tg_monitor = False, tg_probe_type = None, tg_probe_port = None,
       tg_probe_req = None, tg_probe_resp = None, tg_probe_skip_tls_verify = False, tg_period_secs = None, tg_retries = None,
       tg_targets = [\<lparr>bt_backend = Some ''backend-1'', bt_address = V4 0xC0000214, bt_weight = 1\<rparr>]\<rparr>],
     fc_listeners := [default_listener\<lparr>ls_name := ''tcp-8080'', ls_port := 8080, ls_target_port := 18080,
       ls_target_group := ''tcp-8080-targets''\<rparr>]\<rparr>"

lemmas default_defs = default_file_config_def default_network_config_def default_ip_discovery_config_def
  default_ha_config_def default_gateway_config_def default_backend_config_def default_api_config_def
  default_control_plane_config_def default_listener_def default_gateway_overlay_def
  default_backend_overlay_def default_auto_ip_def

lemmas parse_defs = parse_socket_addr_def read_socket_v4_def read_ipv4_addr_def read_number_def to_digit_def
  digits_value_def read_port_def parse_prefix_def parse_ip_addr_def parse_u8_def parse_u16_def parse_uint_def
  rsplit_once_def trim_def is_space_def starts_with_def ipv4_of_octets_def be32_def

lemma sample_config_valid: "validate_config sample_config = None"
proof -
  have "validate_network sample_config = None"
    by (simp add: validate_network_def sample_config_def default_defs validate_stun_server_def parse_defs
        saturating_sub_def)
  moreover have "validate_inventory sample_config = None"
    by (simp add: validate_inventory_def sample_config_def default_defs validate_overlay_capacity_def parse_defs
        same_subnet_def subnet_mask_def backend_nodes_effective_def is_unspecified_def mask_eq_exp_minus_1)
  moreover have "validate_services sample_config = None"
    by (simp add: validate_services_def sample_config_def default_defs validate_native_listener_def parse_defs
        is_unspecified_def backend_nodes_effective_def validate_consistent_hash_listener_capacity_def
        max_consistent_hash_datapath_listeners_def)
  moreover have "validate_access sample_config = None"
    by (simp add: validate_access_def sample_config_def default_defs check_listen_def check_token_length_def
        check_cidrs_def parse_defs is_loopback_def)
  ultimately show ?thesis by (simp add: validate_config_def)
qed


end
