(* ===== verification/Storage.thy ===== *)
theory Storage
  imports Prelude "HOL-Library.Char_ord" "HOL-Library.List_Lexorder" "HOL-Library.Product_Lexorder"
begin

text \<open>
  The document repository (\<^verbatim>\<open>edge-lb/src/storage/repository.rs\<close>, \<^verbatim>\<open>storage/mod.rs\<close>).  The state is the contents
  of the two tables: the documents by resource type and name, and the revisions with their content
  hashes.  The worker thread executes one command at a time, each in a transaction, so a command is a
  function on the state that changes everything or nothing.  An insertion into \<^verbatim>\<open>config_revisions\<close> fails when
  the revision is taken (its primary key).  SHA-256 and the clock of SQLite are arguments.  Failures of the
  database itself, which abort the transaction, are not modelled.
\<close>

section \<open>State and commands\<close>

type_synonym document_key = "string \<times> string"

record StoredDocument =
  sd_payload :: string
  sd_revision :: int
  sd_updated_at :: string

record Repository =
  rs_documents :: "document_key \<rightharpoonup> StoredDocument"
  rs_revisions :: "int \<rightharpoonup> string"

record DocumentChange =
  dc_key :: document_key
  dc_expected_revision :: "int option"
  dc_payload :: string

record DocumentGuard =
  dg_key :: document_key
  dg_expected_revision :: "int option"

datatype storage_error = DuplicateDocument | RevisionMustAdvance | RevisionTaken

record storage_env =
  st_sha256_hex :: "string \<Rightarrow> string"
  st_now :: string

definition get_doc :: "document_key \<Rightarrow> Repository \<Rightarrow> StoredDocument option" where
  "get_doc key repo = rs_documents repo key"

definition get_payload :: "document_key \<Rightarrow> Repository \<Rightarrow> string option" where
  "get_payload key repo = map_option sd_payload (rs_documents repo key)"

definition get_many :: "document_key list \<Rightarrow> Repository \<Rightarrow> StoredDocument option list" where
  "get_many keys repo = map (\<lambda>key. get_doc key repo) keys"

definition insert_revision :: "int \<Rightarrow> string \<Rightarrow> Repository \<Rightarrow> Repository option" where
  "insert_revision revision content_hash repo =
     (if rs_revisions repo revision \<noteq> None then None
      else Some (repo\<lparr>rs_revisions := (rs_revisions repo)(revision \<mapsto> content_hash)\<rparr>))"

definition upsert_document :: "storage_env \<Rightarrow> int \<Rightarrow> document_key \<Rightarrow> string \<Rightarrow> Repository \<Rightarrow> Repository" where
  "upsert_document env revision key payload repo = repo\<lparr>rs_documents := (rs_documents repo)(key \<mapsto>
     \<lparr>sd_payload = payload, sd_revision = revision, sd_updated_at = st_now env\<rparr>)\<rparr>"

text \<open>The length of every part, as eight big-endian bytes, precedes it in the digest.\<close>

definition be64_bytes :: "nat \<Rightarrow> string" where
  "be64_bytes n = map (\<lambda>i. char_of (n div 256 ^ (7 - i) mod 256)) [0..<8]"

definition change_digest :: "DocumentChange list \<Rightarrow> string" where
  "change_digest changes = concat (map (\<lambda>change.
     concat (map (\<lambda>part. be64_bytes (length part) @ part)
       [fst (dc_key change), snd (dc_key change), dc_payload change])) changes)"

fun changes_current :: "int \<Rightarrow> Repository \<Rightarrow> DocumentChange list \<Rightarrow> storage_error + bool" where
  "changes_current revision repo [] = Inr True"
| "changes_current revision repo (change # changes) =
     (if map_option sd_revision (get_doc (dc_key change) repo) \<noteq> dc_expected_revision change then Inr False
      else if \<not> (case dc_expected_revision change of None \<Rightarrow> True | Some old \<Rightarrow> revision > old) then Inl RevisionMustAdvance
      else changes_current revision repo changes)"

definition compare_and_put ::
    "storage_env \<Rightarrow> DocumentChange list \<Rightarrow> DocumentGuard list \<Rightarrow> int \<Rightarrow> Repository \<Rightarrow> (storage_error + bool) \<times> Repository" where
  "compare_and_put env changes guards revision repo =
     (if \<not> distinct (map dc_key changes) then (Inl DuplicateDocument, repo)
      else if \<exists>guard\<in>set guards. map_option sd_revision (get_doc (dg_key guard) repo) \<noteq> dg_expected_revision guard
        then (Inr False, repo)
      else case changes_current revision repo changes of
          Inl e \<Rightarrow> (Inl e, repo)
        | Inr False \<Rightarrow> (Inr False, repo)
        | Inr True \<Rightarrow>
            (case insert_revision revision (st_sha256_hex env (change_digest changes)) repo of
               None \<Rightarrow> (Inl RevisionTaken, repo)
             | Some repo1 \<Rightarrow>
                 (Inr True, foldl (\<lambda>r change. upsert_document env revision (dc_key change) (dc_payload change) r) repo1 changes)))"

definition put :: "storage_env \<Rightarrow> document_key \<Rightarrow> int \<Rightarrow> string \<Rightarrow> Repository \<Rightarrow> storage_error option \<times> Repository" where
  "put env key revision payload repo =
     (case insert_revision revision (st_sha256_hex env payload) repo of
        None \<Rightarrow> (Some RevisionTaken, repo)
      | Some repo1 \<Rightarrow> (None, upsert_document env revision key payload repo1))"

definition put_if_changed ::
    "storage_env \<Rightarrow> document_key \<Rightarrow> int \<Rightarrow> string \<Rightarrow> Repository \<Rightarrow> (storage_error + bool) \<times> Repository" where
  "put_if_changed env key revision payload repo =
     (if get_payload key repo = Some payload then (Inr False, repo)
      else case put env key revision payload repo of
          (Some e, r) \<Rightarrow> (Inl e, r)
        | (None, r) \<Rightarrow> (Inr True, r))"

definition delete_document :: "document_key \<Rightarrow> int \<Rightarrow> Repository \<Rightarrow> (storage_error + bool) \<times> Repository" where
  "delete_document key revision repo =
     (case insert_revision revision [] repo of
        None \<Rightarrow> (Inl RevisionTaken, repo)
      | Some repo1 \<Rightarrow> (Inr (rs_documents repo key \<noteq> None), repo1\<lparr>rs_documents := (rs_documents repo1)(key := None)\<rparr>))"

text \<open>Pruning keeps, of one resource type, the documents that fewer than \<open>keep_latest\<close> others precede
  in the order of descending revision and name.\<close>

definition prune_rank :: "Repository \<Rightarrow> string \<Rightarrow> string \<Rightarrow> nat" where
  "prune_rank repo resource_type name =
     (case rs_documents repo (resource_type, name) of
        None \<Rightarrow> 0
      | Some d \<Rightarrow> card {n. \<exists>e. rs_documents repo (resource_type, n) = Some e \<and> (sd_revision d, name) < (sd_revision e, n)})"

definition prune_resource :: "string \<Rightarrow> nat \<Rightarrow> Repository \<Rightarrow> Repository" where
  "prune_resource resource_type keep_latest repo = repo\<lparr>rs_documents := (\<lambda>(kind, name).
     if kind = resource_type \<and> keep_latest \<le> prune_rank repo resource_type name then None
     else rs_documents repo (kind, name))\<rparr>"

text \<open>The counter of the process; \<open>now\<close> is the wall clock in milliseconds.\<close>

definition next_revision :: "int \<Rightarrow> int \<Rightarrow> int" where
  "next_revision now previous = max now (min (previous + 1) (2 ^ 63 - 1))"

definition observe_revision :: "int \<Rightarrow> int \<Rightarrow> int" where
  "observe_revision previous revision = max previous revision"

section \<open>Versions identify documents\<close>

text \<open>
  What a client of compare-and-put relies on: while the store evolves, a document that is found again
  under the version it was read with is the document that was read.
\<close>

locale versioned_store =
  fixes lookup :: "'r \<Rightarrow> 'k \<Rightarrow> 'd option" and version :: "'d \<Rightarrow> int" and evolves :: "'r \<Rightarrow> 'r \<Rightarrow> bool"
  assumes same_version: "evolves r r' \<Longrightarrow> lookup r k = Some d \<Longrightarrow> lookup r' k = Some d' \<Longrightarrow> version d = version d' \<Longrightarrow> d = d'"
    and evolves_trans: "evolves r r' \<Longrightarrow> evolves r' r'' \<Longrightarrow> evolves r r''"
begin

lemma read_is_current:
  assumes "evolves r r'" "map_option version (lookup r' k) = map_option version (lookup r k)"
  shows "lookup r' k = lookup r k"
proof (cases "lookup r k")
  case (Some d)
  then obtain d' where d': "lookup r' k = Some d'" "version d = version d'" using assms(2) by auto
  then show ?thesis using same_version [OF assms(1) Some d'] Some by simp
qed (use assms(2) in simp)

lemma reads_are_current:
  assumes "evolves r r'" "\<And>k. k \<in> set ks \<Longrightarrow> map_option version (lookup r' k) = map_option version (lookup r k)"
  shows "map (lookup r') ks = map (lookup r) ks"
  using read_is_current [OF assms(1)] assms(2) by simp

end

text \<open>Every document carries a recorded revision.\<close>

definition revisions_recorded :: "Repository \<Rightarrow> bool" where
  "revisions_recorded repo \<longleftrightarrow> (\<forall>k d. rs_documents repo k = Some d \<longrightarrow> sd_revision d \<in> dom (rs_revisions repo))"

text \<open>Evolution: revisions are only added, and a document is old or has a new revision.\<close>

definition evolves :: "Repository \<Rightarrow> Repository \<Rightarrow> bool" where
  "evolves r r' \<longleftrightarrow> revisions_recorded r \<and> revisions_recorded r' \<and> dom (rs_revisions r) \<subseteq> dom (rs_revisions r') \<and>
     (\<forall>k d. rs_documents r' k = Some d \<longrightarrow> rs_documents r k = Some d \<or> sd_revision d \<notin> dom (rs_revisions r))"

lemma evolves_refl: "revisions_recorded r \<Longrightarrow> evolves r r"
  by (simp add: evolves_def)

interpretation repo: versioned_store "\<lambda>r k. get_doc k r" sd_revision evolves
proof (unfold_locales)
  fix r r' k d d'
  assume "evolves r r'" "get_doc k r = Some d" "get_doc k r' = Some d'" "sd_revision d = sd_revision d'"
  then show "d = d'" unfolding evolves_def revisions_recorded_def get_doc_def by (metis option.inject)
next
  fix r r' r''
  assume "evolves r r'" "evolves r' r''"
  then show "evolves r r''" unfolding evolves_def by (meson subset_iff subset_trans)
qed

lemma insert_revision_Some:
  "insert_revision revision h r = Some r' \<longleftrightarrow>
   revision \<notin> dom (rs_revisions r) \<and> r' = r\<lparr>rs_revisions := (rs_revisions r)(revision \<mapsto> h)\<rparr>"
  by (auto simp: insert_revision_def)

lemma foldl_upsert_sel:
  "rs_revisions (foldl (\<lambda>r change. upsert_document env revision (dc_key change) (dc_payload change) r) r changes) = rs_revisions r"
  "rs_documents (foldl (\<lambda>r change. upsert_document env revision (dc_key change) (dc_payload change) r) r changes) =
   rs_documents r ++ map_of (rev (map (\<lambda>change. (dc_key change,
     \<lparr>sd_payload = dc_payload change, sd_revision = revision, sd_updated_at = st_now env\<rparr>)) changes))"
  by (induction changes arbitrary: r) (simp_all add: upsert_document_def map_add_upd_left)

text \<open>A write under a new revision.\<close>

lemma evolves_write:
  assumes "revisions_recorded r" "revision \<notin> dom (rs_revisions r)"
    and "rs_revisions r' = (rs_revisions r)(revision \<mapsto> h)"
    and "\<And>k d. rs_documents r' k = Some d \<Longrightarrow> rs_documents r k = Some d \<or> sd_revision d = revision"
  shows "evolves r r'"
  using assms unfolding evolves_def revisions_recorded_def by (auto; blast)

lemma compare_and_put_True:
  assumes "compare_and_put env changes guards revision r = (Inr True, r')"
  shows "distinct (map dc_key changes)" "\<forall>g\<in>set guards. map_option sd_revision (get_doc (dg_key g) r) = dg_expected_revision g"
    "\<forall>c\<in>set changes. map_option sd_revision (get_doc (dc_key c) r) = dc_expected_revision c"
    "revision \<notin> dom (rs_revisions r)"
    "rs_revisions r' = (rs_revisions r)(revision \<mapsto> st_sha256_hex env (change_digest changes))"
    "rs_documents r' = rs_documents r ++ map_of (rev (map (\<lambda>change. (dc_key change,
       \<lparr>sd_payload = dc_payload change, sd_revision = revision, sd_updated_at = st_now env\<rparr>)) changes))"
proof -
  have current: "changes_current revision r changes = Inr True \<Longrightarrow>
      \<forall>c\<in>set changes. map_option sd_revision (get_doc (dc_key c) r) = dc_expected_revision c" for changes
    by (induction changes) (auto split: if_splits)
  from assms show "distinct (map dc_key changes)" "\<forall>g\<in>set guards. map_option sd_revision (get_doc (dg_key g) r) = dg_expected_revision g"
    "\<forall>c\<in>set changes. map_option sd_revision (get_doc (dc_key c) r) = dc_expected_revision c"
    "revision \<notin> dom (rs_revisions r)"
    "rs_revisions r' = (rs_revisions r)(revision \<mapsto> st_sha256_hex env (change_digest changes))"
    "rs_documents r' = rs_documents r ++ map_of (rev (map (\<lambda>change. (dc_key change,
       \<lparr>sd_payload = dc_payload change, sd_revision = revision, sd_updated_at = st_now env\<rparr>)) changes))"
    using current unfolding compare_and_put_def
    by (auto simp: insert_revision_Some foldl_upsert_sel split: if_splits sum.splits bool.splits option.splits)
qed

lemma compare_and_put_other:
  "compare_and_put env changes guards revision r = (x, r') \<Longrightarrow> x \<noteq> Inr True \<Longrightarrow> r' = r"
  by (auto simp: compare_and_put_def split: if_splits sum.splits bool.splits option.splits)

lemma compare_and_put_doc:
  assumes "compare_and_put env changes guards revision r = (Inr True, r')"
  shows "get_doc k r' = (case map_of (map (\<lambda>c. (dc_key c, dc_payload c)) changes) k of
    None \<Rightarrow> get_doc k r | Some p \<Rightarrow> Some \<lparr>sd_payload = p, sd_revision = revision, sd_updated_at = st_now env\<rparr>)"
proof -
  let ?doc = "\<lambda>p. \<lparr>sd_payload = p, sd_revision = revision, sd_updated_at = st_now env\<rparr>"
  have eq: "map_of (map (\<lambda>c. (dc_key c, ?doc (dc_payload c))) cs) = map_option ?doc \<circ> map_of (map (\<lambda>c. (dc_key c, dc_payload c)) cs)" for cs
    by (induction cs) (auto simp: fun_eq_iff)
  have "map_of (rev (map (\<lambda>c. (dc_key c, ?doc (dc_payload c))) changes)) = map_of (map (\<lambda>c. (dc_key c, ?doc (dc_payload c))) changes)"
    by (rule map_of_inject_set [THEN iffD2])
       (use compare_and_put_True(1) [OF assms] in \<open>simp_all add: comp_def flip: rev_map\<close>)
  then show ?thesis
    unfolding get_doc_def compare_and_put_True(6) [OF assms] map_add_def eq by (simp split: option.splits)
qed

lemma compare_and_put_evolves:
  assumes "revisions_recorded r" "compare_and_put env changes guards revision r = (x, r')"
  shows "evolves r r'"
proof (cases "x = Inr True")
  case True
  note ok = assms(2) [unfolded True]
  show ?thesis
    by (rule evolves_write [OF assms(1) compare_and_put_True(4,5) [OF ok]])
       (use compare_and_put_doc [OF ok] in \<open>auto simp: get_doc_def split: option.splits\<close>)
qed (use compare_and_put_other [OF assms(2)] evolves_refl [OF assms(1)] in simp)

lemma put_evolves:
  assumes "revisions_recorded r" shows "evolves r (snd (put env key revision payload r))"
proof (cases "insert_revision revision (st_sha256_hex env payload) r")
  case (Some r1)
  show ?thesis
    by (rule evolves_write [OF assms, of revision _ "st_sha256_hex env payload"])
       (use Some [unfolded insert_revision_Some] in \<open>auto simp: put_def Some upsert_document_def split: if_splits\<close>)
qed (use evolves_refl [OF assms] in \<open>simp add: put_def\<close>)

lemma put_if_changed_evolves: "revisions_recorded r \<Longrightarrow> evolves r (snd (put_if_changed env key revision payload r))"
  using put_evolves [of r env key revision payload] evolves_refl [of r]
  by (auto simp: put_if_changed_def split: prod.splits option.splits)

lemma delete_evolves:
  assumes "revisions_recorded r" shows "evolves r (snd (delete_document key revision r))"
proof (cases "insert_revision revision [] r")
  case (Some r1)
  show ?thesis
    by (rule evolves_write [OF assms, of revision _ "[]"])
       (use Some [unfolded insert_revision_Some] in \<open>auto simp: delete_document_def Some split: if_splits\<close>)
qed (use evolves_refl [OF assms] in \<open>simp add: delete_document_def\<close>)

lemma prune_evolves: "revisions_recorded r \<Longrightarrow> evolves r (prune_resource kind keep r)"
  by (auto simp: evolves_def revisions_recorded_def prune_resource_def split: if_splits)

lemma next_revision_advances: "previous < 2 ^ 63 - 1 \<Longrightarrow> previous < next_revision now previous"
  by (simp add: next_revision_def)

end
