(* ===== verification/Ha_Config.thy ===== *)
theory Ha_Config
  imports Config_Validate
begin

text \<open>
  The runtime configuration of gateway high availability (\<^verbatim>\<open>edge-lb/src/runtime/ha.rs\<close>): its records and
  defaults, normalisation and validation, the identity two gateways exchange when they pair, the
  configuration each of them derives from it, and the session token check.  The stored configuration and
  secret are arguments; they are read and written in the theory of the repository.
\<close>

section \<open>Records and defaults\<close>

datatype GatewayHaMode = ActiveBackup
datatype XsyncRpc = Grpc
datatype FailoverMode = Manual | BfdAuto
datatype VipBindDevice = Loopback | Underlay
datatype VipProvider = L2 | Bgp | Hook
datatype VipOwner = EdgeLb

record BfdConfig =
  bfc_bind_addr :: string
  bfc_port :: u16
  bfc_interval_ms :: u64
  bfc_detect_multiplier :: u32

record XsyncConfig =
  xsc_bind_addr :: string
  xsc_port :: u16
  xsc_reconnect_min_ms :: u64
  xsc_reconnect_max_ms :: u64

record GatewayHaPeer =
  hp_name :: string
  hp_underlay_ip :: string
  hp_public_ip :: "string option"
  hp_api_addr :: "string option"
  hp_xds_addr :: "string option"
  hp_overlay_cidr :: "string option"
  hp_overlay_ip :: "string option"
  hp_dscp :: "u32 option"
  hp_vni :: "u32 option"
  hp_vxlan_port :: "u16 option"
  hp_mtu :: "u32 option"
  hp_version :: "string option"
  hp_capabilities :: "string list"

record GatewayHaPeerSecrets =
  sec_peer_name :: string
  sec_peer_underlay_ip :: string
  sec_session_token :: string
  sec_session_token_id :: string
  sec_updated_at_unix :: u64

record GatewayIdentity =
  gi_name :: string
  gi_underlay_ip :: string
  gi_public_ip :: string
  gi_api_addr :: string
  gi_xds_addr :: string
  gi_overlay_cidr :: string
  gi_overlay_ip :: string
  gi_dscp :: u32
  gi_vni :: u32
  gi_vxlan_port :: u16
  gi_mtu :: u32
  gi_version :: string
  gi_capabilities :: "string list"

record GarpConfig =
  garp_count :: u32
  garp_interval_ms :: u64
  garp_repeat_after_ms :: u64
  garp_repeat_count :: u32

record VipConfig =
  vip_provider :: VipProvider
  vip_owner :: VipOwner
  vip_bind_device :: VipBindDevice
  vip_garp_device :: "string option"
  vip_private_vip :: "string option"
  vip_bind_timeout_secs :: u64
  vip_verify_timeout_secs :: u64
  vip_garp :: GarpConfig
  vip_promote_hook :: "string option"
  vip_demote_hook :: "string option"
  vip_verify_hook :: "string option"

record BgpConfig =
  bgp_local_as :: "u32 option"
  bgp_router_id :: string
  bgp_peers :: "string list"
  bgp_hold_time_secs :: u64
  bgp_keepalive_secs :: u64

record GatewayHaRuntimeConfig =
  hr_enabled :: bool
  hr_mode :: GatewayHaMode
  hr_self_index :: u32
  hr_preferred_active :: "string option"
  hr_connection_sync :: bool
  hr_xsync_rpc :: XsyncRpc
  hr_failover :: FailoverMode
  hr_peers :: "GatewayHaPeer list"
  hr_vip :: VipConfig
  hr_bgp :: BgpConfig
  hr_bfd :: BfdConfig
  hr_xsync :: XsyncConfig

definition default_bfd_config :: BfdConfig where
  "default_bfd_config = \<lparr>bfc_bind_addr = ''0.0.0.0'', bfc_port = 3784, bfc_interval_ms = 300, bfc_detect_multiplier = 3\<rparr>"

definition default_xsync_config :: XsyncConfig where
  "default_xsync_config = \<lparr>xsc_bind_addr = ''0.0.0.0'', xsc_port = 22222, xsc_reconnect_min_ms = 250,
     xsc_reconnect_max_ms = 5000\<rparr>"

definition default_bgp_config :: BgpConfig where
  "default_bgp_config = \<lparr>bgp_local_as = None, bgp_router_id = ''auto'', bgp_peers = [], bgp_hold_time_secs = 90,
     bgp_keepalive_secs = 30\<rparr>"

definition default_garp_config :: GarpConfig where
  "default_garp_config = \<lparr>garp_count = 10, garp_interval_ms = 100, garp_repeat_after_ms = 1000, garp_repeat_count = 1\<rparr>"

definition default_promote_hook :: string where
  "default_promote_hook = ''/usr/local/bin/edge-lb-promote''"

definition default_demote_hook :: string where
  "default_demote_hook = ''/usr/local/bin/edge-lb-demote''"

definition default_verify_hook :: string where
  "default_verify_hook = ''/usr/local/bin/edge-lb-verify-vip''"

definition default_vip_config :: VipConfig where
  "default_vip_config = \<lparr>vip_provider = Hook, vip_owner = EdgeLb, vip_bind_device = Loopback, vip_garp_device = None,
     vip_private_vip = None, vip_bind_timeout_secs = 15, vip_verify_timeout_secs = 10, vip_garp = default_garp_config,
     vip_promote_hook = Some default_promote_hook, vip_demote_hook = Some default_demote_hook,
     vip_verify_hook = Some default_verify_hook\<rparr>"

definition default_ha_runtime_config :: GatewayHaRuntimeConfig where
  "default_ha_runtime_config = \<lparr>hr_enabled = False, hr_mode = ActiveBackup, hr_self_index = 0, hr_preferred_active = None,
     hr_connection_sync = True, hr_xsync_rpc = Grpc, hr_failover = BfdAuto, hr_peers = [], hr_vip = default_vip_config,
     hr_bgp = default_bgp_config, hr_bfd = default_bfd_config, hr_xsync = default_xsync_config\<rparr>"

section \<open>Normalisation and validation\<close>

definition normalize_runtime_config :: "GatewayHaRuntimeConfig \<Rightarrow> GatewayHaRuntimeConfig" where
  "normalize_runtime_config value0 =
     (let v1 = value0\<lparr>hr_mode := ActiveBackup, hr_connection_sync := True, hr_xsync_rpc := Grpc, hr_failover := BfdAuto\<rparr>;
          vip1 = (hr_vip v1)\<lparr>vip_owner := EdgeLb\<rparr>;
          vip2 = (if vip_provider vip1 = Bgp then vip1\<lparr>vip_provider := Hook\<rparr> else vip1);
          vip3 = (if vip_provider vip2 \<notin> {L2, Hook} then vip2\<lparr>vip_private_vip := None\<rparr> else vip2);
          vip4 = (if vip_provider vip3 = Hook
            then vip3\<lparr>vip_promote_hook := Some default_promote_hook, vip_demote_hook := Some default_demote_hook,
              vip_verify_hook := Some default_verify_hook\<rparr>
            else vip3\<lparr>vip_promote_hook := None, vip_demote_hook := None, vip_verify_hook := None\<rparr>) in
      v1\<lparr>hr_vip := vip4\<rparr>)"

datatype ha_error =
    TooManyPeers | NoPeer | SelfIndexOutOfRange | PeerNameRequired nat | PeerUnderlayRequired nat
  | BadPeerUnderlay nat | BadPeerPublicIp nat | GarpCountZero | GarpIntervalZero | GarpIntervalTooLong
  | GarpRepeatAfterTooLong | GarpRepeatCountTooLarge | GarpDeviceEmpty | GarpDeviceTooLong
  | LocalNameRequired | RemoteNameRequired | SameNodeName | BadLocalUnderlay | BadRemoteUnderlay
  | UnspecifiedUnderlay | SameUnderlay | SameDscp | BadLocalCidr | BadRemoteCidr | OverlappingCidr
  | DifferentVni | DifferentVxlanPort | DifferentMtu | AlreadyPaired string string

definition validate_garp :: "GarpConfig \<Rightarrow> ha_error option" where
  "validate_garp g = first_err
     [ensure (garp_count g \<noteq> 0) GarpCountZero,
      ensure (garp_interval_ms g \<noteq> 0) GarpIntervalZero,
      ensure (garp_interval_ms g \<le> 60000) GarpIntervalTooLong,
      ensure (garp_repeat_after_ms g \<le> 60000) GarpRepeatAfterTooLong,
      ensure (garp_repeat_count g \<le> 10) GarpRepeatCountTooLarge]"

definition validate_peer :: "nat \<Rightarrow> GatewayHaPeer \<Rightarrow> ha_error option" where
  "validate_peer idx peer = first_err
     [ensure (trim (hp_name peer) \<noteq> []) (PeerNameRequired idx),
      ensure (trim (hp_underlay_ip peer) \<noteq> []) (PeerUnderlayRequired idx),
      ensure (parse_ip_addr (hp_underlay_ip peer) \<noteq> None) (BadPeerUnderlay idx),
      (case hp_public_ip peer of
         None \<Rightarrow> None
       | Some public_ip \<Rightarrow> ensure (parse_ip_addr public_ip \<noteq> None) (BadPeerPublicIp idx))]"

text \<open>\<^verbatim>\<open>libc::IFNAMSIZ\<close> is 16.\<close>

definition validate_garp_device :: "string option \<Rightarrow> ha_error option" where
  "validate_garp_device device =
     (case device of
        None \<Rightarrow> None
      | Some device \<Rightarrow> first_err
          [ensure (trim device \<noteq> []) GarpDeviceEmpty, ensure (length (trim device) < 16) GarpDeviceTooLong])"

definition validate_ha :: "GatewayHaRuntimeConfig \<Rightarrow> ha_error option" where
  "validate_ha value0 =
     (let v = normalize_runtime_config value0 in first_err
        ([ensure (length (hr_peers v) \<le> 1) TooManyPeers,
          ensure (\<not> (hr_enabled v \<and> hr_peers v = [])) NoPeer,
          ensure (\<not> (hr_enabled v \<and> unat (hr_self_index v) > length (hr_peers v))) SelfIndexOutOfRange]
         @ map (\<lambda>(idx, peer). validate_peer idx peer) (enumerate 0 (hr_peers v))
         @ [validate_garp (vip_garp (hr_vip v)), validate_garp_device (vip_garp_device (hr_vip v))]))"

section \<open>Identities\<close>

definition non_empty :: "string \<Rightarrow> string option" where
  "non_empty v = (if trim v = [] then None else Some v)"

definition advertised_addr :: "string \<Rightarrow> IpAddr \<Rightarrow> string" where
  "advertised_addr listen fallback_ip =
     (case parse_socket_addr listen of
        None \<Rightarrow> listen
      | Some (ip, port) \<Rightarrow> show_ip (if is_unspecified ip then fallback_ip else ip) @ '':'' @ show_nat (unat port))"

text \<open>The version is a constant of the build (\<^verbatim>\<open>CARGO_PKG_VERSION\<close>).\<close>

definition local_identity :: "string \<Rightarrow> FileConfig \<Rightarrow> GatewayIdentity" where
  "local_identity cargo_pkg_version cfg =
     (let network = fc_network cfg in
      \<lparr>gi_name = fc_node_name cfg, gi_underlay_ip = show_ip (fc_underlay_ip cfg), gi_public_ip = show_ip (fc_public_ip cfg),
       gi_api_addr = advertised_addr (api_listen (fc_api cfg)) (fc_underlay_ip cfg),
       gi_xds_addr = advertised_addr (cpc_listen (fc_control_plane cfg)) (fc_underlay_ip cfg),
       gi_overlay_cidr = nw_overlay_cidr network, gi_overlay_ip = gwc_overlay_ip (fc_gateway cfg),
       gi_dscp = nw_dscp network, gi_vni = nw_vni network, gi_vxlan_port = nw_vxlan_port network,
       gi_mtu = nw_vxlan_mtu network, gi_version = cargo_pkg_version,
       gi_capabilities = [''ha.active_backup'', ''ha.peer_token'', ''vip.l2'', ''vip.hook'']\<rparr>)"

definition peer_from_identity :: "GatewayIdentity \<Rightarrow> GatewayHaPeer" where
  "peer_from_identity identity =
     \<lparr>hp_name = gi_name identity, hp_underlay_ip = gi_underlay_ip identity, hp_public_ip = non_empty (gi_public_ip identity),
      hp_api_addr = non_empty (gi_api_addr identity), hp_xds_addr = non_empty (gi_xds_addr identity),
      hp_overlay_cidr = non_empty (gi_overlay_cidr identity), hp_overlay_ip = non_empty (gi_overlay_ip identity),
      hp_dscp = Some (gi_dscp identity), hp_vni = Some (gi_vni identity), hp_vxlan_port = Some (gi_vxlan_port identity),
      hp_mtu = Some (gi_mtu identity), hp_version = non_empty (gi_version identity),
      hp_capabilities = gi_capabilities identity\<rparr>"

text \<open>\<^verbatim>\<open>Ipv4Addr::from_str\<close> refuses more than 15 characters.\<close>

definition parse_ipv4_addr :: "string \<Rightarrow> u32 option" where
  "parse_ipv4_addr s =
     (if length s > 15 then None
      else case read_ipv4_addr s of Some (a, []) \<Rightarrow> Some a | _ \<Rightarrow> None)"

definition parse_ipv4_cidr :: "string \<Rightarrow> (u32 \<times> u8) option" where
  "parse_ipv4_cidr v = do {
     (addr, prefix) \<leftarrow> split_once CHR ''/'' v;
     a \<leftarrow> parse_ipv4_addr addr;
     p \<leftarrow> parse_u8 prefix;
     (if p > 32 then None else Some (a, p))
   }"

definition cidr_mask :: "u8 \<Rightarrow> u32" where
  "cidr_mask prefix = (if prefix = 0 then 0 else push_bit (32 - unat prefix) (- 1))"

definition cidr_overlaps :: "string \<Rightarrow> string \<Rightarrow> ha_error + bool" where
  "cidr_overlaps a b =
     (case parse_ipv4_cidr a of
        None \<Rightarrow> Inl BadLocalCidr
      | Some (a_ip, a_prefix) \<Rightarrow>
          (case parse_ipv4_cidr b of
             None \<Rightarrow> Inl BadRemoteCidr
           | Some (b_ip, b_prefix) \<Rightarrow>
               let mask = cidr_mask (min a_prefix b_prefix) in Inr (a_ip AND mask = b_ip AND mask)))"

definition validate_identity_pair :: "GatewayIdentity \<Rightarrow> GatewayIdentity \<Rightarrow> ha_error option" where
  "validate_identity_pair local peer =
     (let l = parse_ip_addr (gi_underlay_ip local); p = parse_ip_addr (gi_underlay_ip peer) in first_err
        [ensure (trim (gi_name local) \<noteq> []) LocalNameRequired,
         ensure (trim (gi_name peer) \<noteq> []) RemoteNameRequired,
         ensure (gi_name local \<noteq> gi_name peer) SameNodeName,
         ensure (l \<noteq> None) BadLocalUnderlay,
         ensure (p \<noteq> None) BadRemoteUnderlay,
         ensure (\<not> (is_unspecified (the l) \<or> is_unspecified (the p))) UnspecifiedUnderlay,
         ensure (the l \<noteq> the p) SameUnderlay,
         ensure (gi_dscp local \<noteq> gi_dscp peer) SameDscp,
         (case cidr_overlaps (gi_overlay_cidr local) (gi_overlay_cidr peer) of
            Inl e \<Rightarrow> Some e | Inr overlaps \<Rightarrow> ensure (\<not> overlaps) OverlappingCidr),
         ensure (gi_vni local = gi_vni peer) DifferentVni,
         ensure (gi_vxlan_port local = gi_vxlan_port peer) DifferentVxlanPort,
         ensure (gi_mtu local = gi_mtu peer) DifferentMtu])"

definition ensure_peer_slot_available :: "GatewayHaRuntimeConfig \<Rightarrow> GatewayIdentity \<Rightarrow> ha_error option" where
  "ensure_peer_slot_available cfg peer =
     (case hr_peers cfg of
        [] \<Rightarrow> None
      | [existing] \<Rightarrow>
          ensure (hp_name existing = gi_name peer \<or> hp_underlay_ip existing = gi_underlay_ip peer)
            (AlreadyPaired (hp_name existing) (hp_underlay_ip existing))
      | _ \<Rightarrow> Some TooManyPeers)"

definition reciprocal_config ::
    "GatewayHaRuntimeConfig \<Rightarrow> GatewayIdentity \<Rightarrow> GatewayIdentity \<Rightarrow> ha_error + GatewayHaRuntimeConfig" where
  "reciprocal_config cfg local peer =
     (case validate_identity_pair local peer of
        Some e \<Rightarrow> Inl e
      | None \<Rightarrow>
          let next1 = cfg\<lparr>hr_enabled := True, hr_mode := ActiveBackup, hr_peers := [peer_from_identity peer],
                hr_self_index := (if hr_self_index cfg = 0 then 1 else 0)\<rparr>;
              next = (if hr_preferred_active next1 = Some [] then next1\<lparr>hr_preferred_active := None\<rparr> else next1) in
          (case validate_ha next of Some e \<Rightarrow> Inl e | None \<Rightarrow> Inr next))"

definition config_with_peer ::
    "GatewayHaRuntimeConfig \<Rightarrow> GatewayIdentity \<Rightarrow> GatewayIdentity \<Rightarrow> ha_error + GatewayHaRuntimeConfig" where
  "config_with_peer cfg local peer =
     (case first_err [validate_identity_pair local peer, ensure_peer_slot_available cfg peer] of
        Some e \<Rightarrow> Inl e
      | None \<Rightarrow>
          let next = cfg\<lparr>hr_enabled := True, hr_mode := ActiveBackup, hr_peers := [peer_from_identity peer]\<rparr> in
          (case validate_ha next of Some e \<Rightarrow> Inl e | None \<Rightarrow> Inr next))"

definition initial_active_gateway_key :: "GatewayHaRuntimeConfig \<Rightarrow> GatewayIdentity \<Rightarrow> GatewayIdentity \<Rightarrow> string" where
  "initial_active_gateway_key cfg local peer =
     (let fallback = (if hr_self_index cfg = 0 then gi_name local else gi_name peer) in
      case hr_preferred_active cfg of
        None \<Rightarrow> fallback
      | Some preferred \<Rightarrow> if trim preferred \<noteq> [] then trim preferred else fallback)"

section \<open>Session tokens\<close>

definition as_bytes :: "string \<Rightarrow> u8 list" where
  "as_bytes s = map (\<lambda>c. of_nat (of_char c)) s"

definition token_id :: "string \<Rightarrow> string" where
  "token_id token =
     (let hash = foldl (\<lambda>hash byte. (hash XOR ucast byte) * 0x100000001b3) (0xcbf29ce484222325 :: u64) (as_bytes token);
          digits = show_hex (unat hash) in
      replicate (16 - length digits) CHR ''0'' @ digits)"

definition constant_time_eq :: "u8 list \<Rightarrow> u8 list \<Rightarrow> bool" where
  "constant_time_eq a b =
     (if length a \<noteq> length b then False
      else foldl (\<lambda>diff (left, right). diff OR (left XOR right)) 0 (zip a b) = 0)"

definition session_token_matches :: "GatewayHaPeerSecrets option \<Rightarrow> string \<Rightarrow> bool" where
  "session_token_matches secrets token =
     (case secrets of
        None \<Rightarrow> False
      | Some secrets \<Rightarrow>
          if sec_session_token secrets = [] \<or> token = [] then False
          else constant_time_eq (as_bytes (sec_session_token secrets)) (as_bytes token))"

definition new_session_token_secret :: "u64 \<Rightarrow> GatewayIdentity \<Rightarrow> string \<Rightarrow> GatewayHaPeerSecrets" where
  "new_session_token_secret now_unix peer session_token =
     \<lparr>sec_peer_name = gi_name peer, sec_peer_underlay_ip = gi_underlay_ip peer, sec_session_token = session_token,
      sec_session_token_id = token_id session_token, sec_updated_at_unix = now_unix\<rparr>"

section \<open>Peers as gateway nodes\<close>

text \<open>What one peer asks of the inventory: its trimmed name, its addresses, and the overlay address,
  that of the gateway section if it has none.\<close>

datatype merge_error = MergeBadUnderlay string | MergeBadPublicIp string

definition peer_node :: "string \<Rightarrow> GatewayHaPeer \<Rightarrow> merge_error + GatewayNode" where
  "peer_node gateway_overlay peer =
     (let name = trim (hp_name peer) in
      case parse_ip_addr (trim (hp_underlay_ip peer)) of
        None \<Rightarrow> Inl (MergeBadUnderlay name)
      | Some underlay_ip \<Rightarrow>
          let overlay_ip = (case Option.bind (hp_overlay_ip peer) non_empty_trimmed of
                Some v \<Rightarrow> v | None \<Rightarrow> gateway_overlay);
              node = (\<lambda>public_ip. \<lparr>gn_name = name, gn_public_ip = public_ip, gn_underlay_ip = underlay_ip, gn_overlay_ip = overlay_ip\<rparr>) in
          (case Option.bind (hp_public_ip peer) non_empty_trimmed of
             None \<Rightarrow> Inr (node (V4 0))
           | Some v \<Rightarrow> (case parse_ip_addr v of None \<Rightarrow> Inl (MergeBadPublicIp name) | Some public_ip \<Rightarrow> Inr (node public_ip))))"

definition update_node :: "GatewayNode \<Rightarrow> GatewayNode \<Rightarrow> GatewayNode" where
  "update_node node existing =
     existing\<lparr>gn_name := gn_name node, gn_underlay_ip := gn_underlay_ip node,
       gn_public_ip := (if is_unspecified (gn_public_ip node) then gn_public_ip existing else gn_public_ip node),
       gn_overlay_ip := (if trim (gn_overlay_ip node) = [] then gn_overlay_ip existing else gn_overlay_ip node)\<rparr>"

fun merge_node :: "GatewayNode \<Rightarrow> GatewayNode list \<Rightarrow> bool \<times> GatewayNode list" where
  "merge_node node [] = (True, [node])"
| "merge_node node (gw # rest) =
     (if gn_name gw = gn_name node \<or> gn_underlay_ip gw = gn_underlay_ip node
      then (update_node node gw \<noteq> gw, update_node node gw # rest)
      else (case merge_node node rest of (changed, rest') \<Rightarrow> (changed, gw # rest')))"

fun merge_peers ::
    "string \<Rightarrow> GatewayHaPeer list \<Rightarrow> bool \<times> IpAddr list \<times> GatewayNode list \<Rightarrow>
     merge_error option \<times> bool \<times> IpAddr list \<times> GatewayNode list" where
  "merge_peers gateway_overlay [] acc = (None, acc)"
| "merge_peers gateway_overlay (peer # peers) (changed, underlays, nodes) =
     (if trim (hp_name peer) = [] then merge_peers gateway_overlay peers (changed, underlays, nodes)
      else case peer_node gateway_overlay peer of
          Inl e \<Rightarrow> (Some e, changed, underlays, nodes)
        | Inr node \<Rightarrow>
            (case merge_node node nodes of
               (c, nodes') \<Rightarrow> merge_peers gateway_overlay peers (changed \<or> c, underlays @ [gn_underlay_ip node], nodes')))"

text \<open>An error leaves the nodes merged so far in the file, without normalisation.\<close>

definition merge_gateway_peers :: "GatewayHaRuntimeConfig \<Rightarrow> FileConfig \<Rightarrow> (merge_error + bool) \<times> FileConfig" where
  "merge_gateway_peers cfg file =
     (if fc_node_role file \<noteq> Gateway then (Inr False, file)
      else case merge_peers (gwc_overlay_ip (fc_gateway file)) (hr_peers cfg) (False, [], fc_gateway_nodes file) of
          (Some e, _, _, nodes) \<Rightarrow> (Inl e, file\<lparr>fc_gateway_nodes := nodes\<rparr>)
        | (None, merged, underlays, nodes) \<Rightarrow>
            let backends = filter (\<lambda>backend. bn_underlay_ip backend \<notin> set underlays) (fc_backend_nodes file);
                changed = (merged \<or> length backends \<noteq> length (fc_backend_nodes file));
                file1 = file\<lparr>fc_gateway_nodes := nodes, fc_backend_nodes := backends\<rparr> in
            (Inr changed, if changed then normalize_config file1 else file1))"

section \<open>Token check and overlap test\<close>

lemma word_xor_eq_0 [simp]: "a XOR b = 0 \<longleftrightarrow> a = b" for a :: "'a::len word"
proof
  assume "a XOR b = 0"
  then have "(a XOR b) XOR b = b" by simp
  then show "a = b" by (simp add: xor.assoc)
qed simp

lemma constant_time_fold:
  "foldl (\<lambda>diff (left, right). diff OR (left XOR right)) d xs = 0 \<longleftrightarrow> d = 0 \<and> (\<forall>(left, right)\<in>set xs. left = right)"
  for d :: u8
  by (induction xs arbitrary: d) (auto simp: or_eq_0_iff)

lemma constant_time_eq_iff [simp]: "constant_time_eq a b \<longleftrightarrow> a = b"
  by (auto simp: constant_time_eq_def constant_time_fold list_eq_iff_zip_eq case_prod_beta split: if_splits)

lemma as_bytes_inj [simp]: "as_bytes a = as_bytes b \<longleftrightarrow> a = b"
proof -
  have "inj (\<lambda>c. of_nat (of_char c) :: u8)"
  proof (rule injI)
    fix c c' :: char
    assume "(of_nat (of_char c) :: u8) = of_nat (of_char c')"
    then have "unat (of_nat (of_char c) :: u8) = unat (of_nat (of_char c') :: u8)" by simp
    then show "c = c'" by (simp add: unat_of_nat_lt)
  qed
  then show ?thesis by (simp add: as_bytes_def inj_map_eq_map)
qed

lemma session_token_matches_iff:
  "session_token_matches secrets token \<longleftrightarrow> token \<noteq> [] \<and> (\<exists>s. secrets = Some s \<and> sec_session_token s = token)"
  by (auto simp: session_token_matches_def split: option.splits)

lemma bit_cidr_mask: "prefix \<le> 32 \<Longrightarrow> bit (cidr_mask prefix) i \<longleftrightarrow> 32 \<le> i + unat prefix \<and> i < 32"
  by (cases "prefix = 0") (auto simp: cidr_mask_def bit_simps word_le_nat_alt)

lemma cidr_mask_absorb: "p \<le> q \<Longrightarrow> q \<le> 32 \<Longrightarrow> cidr_mask p AND cidr_mask q = cidr_mask p"
  by (rule bit_eqI) (auto simp: bit_and_iff bit_cidr_mask word_le_nat_alt)

lemma parse_ipv4_cidr_prefix: "parse_ipv4_cidr v = Some (a, p) \<Longrightarrow> p \<le> 32"
  by (auto simp: parse_ipv4_cidr_def not_less split: bind_splits if_splits)

lemma mask_agree:
  assumes "p \<le> q" "q \<le> 32" "z AND cidr_mask q = x AND cidr_mask q"
  shows "z AND cidr_mask p = x AND cidr_mask p"
proof -
  have "w AND cidr_mask p = (w AND cidr_mask q) AND cidr_mask p" for w
    using cidr_mask_absorb [OF assms(1,2)] by (simp add: and.assoc and.commute [of "cidr_mask q"])
  then show ?thesis using assms(3) by metis
qed



lemma cidr_overlaps_example:
  "cidr_overlaps ''10.44.0.0/24'' ''10.255.255.0/24'' = Inr False" "cidr_overlaps ''10.255.255.0/24'' ''10.44.0.0/24'' = Inr False"
  by code_simp+

end
