(* ===== verification/Sample_Codec.thy ===== *)
theory Sample_Codec
  imports Ha_Config
begin

text \<open>
  A text format for the stored configuration types, built from combinators.  The program stores JSON by a
  third-party library; theorems about stored documents take any codec that reads back what it wrote, and
  this format shows that there is one.
\<close>

section \<open>Formats\<close>

type_synonym 'a format = "('a \<Rightarrow> string) \<times> 'a reader"

definition faithful :: "'a format \<Rightarrow> bool" where
  "faithful f \<longleftrightarrow> (\<forall>x rest. snd f (fst f x @ rest) = Some (x, rest))"

definition write_text :: "'a format \<Rightarrow> 'a \<Rightarrow> string" where
  "write_text f x = fst f x"

definition read_text :: "'a format \<Rightarrow> string \<Rightarrow> 'a option" where
  "read_text f s = (case snd f s of Some (x, []) \<Rightarrow> Some x | _ \<Rightarrow> None)"

lemma faithfulD: "faithful f \<Longrightarrow> snd f (fst f x @ rest) = Some (x, rest)"
  by (simp add: faithful_def)

lemma read_write_text: "faithful f \<Longrightarrow> read_text f (write_text f x) = Some x"
  using faithfulD [of f x "[]"] by (simp add: read_text_def write_text_def)

lemma write_text_inj: "faithful f \<Longrightarrow> inj (write_text f)"
  by (metis injI option.inject read_write_text)

section \<open>Combinators\<close>

named_theorems faithful

definition char_format :: "char format" where
  "char_format = (\<lambda>c. [c], \<lambda>s. case s of [] \<Rightarrow> None | c # rest \<Rightarrow> Some (c, rest))"

definition iso_format :: "('b \<Rightarrow> 'a) \<Rightarrow> ('a \<Rightarrow> 'b) \<Rightarrow> 'a format \<Rightarrow> 'b format" where
  "iso_format to back f = (\<lambda>x. fst f (to x), \<lambda>s. map_option (\<lambda>(x, rest). (back x, rest)) (snd f s))"

definition pair_format :: "'a format \<Rightarrow> 'b format \<Rightarrow> ('a \<times> 'b) format" where
  "pair_format f g = (\<lambda>(x, y). fst f x @ fst g y,
     \<lambda>s. case snd f s of None \<Rightarrow> None | Some (x, rest) \<Rightarrow> map_option (\<lambda>(y, rest). ((x, y), rest)) (snd g rest))"

fun read_many :: "'a reader \<Rightarrow> nat \<Rightarrow> 'a list reader" where
  "read_many r 0 s = None"
| "read_many r (Suc n) [] = None"
| "read_many r (Suc n) (c # s) =
     (if c = CHR ''.'' then Some ([], s)
      else case r s of
          None \<Rightarrow> None
        | Some (x, rest) \<Rightarrow> map_option (\<lambda>(xs, rest). (x # xs, rest)) (read_many r n rest))"

definition list_format :: "'a format \<Rightarrow> 'a list format" where
  "list_format f = (\<lambda>xs. concat (map (\<lambda>x. CHR '','' # fst f x) xs) @ ''.'', \<lambda>s. read_many (snd f) (Suc (length s)) s)"

definition option_format :: "'a format \<Rightarrow> 'a option format" where
  "option_format f = iso_format (\<lambda>x. case x of None \<Rightarrow> [] | Some y \<Rightarrow> [y]) (\<lambda>ys. case ys of [] \<Rightarrow> None | y # _ \<Rightarrow> Some y) (list_format f)"

definition bool_format :: "bool format" where
  "bool_format = iso_format (\<lambda>b. if b then CHR ''1'' else CHR ''0'') (\<lambda>c. c = CHR ''1'') char_format"

definition word_format :: "'a::len word format" where
  "word_format = iso_format (\<lambda>w. map (bit w) [0..<LENGTH('a)]) (horner_sum of_bool 2) (list_format bool_format)"

lemma char_faithful [faithful]: "faithful char_format"
  by (simp add: faithful_def char_format_def)

lemma iso_faithful: "faithful f \<Longrightarrow> (\<And>x. back (to x) = x) \<Longrightarrow> faithful (iso_format to back f)"
  by (simp add: faithful_def iso_format_def)

lemma pair_faithful [faithful]: "faithful f \<Longrightarrow> faithful g \<Longrightarrow> faithful (pair_format f g)"
  by (simp add: faithful_def pair_format_def)

lemma read_many_faithful:
  assumes "faithful f"
  shows "length xs < n \<Longrightarrow> read_many (snd f) n (concat (map (\<lambda>x. CHR '','' # fst f x) xs) @ CHR ''.'' # rest) = Some (xs, rest)"
proof (induction xs arbitrary: n)
  case Nil
  then show ?case by (cases n) simp_all
next
  case (Cons x xs)
  then show ?case using faithfulD [OF assms] by (cases n) simp_all
qed

lemma length_concat_commas: "length xs \<le> length (concat (map (\<lambda>x. CHR '','' # f x) xs))"
  by (induction xs) simp_all

lemma list_faithful [faithful]:
  assumes "faithful f"
  shows "faithful (list_format f)"
  unfolding faithful_def
proof (intro allI)
  fix xs rest
  let ?s = "concat (map (\<lambda>x. CHR '','' # fst f x) xs) @ CHR ''.'' # rest"
  have "length xs < Suc (length ?s)" using length_concat_commas [of xs "fst f"] by simp
  from read_many_faithful [OF assms this]
  show "snd (list_format f) (fst (list_format f) xs @ rest) = Some (xs, rest)" by (simp add: list_format_def)
qed

lemma option_faithful [faithful]: "faithful f \<Longrightarrow> faithful (option_format f)"
  unfolding option_format_def by (rule iso_faithful) (auto intro: faithful split: option.splits)

lemma bool_faithful [faithful]: "faithful bool_format"
  unfolding bool_format_def by (rule iso_faithful) (auto intro: faithful)

lemma word_faithful [faithful]: "faithful word_format"
  unfolding word_format_def
  by (rule iso_faithful) (auto intro: faithful simp: horner_sum_bit_eq_take_bit)

section \<open>Configuration types\<close>

abbreviation string_format :: "string format" where
  "string_format \<equiv> list_format char_format"

definition ip_addr_format :: "IpAddr format" where
  "ip_addr_format = iso_format (\<lambda>ip. case ip of V4 a \<Rightarrow> (Some a, 0) | V6 a \<Rightarrow> (None, a))
     (\<lambda>(four, six). case four of Some a \<Rightarrow> V4 a | None \<Rightarrow> V6 six) (pair_format (option_format
       word_format) word_format)"

lemma ip_addr_faithful [faithful]: "faithful ip_addr_format"
  unfolding ip_addr_format_def by (rule iso_faithful) (auto intro!: faithful split: IpAddr.splits)

definition protocol_format :: "Protocol format" where
  "protocol_format = iso_format (\<lambda>x. case x of ProtocolTcp \<Rightarrow> CHR ''0'' | ProtocolUdp \<Rightarrow> CHR ''1'')
     (\<lambda>c. if c = CHR ''1'' then ProtocolUdp else ProtocolTcp) char_format"

lemma protocol_faithful [faithful]: "faithful protocol_format"
  unfolding protocol_format_def by (rule iso_faithful) (auto intro: faithful split: Protocol.splits)

definition lb_select_format :: "LbSelect format" where
  "lb_select_format = iso_format (\<lambda>x. case x of Rr \<Rightarrow> CHR ''0'' | Hash \<Rightarrow> CHR ''1'' | ConsistentHash
       \<Rightarrow> CHR ''2'' | Priority \<Rightarrow> CHR ''3'' | Persist \<Rightarrow> CHR ''4'' | Lc \<Rightarrow> CHR ''5'')
     (\<lambda>c. if c = CHR ''1'' then Hash else if c = CHR ''2'' then ConsistentHash else if c = CHR ''3'' then Priority else if
       c = CHR ''4'' then Persist else if c = CHR ''5'' then Lc else Rr) char_format"

lemma lb_select_faithful [faithful]: "faithful lb_select_format"
  unfolding lb_select_format_def by (rule iso_faithful) (auto intro: faithful split: LbSelect.splits)

definition lb_mode_format :: "LbMode format" where
  "lb_mode_format = iso_format (\<lambda>x. case x of LbModeDefault \<Rightarrow> CHR ''0'')
     (\<lambda>c. LbModeDefault) char_format"

lemma lb_mode_faithful [faithful]: "faithful lb_mode_format"
  unfolding lb_mode_format_def by (rule iso_faithful [OF char_faithful]) (metis LbMode.exhaust)

definition gateway_ha_mode_format :: "GatewayHaMode format" where
  "gateway_ha_mode_format = iso_format (\<lambda>x. case x of ActiveBackup \<Rightarrow> CHR ''0'')
     (\<lambda>c. ActiveBackup) char_format"

lemma gateway_ha_mode_faithful [faithful]: "faithful gateway_ha_mode_format"
  unfolding gateway_ha_mode_format_def by (rule iso_faithful [OF char_faithful]) (metis GatewayHaMode.exhaust)

definition xsync_rpc_format :: "XsyncRpc format" where
  "xsync_rpc_format = iso_format (\<lambda>x. case x of Grpc \<Rightarrow> CHR ''0'')
     (\<lambda>c. Grpc) char_format"

lemma xsync_rpc_faithful [faithful]: "faithful xsync_rpc_format"
  unfolding xsync_rpc_format_def by (rule iso_faithful [OF char_faithful]) (metis XsyncRpc.exhaust)

definition failover_mode_format :: "FailoverMode format" where
  "failover_mode_format = iso_format (\<lambda>x. case x of Manual \<Rightarrow> CHR ''0'' | BfdAuto \<Rightarrow> CHR ''1'')
     (\<lambda>c. if c = CHR ''1'' then BfdAuto else Manual) char_format"

lemma failover_mode_faithful [faithful]: "faithful failover_mode_format"
  unfolding failover_mode_format_def by (rule iso_faithful) (auto intro: faithful split: FailoverMode.splits)

definition vip_bind_device_format :: "VipBindDevice format" where
  "vip_bind_device_format = iso_format (\<lambda>x. case x of Loopback \<Rightarrow> CHR ''0'' | Underlay \<Rightarrow> CHR ''1'')
     (\<lambda>c. if c = CHR ''1'' then Underlay else Loopback) char_format"

lemma vip_bind_device_faithful [faithful]: "faithful vip_bind_device_format"
  unfolding vip_bind_device_format_def by (rule iso_faithful) (auto intro: faithful split: VipBindDevice.splits)

definition vip_provider_format :: "VipProvider format" where
  "vip_provider_format = iso_format (\<lambda>x. case x of L2 \<Rightarrow> CHR ''0'' | Bgp \<Rightarrow> CHR ''1'' | Hook
       \<Rightarrow> CHR ''2'')
     (\<lambda>c. if c = CHR ''1'' then Bgp else if c = CHR ''2'' then Hook else L2) char_format"

lemma vip_provider_faithful [faithful]: "faithful vip_provider_format"
  unfolding vip_provider_format_def by (rule iso_faithful) (auto intro: faithful split: VipProvider.splits)

definition vip_owner_format :: "VipOwner format" where
  "vip_owner_format = iso_format (\<lambda>x. case x of EdgeLb \<Rightarrow> CHR ''0'')
     (\<lambda>c. EdgeLb) char_format"

lemma vip_owner_faithful [faithful]: "faithful vip_owner_format"
  unfolding vip_owner_format_def by (rule iso_faithful [OF char_faithful]) (metis VipOwner.exhaust)

definition listener_format :: "Listener format" where
  "listener_format = iso_format (\<lambda>r. (ls_name r, ls_port r, ls_target_port r, ls_target_group r, ls_vip_ips r,
       ls_protocols r, ls_select r, ls_mode r, ls_inactive_timeout r))
     (\<lambda>(x0, x1, x2, x3, x4, x5, x6, x7, x8). \<lparr>ls_name = x0, ls_port = x1, ls_target_port = x2, ls_target_group =
       x3, ls_vip_ips = x4, ls_protocols = x5, ls_select = x6, ls_mode = x7, ls_inactive_timeout = x8\<rparr>)
     (pair_format string_format (pair_format word_format (pair_format word_format (pair_format string_format (pair_format
       (list_format ip_addr_format) (pair_format (list_format protocol_format) (pair_format lb_select_format (pair_format
       lb_mode_format (option_format word_format)))))))))"

lemma listener_faithful [faithful]: "faithful listener_format"
  unfolding listener_format_def by (rule iso_faithful) (auto intro!: faithful)

definition backend_target_format :: "BackendTarget format" where
  "backend_target_format = iso_format (\<lambda>r. (bt_backend r, bt_address r, bt_weight r))
     (\<lambda>(x0, x1, x2). \<lparr>bt_backend = x0, bt_address = x1, bt_weight = x2\<rparr>)
     (pair_format (option_format string_format) (pair_format ip_addr_format word_format))"

lemma backend_target_faithful [faithful]: "faithful backend_target_format"
  unfolding backend_target_format_def by (rule iso_faithful) (auto intro!: faithful)

definition target_group_format :: "TargetGroup format" where
  "target_group_format = iso_format (\<lambda>r. (tg_name r, tg_monitor r, tg_probe_type r, tg_probe_port r, tg_probe_req r,
       tg_probe_resp r, tg_probe_skip_tls_verify r, tg_period_secs r, tg_retries r, tg_targets r))
     (\<lambda>(x0, x1, x2, x3, x4, x5, x6, x7, x8, x9). \<lparr>tg_name = x0, tg_monitor = x1, tg_probe_type = x2, tg_probe_port
       = x3, tg_probe_req = x4, tg_probe_resp = x5, tg_probe_skip_tls_verify = x6, tg_period_secs = x7, tg_retries = x8,
       tg_targets = x9\<rparr>)
     (pair_format string_format (pair_format bool_format (pair_format (option_format string_format) (pair_format (option_format
       word_format) (pair_format (option_format string_format) (pair_format (option_format string_format) (pair_format bool_format
       (pair_format (option_format word_format) (pair_format (option_format word_format) (list_format
       backend_target_format))))))))))"

lemma target_group_faithful [faithful]: "faithful target_group_format"
  unfolding target_group_format_def by (rule iso_faithful) (auto intro!: faithful)

definition gateway_ha_peer_format :: "GatewayHaPeer format" where
  "gateway_ha_peer_format = iso_format (\<lambda>r. (hp_name r, hp_underlay_ip r, hp_public_ip r, hp_api_addr r, hp_xds_addr r,
       hp_overlay_cidr r, hp_overlay_ip r, hp_dscp r, hp_vni r, hp_vxlan_port r, hp_mtu r, hp_version r, hp_capabilities r))
     (\<lambda>(x0, x1, x2, x3, x4, x5, x6, x7, x8, x9, x10, x11, x12). \<lparr>hp_name = x0, hp_underlay_ip = x1, hp_public_ip =
       x2, hp_api_addr = x3, hp_xds_addr = x4, hp_overlay_cidr = x5, hp_overlay_ip = x6, hp_dscp = x7, hp_vni = x8, hp_vxlan_port
       = x9, hp_mtu = x10, hp_version = x11, hp_capabilities = x12\<rparr>)
     (pair_format string_format (pair_format string_format (pair_format (option_format string_format) (pair_format (option_format
       string_format) (pair_format (option_format string_format) (pair_format (option_format string_format) (pair_format
       (option_format string_format) (pair_format (option_format word_format) (pair_format (option_format word_format)
       (pair_format (option_format word_format) (pair_format (option_format word_format) (pair_format (option_format
       string_format) (list_format string_format)))))))))))))"

lemma gateway_ha_peer_faithful [faithful]: "faithful gateway_ha_peer_format"
  unfolding gateway_ha_peer_format_def by (rule iso_faithful) (auto intro!: faithful)

definition gateway_ha_peer_secrets_format :: "GatewayHaPeerSecrets format" where
  "gateway_ha_peer_secrets_format = iso_format (\<lambda>r. (sec_peer_name r, sec_peer_underlay_ip r, sec_session_token r,
       sec_session_token_id r, sec_updated_at_unix r))
     (\<lambda>(x0, x1, x2, x3, x4). \<lparr>sec_peer_name = x0, sec_peer_underlay_ip = x1, sec_session_token = x2,
       sec_session_token_id = x3, sec_updated_at_unix = x4\<rparr>)
     (pair_format string_format (pair_format string_format (pair_format string_format (pair_format string_format word_format))))"

lemma gateway_ha_peer_secrets_faithful [faithful]: "faithful gateway_ha_peer_secrets_format"
  unfolding gateway_ha_peer_secrets_format_def by (rule iso_faithful) (auto intro!: faithful)

definition garp_config_format :: "GarpConfig format" where
  "garp_config_format = iso_format (\<lambda>r. (garp_count r, garp_interval_ms r, garp_repeat_after_ms r, garp_repeat_count r))
     (\<lambda>(x0, x1, x2, x3). \<lparr>garp_count = x0, garp_interval_ms = x1, garp_repeat_after_ms = x2, garp_repeat_count =
       x3\<rparr>)
     (pair_format word_format (pair_format word_format (pair_format word_format word_format)))"

lemma garp_config_faithful [faithful]: "faithful garp_config_format"
  unfolding garp_config_format_def by (rule iso_faithful) (auto intro!: faithful)

definition vip_config_format :: "VipConfig format" where
  "vip_config_format = iso_format (\<lambda>r. (vip_provider r, vip_owner r, vip_bind_device r, vip_garp_device r, vip_private_vip
       r, vip_bind_timeout_secs r, vip_verify_timeout_secs r, vip_garp r, vip_promote_hook r, vip_demote_hook r, vip_verify_hook
       r))
     (\<lambda>(x0, x1, x2, x3, x4, x5, x6, x7, x8, x9, x10). \<lparr>vip_provider = x0, vip_owner = x1, vip_bind_device = x2,
       vip_garp_device = x3, vip_private_vip = x4, vip_bind_timeout_secs = x5, vip_verify_timeout_secs = x6, vip_garp = x7,
       vip_promote_hook = x8, vip_demote_hook = x9, vip_verify_hook = x10\<rparr>)
     (pair_format vip_provider_format (pair_format vip_owner_format (pair_format vip_bind_device_format (pair_format
       (option_format string_format) (pair_format (option_format string_format) (pair_format word_format (pair_format word_format
       (pair_format garp_config_format (pair_format (option_format string_format) (pair_format (option_format string_format)
       (option_format string_format)))))))))))"

lemma vip_config_faithful [faithful]: "faithful vip_config_format"
  unfolding vip_config_format_def by (rule iso_faithful) (auto intro!: faithful)

definition bgp_config_format :: "BgpConfig format" where
  "bgp_config_format = iso_format (\<lambda>r. (bgp_local_as r, bgp_router_id r, bgp_peers r, bgp_hold_time_secs r,
       bgp_keepalive_secs r))
     (\<lambda>(x0, x1, x2, x3, x4). \<lparr>bgp_local_as = x0, bgp_router_id = x1, bgp_peers = x2, bgp_hold_time_secs = x3,
       bgp_keepalive_secs = x4\<rparr>)
     (pair_format (option_format word_format) (pair_format string_format (pair_format (list_format string_format) (pair_format
       word_format word_format))))"

lemma bgp_config_faithful [faithful]: "faithful bgp_config_format"
  unfolding bgp_config_format_def by (rule iso_faithful) (auto intro!: faithful)

definition bfd_config_format :: "BfdConfig format" where
  "bfd_config_format = iso_format (\<lambda>r. (bfc_bind_addr r, bfc_port r, bfc_interval_ms r, bfc_detect_multiplier r))
     (\<lambda>(x0, x1, x2, x3). \<lparr>bfc_bind_addr = x0, bfc_port = x1, bfc_interval_ms = x2, bfc_detect_multiplier = x3\<rparr>)
     (pair_format string_format (pair_format word_format (pair_format word_format word_format)))"

lemma bfd_config_faithful [faithful]: "faithful bfd_config_format"
  unfolding bfd_config_format_def by (rule iso_faithful) (auto intro!: faithful)

definition xsync_config_format :: "XsyncConfig format" where
  "xsync_config_format = iso_format (\<lambda>r. (xsc_bind_addr r, xsc_port r, xsc_reconnect_min_ms r, xsc_reconnect_max_ms r))
     (\<lambda>(x0, x1, x2, x3). \<lparr>xsc_bind_addr = x0, xsc_port = x1, xsc_reconnect_min_ms = x2, xsc_reconnect_max_ms =
       x3\<rparr>)
     (pair_format string_format (pair_format word_format (pair_format word_format word_format)))"

lemma xsync_config_faithful [faithful]: "faithful xsync_config_format"
  unfolding xsync_config_format_def by (rule iso_faithful) (auto intro!: faithful)

definition gateway_ha_runtime_config_format :: "GatewayHaRuntimeConfig format" where
  "gateway_ha_runtime_config_format = iso_format (\<lambda>r. (hr_enabled r, hr_mode r, hr_self_index r, hr_preferred_active r,
       hr_connection_sync r, hr_xsync_rpc r, hr_failover r, hr_peers r, hr_vip r, hr_bgp r, hr_bfd r, hr_xsync r))
     (\<lambda>(x0, x1, x2, x3, x4, x5, x6, x7, x8, x9, x10, x11). \<lparr>hr_enabled = x0, hr_mode = x1, hr_self_index = x2,
       hr_preferred_active = x3, hr_connection_sync = x4, hr_xsync_rpc = x5, hr_failover = x6, hr_peers = x7, hr_vip = x8, hr_bgp
       = x9, hr_bfd = x10, hr_xsync = x11\<rparr>)
     (pair_format bool_format (pair_format gateway_ha_mode_format (pair_format word_format (pair_format (option_format
       string_format) (pair_format bool_format (pair_format xsync_rpc_format (pair_format failover_mode_format (pair_format
       (list_format gateway_ha_peer_format) (pair_format vip_config_format (pair_format bgp_config_format (pair_format
       bfd_config_format xsync_config_format)))))))))))"

lemma gateway_ha_runtime_config_faithful [faithful]: "faithful gateway_ha_runtime_config_format"
  unfolding gateway_ha_runtime_config_format_def by (rule iso_faithful) (auto intro!: faithful)

end
