(* ===== verification/Rust_Result.thy ===== *)
theory Rust_Result
  imports Main
begin

text \<open>
  Results: \<^verbatim>\<open>Result<T, E>\<close> is a sum with the error on the left, and the operator \<^verbatim>\<open>?\<close> is sequencing
  that stops at the first error.
\<close>

definition and_then :: "'e + 'a \<Rightarrow> ('a \<Rightarrow> 'e + 'b) \<Rightarrow> 'e + 'b" where
  "and_then x f = (case x of Inl e \<Rightarrow> Inl e | Inr a \<Rightarrow> f a)"

lemma and_then_simps [simp]:
  "and_then (Inl e) f = Inl e" "and_then (Inr a) f = f a"
  by (simp_all add: and_then_def)

lemma and_then_Inr: "and_then x f = Inr b \<longleftrightarrow> (\<exists>a. x = Inr a \<and> f a = Inr b)"
  by (simp add: and_then_def split: sum.splits)

definition check :: "bool \<Rightarrow> 'e \<Rightarrow> 'e + unit" where
  "check cond e = (if cond then Inr () else Inl e)"

lemma check_simps [simp]: "check True e = Inr ()" "check False e = Inl e" "check cond e = Inr u \<longleftrightarrow> cond"
  by (simp_all add: check_def)

definition ok_or :: "'a option \<Rightarrow> 'e \<Rightarrow> 'e + 'a" where
  "ok_or x e = (case x of None \<Rightarrow> Inl e | Some a \<Rightarrow> Inr a)"

lemma ok_or_simps [simp]: "ok_or None e = Inl e" "ok_or (Some a) e = Inr a" "ok_or x e = Inr a \<longleftrightarrow> x = Some a"
  by (simp_all add: ok_or_def split: option.splits)

definition map_err :: "('e \<Rightarrow> 'f) \<Rightarrow> 'e + 'a \<Rightarrow> 'f + 'a" where
  "map_err f x = (case x of Inl e \<Rightarrow> Inl (f e) | Inr a \<Rightarrow> Inr a)"

lemma map_err_simps [simp]:
  "map_err f (Inl e) = Inl (f e)" "map_err f (Inr a) = Inr a" "map_err f x = Inr a \<longleftrightarrow> x = Inr a"
  by (simp_all add: map_err_def split: sum.splits)

text \<open>\<^verbatim>\<open>collect::<Result<Vec<_>>>()\<close>.\<close>

fun collect :: "('e + 'a) list \<Rightarrow> 'e + 'a list" where
  "collect [] = Inr []"
| "collect (x # xs) = and_then x (\<lambda>a. and_then (collect xs) (\<lambda>as. Inr (a # as)))"

lemma collect_Inr: "collect xs = Inr as \<longleftrightarrow> xs = map Inr as"
  by (induction xs arbitrary: as) (auto simp: and_then_Inr)

lemma map_err_Inr [simp]: "map_err f x = Inr b \<longleftrightarrow> x = Inr b"
  by (auto simp: map_err_def split: sum.splits)

end
