(* ===== verification/Proxy_Replication.thy ===== *)
theory Proxy_Replication
  imports Storage Sample_Codec Native_Model Rust_Result
begin

text \<open>
  The replicated listener and target-group configuration (\<^verbatim>\<open>edge-lb/src/storage/proxy_config.rs\<close>,
  \<^verbatim>\<open>storage/proxy_replication.rs\<close>).  A bundle is what one read transaction sees of six documents; a local
  writer commits listeners, target groups and the replication cursor together by compare-and-put; the
  master sends its snapshot and the backup receives it.  The JSON codec and the content hash (SHA-256 of
  the JSON text) are parameters.  What other threads do to the repository between the read and the commit
  of an attempt is a parameter of the attempt, and so is its revision number.
\<close>

section \<open>Data\<close>

record ProxyConfig =
  pc_listeners :: "Listener list"
  pc_target_groups :: "TargetGroup list"

record SyncState =
  ss_sequence :: u64
  ss_source :: string
  ss_pairing_id :: string
  ss_content_hash :: string
  ss_pending :: bool
  ss_last_error :: "string option"

definition default_sync_state :: SyncState where
  "default_sync_state = \<lparr>ss_sequence = 0, ss_source = [], ss_pairing_id = [], ss_content_hash = [], ss_pending = False,
     ss_last_error = None\<rparr>"

record Snapshot =
  sn_sequence :: u64
  sn_source :: string
  sn_pairing_id :: string
  sn_content_hash :: string
  sn_config :: ProxyConfig

record Receipt =
  rc_sequence :: u64
  rc_source :: string
  rc_pairing_id :: string
  rc_content_hash :: string

datatype Scope = Standalone | Master string GatewayHaPeer | Backup string GatewayHaPeer

record Bundle =
  bu_config :: ProxyConfig
  bu_sync :: SyncState
  bu_scope :: Scope
  bu_documents :: "StoredDocument option list"

record codec =
  cd_listeners :: "Listener list \<Rightarrow> string"
  cd_listeners_of :: "string \<Rightarrow> Listener list option"
  cd_groups :: "TargetGroup list \<Rightarrow> string"
  cd_groups_of :: "string \<Rightarrow> TargetGroup list option"
  cd_sync :: "SyncState \<Rightarrow> string"
  cd_sync_of :: "string \<Rightarrow> SyncState option"
  cd_ha :: "GatewayHaRuntimeConfig \<Rightarrow> string"
  cd_ha_of :: "string \<Rightarrow> GatewayHaRuntimeConfig option"
  cd_secret :: "GatewayHaPeerSecrets \<Rightarrow> string"
  cd_secret_of :: "string \<Rightarrow> GatewayHaPeerSecrets option"
  cd_content_hash :: "ProxyConfig \<Rightarrow> string"

definition codec_ok :: "codec \<Rightarrow> bool" where
  "codec_ok c \<longleftrightarrow> (\<forall>x. cd_listeners_of c (cd_listeners c x) = Some x) \<and> (\<forall>x. cd_groups_of c (cd_groups c x) = Some x) \<and>
     (\<forall>x. cd_sync_of c (cd_sync c x) = Some x) \<and> (\<forall>x. cd_ha_of c (cd_ha c x) = Some x) \<and>
     (\<forall>x. cd_secret_of c (cd_secret c x) = Some x)"

datatype repl_error =
    DecodeFailed | NotOnePeer | SecretMissing | PairingInconsistent | ActiveMissing | ActiveNotMember
  | NotMaster | SequenceExhausted | StorageFailed storage_error | ChangedConcurrently

datatype MutationError = Rejected nat string | StorageError repl_error | Contended

definition REPLICATION_KEYS :: "document_key list" where
  "REPLICATION_KEYS = [(''listeners'', ''config''), (''target_groups'', ''config''), (''proxy_replication'', ''config''),
     (''ha'', ''config''), (''ha_peer_secret'', ''config''), (''ha_active_gateway'', ''current'')]"

section \<open>Reading\<close>

definition decode :: "(string \<Rightarrow> 'a option) \<Rightarrow> StoredDocument option \<Rightarrow> repl_error + 'a option" where
  "decode dec document =
     (case document of
        None \<Rightarrow> Inr None
      | Some doc \<Rightarrow> and_then (ok_or (dec (sd_payload doc)) DecodeFailed) (\<lambda>v. Inr (Some v)))"

definition unwrap_or :: "'a option \<Rightarrow> 'a \<Rightarrow> 'a" where
  "unwrap_or x d = (case x of None \<Rightarrow> d | Some v \<Rightarrow> v)"

definition read_scope ::
    "codec \<Rightarrow> FileConfig \<Rightarrow> GatewayHaRuntimeConfig \<Rightarrow> StoredDocument option \<Rightarrow> StoredDocument option \<Rightarrow> repl_error + Scope" where
  "read_scope c cfg ha secret_doc active_doc =
     (if \<not> hr_enabled ha then Inr Standalone
      else and_then (check (length (hr_peers ha) = 1) NotOnePeer) (\<lambda>_.
        let peer = hd (hr_peers ha) in
        and_then (decode (cd_secret_of c) secret_doc) (\<lambda>secret_opt.
        and_then (ok_or secret_opt SecretMissing) (\<lambda>secret.
        and_then (check (sec_session_token_id secret \<noteq> [] \<and> sec_session_token secret \<noteq> [] \<and>
            sec_peer_name secret = hp_name peer \<and> sec_peer_underlay_ip secret = hp_underlay_ip peer) PairingInconsistent) (\<lambda>_.
        and_then (ok_or active_doc ActiveMissing) (\<lambda>doc.
        let active = trim (sd_payload doc) in
        if active = fc_node_name cfg \<or> active = show_ip (fc_underlay_ip cfg)
        then Inr (Master (sec_session_token_id secret) peer)
        else if active = hp_name peer \<or> active = hp_underlay_ip peer
        then Inr (Backup (sec_session_token_id secret) peer)
        else Inl ActiveNotMember))))))"

definition read_documents :: "codec \<Rightarrow> FileConfig \<Rightarrow> StoredDocument option list \<Rightarrow> repl_error + Bundle" where
  "read_documents c cfg documents =
     and_then (decode (cd_listeners_of c) (documents ! 0)) (\<lambda>listeners.
     and_then (decode (cd_groups_of c) (documents ! 1)) (\<lambda>target_groups.
     and_then (decode (cd_ha_of c) (documents ! 3)) (\<lambda>ha.
     and_then (read_scope c cfg (unwrap_or ha default_ha_runtime_config) (documents ! 4) (documents ! 5)) (\<lambda>scope.
     and_then (decode (cd_sync_of c) (documents ! 2)) (\<lambda>sync.
     Inr \<lparr>bu_config = \<lparr>pc_listeners = unwrap_or listeners (fc_listeners cfg),
            pc_target_groups = unwrap_or target_groups (fc_target_groups cfg)\<rparr>,
          bu_sync = unwrap_or sync default_sync_state, bu_scope = scope, bu_documents = documents\<rparr>)))))"

definition read_bundle :: "codec \<Rightarrow> FileConfig \<Rightarrow> Repository \<Rightarrow> repl_error + Bundle" where
  "read_bundle c cfg repo = read_documents c cfg (get_many REPLICATION_KEYS repo)"

definition shared :: "ProxyConfig \<Rightarrow> ProxyConfig" where
  "shared config = config\<lparr>pc_listeners := map (\<lambda>l. l\<lparr>ls_vip_ips := []\<rparr>) (pc_listeners config)\<rparr>"

section \<open>Versions and commits\<close>

definition require_local_writer :: "Bundle \<Rightarrow> MutationError + unit" where
  "require_local_writer b =
     (case bu_scope b of Backup _ _ \<Rightarrow> Inl (Rejected 409 ''local gateway is not MASTER'') | _ \<Rightarrow> Inr ())"

definition local_version :: "codec \<Rightarrow> FileConfig \<Rightarrow> Bundle \<Rightarrow> ProxyConfig \<Rightarrow> repl_error + SyncState" where
  "local_version c cfg b config =
     and_then (case bu_scope b of
         Master pairing_id _ \<Rightarrow> Inr (pairing_id, True)
       | Standalone \<Rightarrow> Inr ([], False)
       | Backup _ _ \<Rightarrow> Inl NotMaster) (\<lambda>(pairing_id, pending).
     and_then (check (ss_sequence (bu_sync b) \<noteq> - 1) SequenceExhausted) (\<lambda>_.
     Inr \<lparr>ss_sequence = ss_sequence (bu_sync b) + 1, ss_source = fc_node_name cfg, ss_pairing_id = pairing_id,
          ss_content_hash = cd_content_hash c (shared config), ss_pending = pending, ss_last_error = None\<rparr>))"

definition expected :: "Bundle \<Rightarrow> nat \<Rightarrow> int option" where
  "expected b index = map_option sd_revision (bu_documents b ! index)"

definition commit_changes :: "codec \<Rightarrow> Bundle \<Rightarrow> ProxyConfig \<Rightarrow> SyncState \<Rightarrow> bool \<Rightarrow> DocumentChange list" where
  "commit_changes c b config sync business_changed =
     (if business_changed
      then [\<lparr>dc_key = REPLICATION_KEYS ! 0, dc_expected_revision = expected b 0, dc_payload = cd_listeners c (pc_listeners config)\<rparr>,
            \<lparr>dc_key = REPLICATION_KEYS ! 1, dc_expected_revision = expected b 1, dc_payload = cd_groups c (pc_target_groups config)\<rparr>]
      else [])
     @ [\<lparr>dc_key = REPLICATION_KEYS ! 2, dc_expected_revision = expected b 2, dc_payload = cd_sync c sync\<rparr>]"

definition commit_guards :: "Bundle \<Rightarrow> bool \<Rightarrow> DocumentGuard list" where
  "commit_guards b business_changed =
     map (\<lambda>index. \<lparr>dg_key = REPLICATION_KEYS ! index, dg_expected_revision = expected b index\<rparr>)
       ((if business_changed then [] else [0, 1]) @ [3, 4, 5])"

definition commit ::
    "storage_env \<Rightarrow> codec \<Rightarrow> int \<Rightarrow> Bundle \<Rightarrow> ProxyConfig \<Rightarrow> SyncState \<Rightarrow> bool \<Rightarrow> Repository \<Rightarrow> (storage_error + bool) \<times> Repository" where
  "commit env c revision b config sync business_changed repo =
     compare_and_put env (commit_changes c b config sync business_changed) (commit_guards b business_changed) revision repo"

definition bundle_snapshot :: "Bundle \<Rightarrow> Snapshot" where
  "bundle_snapshot b = \<lparr>sn_sequence = ss_sequence (bu_sync b), sn_source = ss_source (bu_sync b),
     sn_pairing_id = ss_pairing_id (bu_sync b), sn_content_hash = ss_content_hash (bu_sync b), sn_config = shared (bu_config b)\<rparr>"

section \<open>The four loops\<close>

text \<open>Each loop has 16 attempts.  An attempt carries what other threads do to the repository between
  its read and its commit, and the revision number it draws.\<close>

record attempt =
  at_others :: "Repository \<Rightarrow> Repository"
  at_revision :: int

definition business_json :: "codec \<Rightarrow> ProxyConfig \<Rightarrow> string" where
  "business_json c config = ''['' @ cd_listeners c (pc_listeners config) @ '','' @ cd_groups c (pc_target_groups config) @ '']''"

fun mutate_attempts ::
    "storage_env \<Rightarrow> codec \<Rightarrow> FileConfig \<Rightarrow> (ProxyConfig \<Rightarrow> (nat \<times> string) + 'a \<times> ProxyConfig) \<Rightarrow> attempt list \<Rightarrow>
     Repository \<Rightarrow> (MutationError + 'a \<times> bool) \<times> Repository" where
  "mutate_attempts env c cfg update [] repo = (Inl Contended, repo)"
| "mutate_attempts env c cfg update (a # rest) repo =
     (case read_bundle c cfg repo of
        Inl e \<Rightarrow> (Inl (StorageError e), repo)
      | Inr b \<Rightarrow>
        (case require_local_writer b of
           Inl e \<Rightarrow> (Inl e, repo)
         | Inr _ \<Rightarrow>
           (case update (bu_config b) of
              Inl (status, message) \<Rightarrow> (Inl (Rejected status message), repo)
            | Inr (result, state) \<Rightarrow>
                if business_json c (bu_config b) = business_json c state then (Inr (result, False), repo)
                else
                  (case local_version c cfg b state of
                     Inl e \<Rightarrow> (Inl (StorageError e), repo)
                   | Inr sync \<Rightarrow>
                     (case commit env c (at_revision a) b state sync True (at_others a repo) of
                        (Inl e, r) \<Rightarrow> (Inl (StorageError (StorageFailed e)), r)
                      | (Inr True, r) \<Rightarrow> (Inr (result, True), r)
                      | (Inr False, r) \<Rightarrow> mutate_attempts env c cfg update rest r)))))"

definition mutate_on ::
    "storage_env \<Rightarrow> codec \<Rightarrow> FileConfig \<Rightarrow> (ProxyConfig \<Rightarrow> (nat \<times> string) + 'a \<times> ProxyConfig) \<Rightarrow> (nat \<Rightarrow> attempt) \<Rightarrow>
     Repository \<Rightarrow> (MutationError + 'a \<times> bool) \<times> Repository" where
  "mutate_on env c cfg update attempts repo = mutate_attempts env c cfg update (map attempts [0..<16]) repo"

fun outgoing_attempts ::
    "storage_env \<Rightarrow> codec \<Rightarrow> FileConfig \<Rightarrow> attempt list \<Rightarrow> Repository \<Rightarrow>
     (repl_error + (GatewayHaPeer \<times> Snapshot \<times> bool) option) \<times> Repository" where
  "outgoing_attempts env c cfg [] repo = (Inl ChangedConcurrently, repo)"
| "outgoing_attempts env c cfg (a # rest) repo =
     (case read_bundle c cfg repo of
        Inl e \<Rightarrow> (Inl e, repo)
      | Inr b \<Rightarrow>
        (case bu_scope b of
           Master pairing_id peer \<Rightarrow>
             if ss_source (bu_sync b) \<noteq> fc_node_name cfg \<or> ss_pairing_id (bu_sync b) \<noteq> pairing_id \<or>
                ss_content_hash (bu_sync b) \<noteq> cd_content_hash c (shared (bu_config b))
             then
               (case local_version c cfg b (bu_config b) of
                  Inl e \<Rightarrow> (Inl e, repo)
                | Inr sync \<Rightarrow>
                  (case commit env c (at_revision a) b (bu_config b) sync False (at_others a repo) of
                     (Inl e, r) \<Rightarrow> (Inl (StorageFailed e), r)
                   | (Inr _, r) \<Rightarrow> outgoing_attempts env c cfg rest r))
             else (Inr (Some (peer, bundle_snapshot b, ss_pending (bu_sync b))), repo)
         | _ \<Rightarrow> (Inr None, repo)))"

definition outgoing_on ::
    "storage_env \<Rightarrow> codec \<Rightarrow> FileConfig \<Rightarrow> (nat \<Rightarrow> attempt) \<Rightarrow> Repository \<Rightarrow>
     (repl_error + (GatewayHaPeer \<times> Snapshot \<times> bool) option) \<times> Repository" where
  "outgoing_on env c cfg attempts repo = outgoing_attempts env c cfg (map attempts [0..<16]) repo"

definition snapshot_receipt :: "Snapshot \<Rightarrow> Receipt" where
  "snapshot_receipt s = \<lparr>rc_sequence = sn_sequence s, rc_source = sn_source s, rc_pairing_id = sn_pairing_id s,
     rc_content_hash = sn_content_hash s\<rparr>"

definition receipt_matches :: "Receipt \<Rightarrow> Snapshot \<Rightarrow> bool" where
  "receipt_matches r s \<longleftrightarrow> rc_sequence r = sn_sequence s \<and> rc_source r = sn_source s \<and> rc_pairing_id r = sn_pairing_id s \<and>
     rc_content_hash r = sn_content_hash s"

definition received_sync :: "Snapshot \<Rightarrow> SyncState" where
  "received_sync s = \<lparr>ss_sequence = sn_sequence s, ss_source = sn_source s, ss_pairing_id = sn_pairing_id s,
     ss_content_hash = sn_content_hash s, ss_pending = False, ss_last_error = None\<rparr>"

fun receive_attempts ::
    "storage_env \<Rightarrow> codec \<Rightarrow> FileConfig \<Rightarrow> Snapshot \<Rightarrow> attempt list \<Rightarrow> Repository \<Rightarrow> (MutationError + Receipt \<times> bool) \<times> Repository" where
  "receive_attempts env c cfg s [] repo = (Inl Contended, repo)"
| "receive_attempts env c cfg s (a # rest) repo =
     (case read_bundle c cfg repo of
        Inl e \<Rightarrow> (Inl (StorageError e), repo)
      | Inr b \<Rightarrow>
        (case bu_scope b of
           Backup pairing_id peer \<Rightarrow>
             let sync = bu_sync b; same_pair = (sn_pairing_id s = ss_pairing_id sync);
                 current = cd_content_hash c (shared (bu_config b)) in
             if sn_pairing_id s \<noteq> pairing_id \<or> sn_source s \<noteq> hp_name peer
             then (Inl (Rejected 409 ''replica source does not match current HA pairing''), repo)
             else if same_pair \<and> sn_sequence s < ss_sequence sync
             then (Inl (Rejected 409 ''stale proxy snapshot''), repo)
             else if same_pair \<and> sn_sequence s = ss_sequence sync
             then
               if sn_source s \<noteq> ss_source sync \<or> sn_content_hash s \<noteq> ss_content_hash sync \<or> current \<noteq> sn_content_hash s
               then (Inl (Rejected 409 ''conflicting proxy snapshot version''), repo)
               else (Inr (snapshot_receipt s, False), repo)
             else
               let changed = (current \<noteq> sn_content_hash s);
                   write_documents = (changed \<or> bu_documents b ! 0 = None \<or> bu_documents b ! 1 = None) in
               (case commit env c (at_revision a) b (sn_config s) (received_sync s) write_documents (at_others a repo) of
                  (Inl e, r) \<Rightarrow> (Inl (StorageError (StorageFailed e)), r)
                | (Inr True, r) \<Rightarrow> (Inr (snapshot_receipt s, changed), r)
                | (Inr False, r) \<Rightarrow> receive_attempts env c cfg s rest r)
         | _ \<Rightarrow> (Inl (Rejected 409 ''replica write requires BACKUP role''), repo)))"

definition snapshot_file :: "FileConfig \<Rightarrow> Snapshot \<Rightarrow> FileConfig" where
  "snapshot_file cfg s = cfg\<lparr>fc_listeners := pc_listeners (sn_config s),
     fc_target_groups := map (\<lambda>g. g\<lparr>tg_targets := map (\<lambda>t. t\<lparr>bt_backend := None\<rparr>) (tg_targets g)\<rparr>) (pc_target_groups (sn_config s))\<rparr>"

definition receive_on ::
    "storage_env \<Rightarrow> codec \<Rightarrow> FileConfig \<Rightarrow> Snapshot \<Rightarrow> (nat \<Rightarrow> attempt) \<Rightarrow> Repository \<Rightarrow>
     (MutationError + Receipt \<times> bool) \<times> Repository" where
  "receive_on env c cfg s attempts repo =
     (if sn_sequence s = 0 \<or> (\<exists>l\<in>set (pc_listeners (sn_config s)). ls_vip_ips l \<noteq> []) \<or>
         cd_content_hash c (sn_config s) \<noteq> sn_content_hash s
      then (Inl (Rejected 400 ''invalid shared proxy snapshot''), repo)
      else case validate_config (snapshot_file cfg s) of
          Some e \<Rightarrow> (Inl (Rejected 400 ''invalid proxy snapshot''), repo)
        | None \<Rightarrow> receive_attempts env c cfg s (map attempts [0..<16]) repo)"

fun record_attempts ::
    "storage_env \<Rightarrow> codec \<Rightarrow> FileConfig \<Rightarrow> Snapshot \<Rightarrow> string option \<Rightarrow> attempt list \<Rightarrow> Repository \<Rightarrow>
     (repl_error + unit) \<times> Repository" where
  "record_attempts env c cfg s error [] repo = (Inl ChangedConcurrently, repo)"
| "record_attempts env c cfg s error (a # rest) repo =
     (case read_bundle c cfg repo of
        Inl e \<Rightarrow> (Inl e, repo)
      | Inr b \<Rightarrow>
        (case bu_scope b of
           Master pairing_id _ \<Rightarrow>
             let sync = bu_sync b in
             if pairing_id \<noteq> sn_pairing_id s \<or> ss_sequence sync \<noteq> sn_sequence s \<or> ss_source sync \<noteq> sn_source s \<or>
                ss_content_hash sync \<noteq> sn_content_hash s
             then (Inr (), repo)
             else
               let next = sync\<lparr>ss_pending := (error \<noteq> None), ss_last_error := map_option (take 512) error\<rparr> in
               if next = sync then (Inr (), repo)
               else
                 (case commit env c (at_revision a) b (bu_config b) next False (at_others a repo) of
                    (Inl e, r) \<Rightarrow> (Inl (StorageFailed e), r)
                  | (Inr True, r) \<Rightarrow> (Inr (), r)
                  | (Inr False, r) \<Rightarrow> record_attempts env c cfg s error rest r)
         | _ \<Rightarrow> (Inr (), repo)))"

definition record_result_on ::
    "storage_env \<Rightarrow> codec \<Rightarrow> FileConfig \<Rightarrow> Snapshot \<Rightarrow> string option \<Rightarrow> (nat \<Rightarrow> attempt) \<Rightarrow> Repository \<Rightarrow>
     (repl_error + unit) \<times> Repository" where
  "record_result_on env c cfg s error attempts repo = record_attempts env c cfg s error (map attempts [0..<16]) repo"

section \<open>Commits see what was read\<close>

lemma codec_okD:
  assumes "codec_ok c"
  shows "cd_listeners_of c (cd_listeners c ls) = Some ls" "cd_groups_of c (cd_groups c gs) = Some gs"
    "cd_sync_of c (cd_sync c s) = Some s" "cd_ha_of c (cd_ha c h) = Some h" "cd_secret_of c (cd_secret c x) = Some x"
  using assms by (simp_all add: codec_ok_def)

lemma replication_keys: "length REPLICATION_KEYS = 6" "distinct REPLICATION_KEYS"
  by (simp_all add: REPLICATION_KEYS_def)

lemma replication_key_eq [simp]: "i < 6 \<Longrightarrow> j < 6 \<Longrightarrow> REPLICATION_KEYS ! i = REPLICATION_KEYS ! j \<longleftrightarrow> i = j"
  using nth_eq_iff_index_eq [OF replication_keys(2)] by (simp add: replication_keys(1))

lemma below_six: "i < 6 \<longleftrightarrow> i \<in> {0, 1, 2, 3, 4, 5 :: nat}"
  by auto

lemma get_many_nth: "i < 6 \<Longrightarrow> get_many REPLICATION_KEYS r ! i = get_doc (REPLICATION_KEYS ! i) r"
  by (simp add: get_many_def replication_keys)

lemma get_many_eqI:
  "(\<And>i. i < 6 \<Longrightarrow> get_doc (REPLICATION_KEYS ! i) r' = get_doc (REPLICATION_KEYS ! i) r) \<Longrightarrow>
   get_many REPLICATION_KEYS r' = get_many REPLICATION_KEYS r"
  unfolding get_many_def by (rule nth_equalityI) (simp_all add: replication_keys)

lemma read_bundle_documents: "read_bundle c cfg r = Inr b \<Longrightarrow> bu_documents b = get_many REPLICATION_KEYS r"
  by (auto simp: read_bundle_def read_documents_def and_then_Inr)

lemma commit_keys:
  assumes "i < 6"
  shows "(\<exists>g\<in>set (commit_guards b bc). dg_key g = REPLICATION_KEYS ! i \<and> dg_expected_revision g = expected b i) \<or>
    (\<exists>ch\<in>set (commit_changes c b config sync bc). dc_key ch = REPLICATION_KEYS ! i \<and> dc_expected_revision ch = expected b i)"
  using assms unfolding below_six by (cases bc) (auto simp: commit_guards_def commit_changes_def)

lemma commit_expected:
  assumes "commit env c n b config sync bc r = (Inr True, r')" "i < 6"
  shows "map_option sd_revision (get_doc (REPLICATION_KEYS ! i) r) = expected b i"
  using commit_keys [OF assms(2), of b bc c config sync] compare_and_put_True(2,3) [OF assms(1) [unfolded commit_def]]
  by metis

lemma commit_current:
  assumes "evolves r0 r" "read_bundle c cfg r0 = Inr b" "commit env c n b config sync bc r = (Inr True, r')"
  shows "read_bundle c cfg r = Inr b"
proof -
  have "get_doc (REPLICATION_KEYS ! i) r = get_doc (REPLICATION_KEYS ! i) r0" if i: "i < 6" for i
  proof (rule repo.read_is_current [OF assms(1)])
    show "map_option sd_revision (get_doc (REPLICATION_KEYS ! i) r) = map_option sd_revision (get_doc (REPLICATION_KEYS ! i) r0)"
      unfolding commit_expected [OF assms(3) i] expected_def read_bundle_documents [OF assms(2)] get_many_nth [OF i] by simp
  qed
  then have "get_many REPLICATION_KEYS r = get_many REPLICATION_KEYS r0" by (rule get_many_eqI)
  then show ?thesis using assms(2) by (simp add: read_bundle_def)
qed

lemma commit_docs:
  assumes "commit env c n b config sync bc r = (Inr True, r')"
  shows "get_doc k r' = (if bc \<and> k = REPLICATION_KEYS ! 0 then Some \<lparr>sd_payload = cd_listeners c (pc_listeners config), sd_revision = n, sd_updated_at = st_now env\<rparr>
    else if bc \<and> k = REPLICATION_KEYS ! 1 then Some \<lparr>sd_payload = cd_groups c (pc_target_groups config), sd_revision = n, sd_updated_at = st_now env\<rparr>
    else if k = REPLICATION_KEYS ! 2 then Some \<lparr>sd_payload = cd_sync c sync, sd_revision = n, sd_updated_at = st_now env\<rparr>
    else get_doc k r)"
  unfolding compare_and_put_doc [OF assms [unfolded commit_def]]
  by (cases bc) (auto simp: commit_changes_def)

lemma commit_reads:
  assumes "codec_ok c" "read_bundle c cfg r = Inr b" "commit env c n b config sync bc r = (Inr True, r')"
  shows "read_bundle c cfg r' = Inr (b\<lparr>bu_config := if bc then config else bu_config b, bu_sync := sync,
    bu_documents := get_many REPLICATION_KEYS r'\<rparr>)"
proof -
  let ?doc = "\<lambda>p. Some \<lparr>sd_payload = p, sd_revision = n, sd_updated_at = st_now env\<rparr>"
  let ?ds = "get_many REPLICATION_KEYS r" and ?ds' = "get_many REPLICATION_KEYS r'"
  have docs: "?ds' ! 0 = (if bc then ?doc (cd_listeners c (pc_listeners config)) else ?ds ! 0)"
    "?ds' ! 1 = (if bc then ?doc (cd_groups c (pc_target_groups config)) else ?ds ! 1)"
    "?ds' ! 2 = ?doc (cd_sync c sync)" "?ds' ! 3 = ?ds ! 3" "?ds' ! 4 = ?ds ! 4" "?ds' ! 5 = ?ds ! 5"
    by (simp_all add: get_many_nth commit_docs [OF assms(3)])
  show ?thesis
    using assms(2) codec_okD [OF assms(1)] unfolding read_bundle_def read_documents_def docs
    by (cases bc) (auto simp: and_then_Inr decode_def unwrap_or_def)
qed

section \<open>Local writes are atomic\<close>

text \<open>The other threads use the repository through its commands.\<close>

definition others_evolve :: "attempt list \<Rightarrow> bool" where
  "others_evolve attempts \<longleftrightarrow> (\<forall>a\<in>set attempts. \<forall>r. revisions_recorded r \<longrightarrow> evolves r (at_others a r))"

lemma others_evolve_Cons:
  "others_evolve (a # rest) \<longleftrightarrow> (\<forall>r. revisions_recorded r \<longrightarrow> evolves r (at_others a r)) \<and> others_evolve rest"
  by (simp add: others_evolve_def)

lemma evolves_recorded: "evolves r r' \<Longrightarrow> revisions_recorded r'"
  by (simp add: evolves_def)

text \<open>The effect of an update at the instant \<open>r\<close>.\<close>

definition applied_at ::
    "codec \<Rightarrow> FileConfig \<Rightarrow> (ProxyConfig \<Rightarrow> (nat \<times> string) + 'a \<times> ProxyConfig) \<Rightarrow> 'a \<Rightarrow> bool \<Rightarrow> Repository \<Rightarrow> Repository \<Rightarrow> bool" where
  "applied_at c cfg update result changed r repo' \<longleftrightarrow>
     (\<exists>b state. read_bundle c cfg r = Inr b \<and> require_local_writer b = Inr () \<and> update (bu_config b) = Inr (result, state) \<and>
       (if changed
        then \<exists>b'. read_bundle c cfg repo' = Inr b' \<and> bu_config b' = state \<and> bu_scope b' = bu_scope b \<and>
          local_version c cfg b state = Inr (bu_sync b') \<and> (\<forall>k\<in>- set (take 3 REPLICATION_KEYS). get_doc k repo' = get_doc k r)
        else repo' = r))"

lemma commit_frame:
  assumes "commit env c n b config sync bc r = (Inr True, r')" "k \<notin> set (take 3 REPLICATION_KEYS)"
  shows "get_doc k r' = get_doc k r"
  using assms(2) unfolding commit_docs [OF assms(1)] by (auto simp: REPLICATION_KEYS_def numeral_3_eq_3)

lemma commit_other: "commit env c n b config sync bc r = (x, r') \<Longrightarrow> x \<noteq> Inr True \<Longrightarrow> r' = r"
  unfolding commit_def by (rule compare_and_put_other)

lemma mutate_attempts_applied:
  assumes codec: "codec_ok c" and "revisions_recorded repo" "others_evolve attempts"
    and "mutate_attempts env c cfg update attempts repo = (Inr (result, changed), repo')"
  shows "\<exists>r. evolves repo r \<and> applied_at c cfg update result changed r repo'"
  using assms(2-)
proof (induction attempts arbitrary: repo)
  case (Cons a rest)
  let ?r = "at_others a repo"
  have others: "evolves repo ?r" using Cons.prems(1,2) by (simp add: others_evolve_Cons)
  obtain b where b: "read_bundle c cfg repo = Inr b" using Cons.prems(3) by (auto split: sum.splits)
  have w: "require_local_writer b = Inr ()" using Cons.prems(3) b by (auto split: sum.splits)
  obtain res state where u: "update (bu_config b) = Inr (res, state)"
    using Cons.prems(3) b w by (auto split: sum.splits prod.splits)
  have step: "(if business_json c (bu_config b) = business_json c state then (Inr (res, False), repo)
      else case local_version c cfg b state of
          Inl e \<Rightarrow> (Inl (StorageError e), repo)
        | Inr sync \<Rightarrow>
          (case commit env c (at_revision a) b state sync True ?r of
             (Inl e, r) \<Rightarrow> (Inl (StorageError (StorageFailed e)), r)
           | (Inr True, r) \<Rightarrow> (Inr (res, True), r)
           | (Inr False, r) \<Rightarrow> mutate_attempts env c cfg update rest r)) = (Inr (result, changed), repo')"
    using Cons.prems(3) b w u by simp
  show ?case
  proof (cases "business_json c (bu_config b) = business_json c state")
    case True
    then have "result = res" "\<not> changed" "repo' = repo" using step by auto
    then show ?thesis using b w u evolves_refl [OF Cons.prems(1)] unfolding applied_at_def by auto
  next
    case False
    then obtain sync where v: "local_version c cfg b state = Inr sync" using step by (auto split: sum.splits)
    obtain x r where cm: "commit env c (at_revision a) b state sync True ?r = (x, r)" by fastforce
    show ?thesis
    proof (cases "x = Inr True")
      case True
      then have res: "result = res" "changed" "repo' = r" using step False v cm by auto
      note cm = cm [unfolded True]
      have b': "read_bundle c cfg ?r = Inr b" by (rule commit_current [OF others b cm])
      show ?thesis
        using others res b' w u v commit_reads [OF codec b' cm] commit_frame [OF cm] unfolding applied_at_def by force
    next
      case x: False
      then have "x = Inr False" "r = ?r" using step False v cm commit_other [OF cm x] by (auto split: sum.splits bool.splits)
      then have "mutate_attempts env c cfg update rest ?r = (Inr (result, changed), repo')" using step False v cm by simp
      then have "\<exists>r. evolves ?r r \<and> applied_at c cfg update result changed r repo'"
        using Cons.IH [OF evolves_recorded [OF others]] Cons.prems(2) by (simp add: others_evolve_Cons)
      then show ?thesis using repo.evolves_trans [OF others] by blast
    qed
  qed
qed simp


section \<open>What a replica stores\<close>

definition stores :: "codec \<Rightarrow> Snapshot \<Rightarrow> string \<Rightarrow> GatewayHaPeer \<Rightarrow> Bundle \<Rightarrow> bool" where
  "stores c s pairing_id peer b \<longleftrightarrow> bu_scope b = Backup pairing_id peer \<and> ss_sequence (bu_sync b) = sn_sequence s \<and>
     ss_source (bu_sync b) = sn_source s \<and> ss_pairing_id (bu_sync b) = sn_pairing_id s \<and>
     ss_content_hash (bu_sync b) = sn_content_hash s \<and> cd_content_hash c (shared (bu_config b)) = sn_content_hash s"

text \<open>A snapshot is accepted at the instant \<open>r\<close>.\<close>

definition accepted_at :: "codec \<Rightarrow> FileConfig \<Rightarrow> Snapshot \<Rightarrow> Repository \<Rightarrow> Repository \<Rightarrow> bool" where
  "accepted_at c cfg s r repo' \<longleftrightarrow>
     (\<exists>b b' peer. read_bundle c cfg r = Inr b \<and> bu_scope b = Backup (sn_pairing_id s) peer \<and> sn_source s = hp_name peer \<and>
       (ss_pairing_id (bu_sync b) = sn_pairing_id s \<longrightarrow> ss_sequence (bu_sync b) \<le> sn_sequence s) \<and>
       read_bundle c cfg repo' = Inr b' \<and> stores c s (sn_pairing_id s) peer b' \<and>
       (\<forall>k\<in>- set (take 3 REPLICATION_KEYS). get_doc k repo' = get_doc k r))"

lemma receive_commit_accepted:
  assumes "codec_ok c" "cd_content_hash c (shared (sn_config s)) = sn_content_hash s"
    and b: "read_bundle c cfg r = Inr b" "bu_scope b = Backup (sn_pairing_id s) peer" "sn_source s = hp_name peer"
    and seq: "\<not> (sn_pairing_id s = ss_pairing_id (bu_sync b) \<and> sn_sequence s < ss_sequence (bu_sync b))"
    and cm: "commit env c n b (sn_config s) (received_sync s) w r = (Inr True, r')"
    and same: "\<not> w \<Longrightarrow> cd_content_hash c (shared (bu_config b)) = sn_content_hash s"
  shows "accepted_at c cfg s r r'"
proof -
  note b' = commit_reads [OF assms(1) b(1) cm]
  have "stores c s (sn_pairing_id s) peer (b\<lparr>bu_config := if w then sn_config s else bu_config b, bu_sync := received_sync s,
      bu_documents := get_many REPLICATION_KEYS r'\<rparr>)"
    using assms(2) b(2) same by (simp add: stores_def received_sync_def)
  then show ?thesis unfolding accepted_at_def using b b' seq commit_frame [OF cm] by fastforce
qed

lemma receive_attempts_accepted:
  assumes codec: "codec_ok c" and hash: "cd_content_hash c (shared (sn_config s)) = sn_content_hash s"
    and "revisions_recorded repo" "others_evolve attempts"
    and "receive_attempts env c cfg s attempts repo = (Inr (receipt, changed), repo')"
  shows "\<exists>r. evolves repo r \<and> accepted_at c cfg s r repo' \<and> receipt = snapshot_receipt s"
  using assms(3-)
proof (induction attempts arbitrary: repo)
  case (Cons a rest)
  let ?r = "at_others a repo"
  have others: "evolves repo ?r" using Cons.prems(1,2) by (simp add: others_evolve_Cons)
  obtain b where b: "read_bundle c cfg repo = Inr b" using Cons.prems(3) by (auto split: sum.splits)
  obtain peer where scope: "bu_scope b = Backup (sn_pairing_id s) peer" "sn_source s = hp_name peer"
    using Cons.prems(3) b by (auto simp: Let_def split: Scope.splits if_splits)
  let ?same = "sn_pairing_id s = ss_pairing_id (bu_sync b)"
  have stale: "\<not> (?same \<and> sn_sequence s < ss_sequence (bu_sync b))"
    using Cons.prems(3) b scope by (auto simp: Let_def split: if_splits)
  let ?current = "cd_content_hash c (shared (bu_config b))"
  show ?case
  proof (cases "?same \<and> sn_sequence s = ss_sequence (bu_sync b)")
    case True
    then have "\<not> (sn_source s \<noteq> ss_source (bu_sync b) \<or> sn_content_hash s \<noteq> ss_content_hash (bu_sync b) \<or> ?current \<noteq> sn_content_hash s)"
      and "receipt = snapshot_receipt s" "repo' = repo"
      using Cons.prems(3) b scope by (auto simp: Let_def split: if_splits)
    then show ?thesis using b scope True evolves_refl [OF Cons.prems(1)]
      by (intro exI [of _ repo]) (auto simp: accepted_at_def stores_def)
  next
    case False
    define w where "w = (?current \<noteq> sn_content_hash s \<or> bu_documents b ! 0 = None \<or> bu_documents b ! 1 = None)"
    obtain x r where cm: "commit env c (at_revision a) b (sn_config s) (received_sync s) w ?r = (x, r)" by fastforce
    have step: "(case (x, r) of (Inl e, r) \<Rightarrow> (Inl (StorageError (StorageFailed e)), r)
        | (Inr True, r) \<Rightarrow> (Inr (snapshot_receipt s, ?current \<noteq> sn_content_hash s), r)
        | (Inr False, r) \<Rightarrow> receive_attempts env c cfg s rest r) = (Inr (receipt, changed), repo')"
      using Cons.prems(3) b scope stale False cm [unfolded w_def] by (simp add: Let_def)
    show ?thesis
    proof (cases "x = Inr True")
      case True
      note cm = cm [unfolded True]
      have b': "read_bundle c cfg ?r = Inr b" by (rule commit_current [OF others b cm])
      have "accepted_at c cfg s ?r r"
        by (rule receive_commit_accepted [OF codec hash b' scope stale cm]) (simp add: w_def)
      then show ?thesis using others step True by auto
    next
      case x: False
      then have "x = Inr False" "r = ?r" using step commit_other [OF cm x] by (auto split: sum.splits bool.splits)
      then have "receive_attempts env c cfg s rest ?r = (Inr (receipt, changed), repo')" using step by simp
      then have "\<exists>r. evolves ?r r \<and> accepted_at c cfg s r repo' \<and> receipt = snapshot_receipt s"
        using Cons.IH [OF evolves_recorded [OF others]] Cons.prems(2) by (simp add: others_evolve_Cons)
      then show ?thesis using repo.evolves_trans [OF others] by blast
    qed
  qed
qed simp

lemma stores_replay:
  assumes "read_bundle c cfg r = Inr b" "stores c s (sn_pairing_id s) peer b" "sn_source s = hp_name peer"
  shows "receive_attempts env c cfg s (a # rest) r = (Inr (snapshot_receipt s, False), r)"
  using assms by (simp add: stores_def Let_def)

lemma shared_snapshot: "\<forall>l\<in>set (pc_listeners config). ls_vip_ips l = [] \<Longrightarrow> shared config = config"
proof -
  assume empty: "\<forall>l\<in>set (pc_listeners config). ls_vip_ips l = []"
  have "l\<lparr>ls_vip_ips := []\<rparr> = l" if "ls_vip_ips l = []" for l using that by (cases l) simp
  then have "map (\<lambda>l. l\<lparr>ls_vip_ips := []\<rparr>) (pc_listeners config) = pc_listeners config"
    using empty by (intro map_idI) blast
  then show "shared config = config" by (simp add: shared_def)
qed

lemma receive_on_valid:
  assumes "receive_on env c cfg s attempts repo = (Inr x, repo')"
  shows "cd_content_hash c (shared (sn_config s)) = sn_content_hash s" "sn_config s = shared (sn_config s)"
    "receive_on env c cfg s attempts' r = receive_attempts env c cfg s (map attempts' [0..<16]) r"
  using assms shared_snapshot [of "sn_config s"] by (auto simp: receive_on_def split: if_splits option.splits)

lemma sixteen: "[0..<16] = 0 # [1..<16]"
  by (simp add: upt_rec)


section \<open>What a master sends\<close>

text \<open>Without interference, the snapshot a master sends is its configuration without the local VIPs,
  with its hash; if it has not yet re-advertised under its own name, with the next sequence number.\<close>

definition quiet :: "attempt list \<Rightarrow> bool" where
  "quiet attempts \<longleftrightarrow> (\<forall>a\<in>set attempts. at_others a = id)"

definition advertised :: "codec \<Rightarrow> FileConfig \<Rightarrow> Bundle \<Rightarrow> bool" where
  "advertised c cfg b \<longleftrightarrow> (\<exists>peer. bu_scope b = Master (ss_pairing_id (bu_sync b)) peer) \<and>
     ss_source (bu_sync b) = fc_node_name cfg \<and> ss_content_hash (bu_sync b) = cd_content_hash c (shared (bu_config b))"

lemma outgoing_attempts_sent:
  assumes codec: "codec_ok c" and "quiet attempts" "read_bundle c cfg repo = Inr b"
    and "outgoing_attempts env c cfg attempts repo = (Inr (Some (peer, s, pending)), repo')"
  shows "\<exists>b'. read_bundle c cfg repo' = Inr b' \<and> s = bundle_snapshot b' \<and> advertised c cfg b' \<and> bu_config b' = bu_config b \<and>
    bu_scope b' = bu_scope b \<and> (bu_sync b' = bu_sync b \<or>
      ss_sequence (bu_sync b) \<noteq> - 1 \<and> ss_sequence (bu_sync b') = ss_sequence (bu_sync b) + 1)"
  using assms(2-)
proof (induction attempts arbitrary: repo b)
  case (Cons a rest)
  have id: "at_others a repo = repo" using Cons.prems(1) by (simp add: quiet_def)
  note b = Cons.prems(2)
  obtain pid p where scope: "bu_scope b = Master pid p" using Cons.prems(3) b by (auto split: Scope.splits)
  let ?again = "ss_source (bu_sync b) \<noteq> fc_node_name cfg \<or> ss_pairing_id (bu_sync b) \<noteq> pid \<or>
    ss_content_hash (bu_sync b) \<noteq> cd_content_hash c (shared (bu_config b))"
  show ?case
  proof (cases ?again)
    case False
    then show ?thesis using Cons.prems(3) b scope by (auto simp: advertised_def)
  next
    case True
    obtain sync where v: "local_version c cfg b (bu_config b) = Inr sync"
      using Cons.prems(3) b scope True by (auto split: sum.splits)
    obtain x r where cm: "commit env c (at_revision a) b (bu_config b) sync False repo = (x, r)" by fastforce
    have step: "(case (x, r) of (Inl e, r) \<Rightarrow> (Inl (StorageFailed e), r) | (Inr _, r) \<Rightarrow> outgoing_attempts env c cfg rest r)
        = (Inr (Some (peer, s, pending)), repo')"
      using Cons.prems(3) b scope True v cm id by simp
    have q: "quiet rest" using Cons.prems(1) by (simp add: quiet_def)
    show ?thesis
    proof (cases "x = Inr True")
      case True
      let ?b = "b\<lparr>bu_config := bu_config b, bu_sync := sync, bu_documents := get_many REPLICATION_KEYS r\<rparr>"
      have b1: "read_bundle c cfg r = Inr ?b"
        using commit_reads [OF codec b cm [unfolded True]] by simp
      have sync: "ss_sequence (bu_sync b) \<noteq> - 1" "ss_sequence sync = ss_sequence (bu_sync b) + 1" "ss_source sync = fc_node_name cfg"
        "ss_pairing_id sync = pid" "ss_content_hash sync = cd_content_hash c (shared (bu_config b))"
        using v scope by (auto simp: local_version_def and_then_Inr)
      obtain a' rest' where rest: "rest = a' # rest'" using step True by (cases rest) auto
      have "outgoing_attempts env c cfg rest r = (Inr (Some (p, bundle_snapshot ?b, ss_pending sync)), r)"
        using b1 scope sync by (simp add: rest)
      then have "s = bundle_snapshot ?b" "repo' = r" using step True by auto
      then show ?thesis using b1 scope sync by (intro exI [of _ ?b]) (simp add: advertised_def)
    next
      case x: False
      then have "outgoing_attempts env c cfg rest repo = (Inr (Some (peer, s, pending)), repo')"
        using step commit_other [OF cm x] by (auto split: sum.splits)
      from Cons.IH [OF q b this] show ?thesis .
    qed
  qed
qed simp

text \<open>C28. Replication delivers the configuration.  If the master's snapshot is acknowledged by the backup,
  and the content hash has no collision, then the backup's stored configuration equals the master's, up to
  the local VIP addresses, which are never copied.\<close>

theorem replication_delivers:
  assumes "codec_ok c" and hash: "inj (cd_content_hash c)"
    and master: "read_bundle c cfgA repoA = Inr bA" "quiet (map attemptsA [0..<16])"
      "outgoing_on envA c cfgA attemptsA repoA = (Inr (Some (peer, s, pending)), repoA')"
    and backup: "revisions_recorded repoB" "others_evolve (map attemptsB [0..<16])"
      "receive_on envB c cfgB s attemptsB repoB = (Inr (receipt, changed), repoB')"
  shows "\<exists>b. read_bundle c cfgB repoB' = Inr b \<and> shared (bu_config b) = shared (bu_config bA)"
proof -
  obtain bA' where bA': "s = bundle_snapshot bA'" "advertised c cfgA bA'" "bu_config bA' = bu_config bA"
    using outgoing_attempts_sent [OF assms(1) master(2,1)] master(3) unfolding outgoing_on_def by blast
  note valid = receive_on_valid [OF backup(3)]
  obtain b' pid p where b': "read_bundle c cfgB repoB' = Inr b'" "stores c s pid p b'"
    using receive_attempts_accepted [OF assms(1) valid(1) backup(1,2)] backup(3) unfolding valid(3) accepted_at_def by blast
  have "cd_content_hash c (shared (bu_config b')) = cd_content_hash c (shared (bu_config bA))"
    using b'(2) bA' by (simp add: stores_def advertised_def bundle_snapshot_def)
  then show ?thesis using b'(1) injD [OF hash] by blast
qed

text \<open>C29. After a failover with an undelivered write the pair does not converge.  Gateway A, once master,
  holds a cursor that its peer B has not reached.  When B has become master and A its backup, the snapshot
  with which B re-advertises its configuration has a sequence number that A has already used or passed, and
  A rejects it, whatever its contents.\<close>

theorem failover_snapshot_rejected:
  assumes "codec_ok c"
    and A: "read_bundle c cfgA repoA = Inr bA" "bu_scope bA = Backup pairing_id peerB"
      "ss_pairing_id (bu_sync bA) = pairing_id" "ss_source (bu_sync bA) \<noteq> fc_node_name cfgB"
    and B: "read_bundle c cfgB repoB = Inr bB" "bu_scope bB = Master pairing_id peerA" "ss_source (bu_sync bB) \<noteq> fc_node_name cfgB"
    and behind: "ss_sequence (bu_sync bB) < ss_sequence (bu_sync bA)"
    and out: "quiet (map attemptsB [0..<16])"
      "outgoing_on envB c cfgB attemptsB repoB = (Inr (Some (peer, s, pending)), repoB')"
  shows "\<exists>status message. receive_on envA c cfgA s attemptsA repoA = (Inl (Rejected status message), repoA)"
proof -
  obtain b' where b': "s = bundle_snapshot b'" "advertised c cfgB b'" "bu_scope b' = bu_scope bB"
      "bu_sync b' = bu_sync bB \<or> ss_sequence (bu_sync bB) \<noteq> - 1 \<and> ss_sequence (bu_sync b') = ss_sequence (bu_sync bB) + 1"
    using outgoing_attempts_sent [OF assms(1) out(1) B(1)] out(2) unfolding outgoing_on_def by blast
  have s: "sn_source s = fc_node_name cfgB" "sn_pairing_id s = pairing_id" "sn_sequence s = ss_sequence (bu_sync bB) + 1"
    using b' B(2,3) by (auto simp: advertised_def bundle_snapshot_def)
  have "sn_sequence s \<le> ss_sequence (bu_sync bA)" using s(3) behind by (simp add: inc_le)
  then have "\<exists>status message. receive_attempts envA c cfgA s (map attemptsA [0..<16]) repoA = (Inl (Rejected status message), repoA)"
    using A s unfolding sixteen by (auto simp: Let_def order_le_less)
  then show ?thesis by (auto simp: receive_on_def split: option.splits)
qed

section \<open>Without interference the first attempt succeeds\<close>

definition fresh_revision :: "int \<Rightarrow> Repository \<Rightarrow> bool" where
  "fresh_revision n repo \<longleftrightarrow> rs_revisions repo n = None \<and> (\<forall>k d. rs_documents repo k = Some d \<longrightarrow> sd_revision d < n)"

lemma expected_current: "read_bundle c cfg r = Inr b \<Longrightarrow> i < 6 \<Longrightarrow>
    map_option sd_revision (get_doc (REPLICATION_KEYS ! i) r) = expected b i"
  by (simp add: expected_def read_bundle_documents get_many_nth)

lemma changes_current_fresh:
  assumes "fresh_revision n repo" "\<forall>ch\<in>set changes. map_option sd_revision (get_doc (dc_key ch) repo) = dc_expected_revision ch"
  shows "changes_current n repo changes = Inr True"
  using assms(2)
proof (induction changes)
  case (Cons ch changes)
  have "case dc_expected_revision ch of None \<Rightarrow> True | Some old \<Rightarrow> n > old"
    using assms(1) Cons.prems by (cases "dc_key ch") (auto simp: fresh_revision_def get_doc_def split: option.splits)
  then show ?case using Cons by simp
qed simp

lemma commit_succeeds:
  assumes "read_bundle c cfg repo = Inr b" "fresh_revision n repo"
  shows "\<exists>r. commit env c n b config sync bc repo = (Inr True, r)"
proof -
  note current = expected_current [OF assms(1)]
  have "distinct (map dc_key (commit_changes c b config sync bc))" by (auto simp: commit_changes_def)
  moreover have "\<not> (\<exists>g\<in>set (commit_guards b bc). map_option sd_revision (get_doc (dg_key g) repo) \<noteq> dg_expected_revision g)"
    by (auto simp: commit_guards_def current)
  moreover have "changes_current n repo (commit_changes c b config sync bc) = Inr True"
    by (rule changes_current_fresh [OF assms(2)]) (auto simp: commit_changes_def current)
  ultimately show ?thesis
    using assms(2) by (auto simp: commit_def compare_and_put_def insert_revision_def fresh_revision_def)
qed

lemma mutate_quiet:
  assumes "read_bundle c cfg repo = Inr b" "require_local_writer b = Inr ()" "update (bu_config b) = Inr (result, state)"
    and "local_version c cfg b state = Inr sync" "at_others (attempts 0) = id" "fresh_revision (at_revision (attempts 0)) repo"
  shows "\<exists>changed repo'. mutate_on env c cfg update attempts repo = (Inr (result, changed), repo')"
  using assms commit_succeeds [OF assms(1,6), of env state sync True] unfolding mutate_on_def sixteen by fastforce

lemma outgoing_quiet:
  assumes codec: "codec_ok c" and b: "read_bundle c cfg repo = Inr b" "bu_scope b = Master pairing_id peer"
    and seq: "ss_sequence (bu_sync b) \<noteq> - 1" and quiet: "at_others (attempts 0) = id" "fresh_revision (at_revision (attempts 0)) repo"
  shows "\<exists>s pending repo'. outgoing_on env c cfg attempts repo = (Inr (Some (peer, s, pending)), repo')"
proof -
  obtain sync where v: "local_version c cfg b (bu_config b) = Inr sync" "ss_source sync = fc_node_name cfg"
      "ss_pairing_id sync = pairing_id" "ss_content_hash sync = cd_content_hash c (shared (bu_config b))"
    using b(2) seq by (simp add: local_version_def)
  obtain r where cm: "commit env c (at_revision (attempts 0)) b (bu_config b) sync False repo = (Inr True, r)"
    using commit_succeeds [OF b(1) quiet(2)] by blast
  note b' = commit_reads [OF codec b(1) cm]
  have two: "[0..<16] = 0 # 1 # [2..<16]" by (simp add: upt_rec)
  show ?thesis unfolding outgoing_on_def two using b v cm b' quiet by simp
qed

lemma receive_quiet:
  assumes b: "read_bundle c cfg repo = Inr b" "bu_scope b = Backup (sn_pairing_id s) peer" "sn_source s = hp_name peer"
    and new: "sn_pairing_id s = ss_pairing_id (bu_sync b) \<Longrightarrow> ss_sequence (bu_sync b) < sn_sequence s"
    and valid: "sn_sequence s \<noteq> 0" "\<forall>l\<in>set (pc_listeners (sn_config s)). ls_vip_ips l = []"
      "cd_content_hash c (sn_config s) = sn_content_hash s" "validate_config (snapshot_file cfg s) = None"
    and quiet: "at_others (attempts 0) = id" "fresh_revision (at_revision (attempts 0)) repo"
  shows "\<exists>receipt changed repo'. receive_on env c cfg s attempts repo = (Inr (receipt, changed), repo')"
proof -
  let ?w = "cd_content_hash c (shared (bu_config b)) \<noteq> sn_content_hash s \<or> bu_documents b ! 0 = None \<or> bu_documents b ! 1 = None"
  obtain r where "commit env c (at_revision (attempts 0)) b (sn_config s) (received_sync s) ?w repo = (Inr True, r)"
    using commit_succeeds [OF b(1) quiet(2)] by blast
  then show ?thesis unfolding receive_on_def sixteen using b new valid quiet by (auto simp: Let_def)
qed

section \<open>A pair of gateways\<close>

definition sync_state_format :: "SyncState format" where
  "sync_state_format = iso_format (\<lambda>r. (ss_sequence r, ss_source r, ss_pairing_id r, ss_content_hash r, ss_pending r,
       ss_last_error r))
     (\<lambda>(x0, x1, x2, x3, x4, x5). \<lparr>ss_sequence = x0, ss_source = x1, ss_pairing_id = x2, ss_content_hash = x3,
       ss_pending = x4, ss_last_error = x5\<rparr>)
     (pair_format word_format (pair_format string_format (pair_format string_format (pair_format string_format (pair_format
       bool_format (option_format string_format))))))"

lemma sync_state_faithful [faithful]: "faithful sync_state_format"
  unfolding sync_state_format_def by (rule iso_faithful) (auto intro!: faithful)

definition proxy_config_format :: "ProxyConfig format" where
  "proxy_config_format = iso_format (\<lambda>r. (pc_listeners r, pc_target_groups r))
     (\<lambda>(x0, x1). \<lparr>pc_listeners = x0, pc_target_groups = x1\<rparr>)
     (pair_format (list_format listener_format) (list_format target_group_format))"

lemma proxy_config_faithful [faithful]: "faithful proxy_config_format"
  unfolding proxy_config_format_def by (rule iso_faithful) (auto intro!: faithful)

definition text_codec :: codec where
  "text_codec = \<lparr>cd_listeners = write_text (list_format listener_format), cd_listeners_of = read_text (list_format listener_format),
     cd_groups = write_text (list_format target_group_format), cd_groups_of = read_text (list_format target_group_format),
     cd_sync = write_text sync_state_format, cd_sync_of = read_text sync_state_format,
     cd_ha = write_text gateway_ha_runtime_config_format, cd_ha_of = read_text gateway_ha_runtime_config_format,
     cd_secret = write_text gateway_ha_peer_secrets_format, cd_secret_of = read_text gateway_ha_peer_secrets_format,
     cd_content_hash = write_text proxy_config_format\<rparr>"

lemma text_codec_ok: "codec_ok text_codec"
  by (simp add: codec_ok_def text_codec_def read_write_text faithful)

lemma text_codec_hash: "inj (cd_content_hash text_codec)"
  by (simp add: text_codec_def write_text_inj faithful)

lemmas text_codec_simps = codec_okD [OF text_codec_ok] inj_eq [OF text_codec_hash]

definition pair_cfg :: "string \<Rightarrow> u32 \<Rightarrow> FileConfig" where
  "pair_cfg name ip = sample_config\<lparr>fc_node_name := name, fc_underlay_ip := V4 ip,
     fc_gateway_nodes := [\<lparr>gn_name = name, gn_public_ip = V4 ip, gn_underlay_ip = V4 ip, gn_overlay_ip = default_gateway_overlay\<rparr>]\<rparr>"

definition pair_peer :: "string \<Rightarrow> string \<Rightarrow> GatewayHaPeer" where
  "pair_peer name ip = \<lparr>hp_name = name, hp_underlay_ip = ip, hp_public_ip = None, hp_api_addr = None, hp_xds_addr = None,
     hp_overlay_cidr = None, hp_overlay_ip = None, hp_dscp = None, hp_vni = None, hp_vxlan_port = None, hp_mtu = None,
     hp_version = None, hp_capabilities = []\<rparr>"

definition pair_documents :: "GatewayHaPeer \<Rightarrow> string \<Rightarrow> SyncState \<Rightarrow> (document_key \<times> string) list" where
  "pair_documents peer active sync =
     [((''proxy_replication'', ''config''), cd_sync text_codec sync),
      ((''ha'', ''config''), cd_ha text_codec (default_ha_runtime_config\<lparr>hr_enabled := True, hr_peers := [peer]\<rparr>)),
      ((''ha_peer_secret'', ''config''), cd_secret text_codec \<lparr>sec_peer_name = hp_name peer,
         sec_peer_underlay_ip = hp_underlay_ip peer, sec_session_token = ''secret'', sec_session_token_id = ''pair'',
         sec_updated_at_unix = 0\<rparr>),
      ((''ha_active_gateway'', ''current''), active)]"

definition repo_of :: "(document_key \<times> string) list \<Rightarrow> Repository" where
  "repo_of kvs = \<lparr>rs_documents = \<lambda>k. map_option (\<lambda>p. \<lparr>sd_payload = p, sd_revision = 1, sd_updated_at = []\<rparr>) (map_of kvs k),
     rs_revisions = [1 \<mapsto> []]\<rparr>"

definition gateway_a :: Repository where
  "gateway_a = repo_of (pair_documents (pair_peer ''gw-b'' ''192.0.2.11'') ''gw-a'' default_sync_state)"

definition gateway_b :: Repository where
  "gateway_b = repo_of (pair_documents (pair_peer ''gw-a'' ''192.0.2.10'') ''gw-a'' default_sync_state)"

definition sample_storage :: storage_env where
  "sample_storage = \<lparr>st_sha256_hex = id, st_now = []\<rparr>"

definition quiet_attempt :: "nat \<Rightarrow> attempt" where
  "quiet_attempt n = \<lparr>at_others = id, at_revision = int n + 2\<rparr>"

lemma repo_of_recorded: "revisions_recorded (repo_of kvs)"
  by (auto simp: revisions_recorded_def repo_of_def)

lemma quiet_attempts: "quiet (map quiet_attempt ns)"
  by (simp add: quiet_def quiet_attempt_def)

lemma quiet_others: "quiet as \<Longrightarrow> others_evolve as"
  by (auto simp: quiet_def others_evolve_def evolves_refl)

lemma repo_of_fresh: "2 \<le> n \<Longrightarrow> fresh_revision n (repo_of kvs)"
  by (auto simp: fresh_revision_def repo_of_def)

lemma quiet_attempt_simps: "at_others (quiet_attempt n) = id" "2 \<le> at_revision (quiet_attempt n)"
  by (simp_all add: quiet_attempt_def)

text \<open>Gateway A at 192.0.2.10 and gateway B at 192.0.2.11; \<open>active\<close> names one of them.\<close>

abbreviation cfg_a :: FileConfig where "cfg_a \<equiv> pair_cfg ''gw-a'' 0xC000020A"
abbreviation cfg_b :: FileConfig where "cfg_b \<equiv> pair_cfg ''gw-b'' 0xC000020B"
abbreviation peer_a :: GatewayHaPeer where "peer_a \<equiv> pair_peer ''gw-a'' ''192.0.2.10''"
abbreviation peer_b :: GatewayHaPeer where "peer_b \<equiv> pair_peer ''gw-b'' ''192.0.2.11''"

lemma pair_documents_nth:
  "get_many REPLICATION_KEYS (repo_of (pair_documents peer active sync)) =
     (let doc = \<lambda>p. Some \<lparr>sd_payload = p, sd_revision = 1, sd_updated_at = []\<rparr> in
      None # None # map (\<lambda>kv. doc (snd kv)) (pair_documents peer active sync))"
  by (simp add: get_many_def REPLICATION_KEYS_def get_doc_def repo_of_def pair_documents_def Let_def)

lemma read_pair:
  assumes "active = name \<and> name \<noteq> hp_name peer \<or> active = hp_name peer \<and> active \<noteq> name \<and> active \<noteq> show_ip (V4 ip)" "trim active = active"
  shows "\<exists>b. read_bundle text_codec (pair_cfg name ip) (repo_of (pair_documents peer active sync)) = Inr b \<and> bu_sync b = sync \<and>
    bu_scope b = (if active = name then Master else Backup) ''pair'' peer \<and>
    bu_config b = \<lparr>pc_listeners = fc_listeners sample_config, pc_target_groups = fc_target_groups sample_config\<rparr>"
  using assms unfolding read_bundle_def pair_documents_nth
  by (auto simp: read_documents_def read_scope_def decode_def unwrap_or_def text_codec_simps Let_def
    pair_documents_def pair_cfg_def)

lemma names_are_no_addresses: "CHR ''.'' \<notin> set name \<Longrightarrow> name \<noteq> show_ip (V4 a)"
  by (auto simp: show_ip_def show_ipv4_def)

lemma read_gateways:
  "\<exists>b. read_bundle text_codec cfg_a gateway_a = Inr b \<and> bu_sync b = default_sync_state \<and> bu_scope b = Master ''pair'' peer_b \<and>
     bu_config b = \<lparr>pc_listeners = fc_listeners sample_config, pc_target_groups = fc_target_groups sample_config\<rparr>"
  "\<exists>b. read_bundle text_codec cfg_b gateway_b = Inr b \<and> bu_sync b = default_sync_state \<and> bu_scope b = Backup ''pair'' peer_a"
  using read_pair [of "''gw-a''" "''gw-a''" peer_b "0xC000020A" default_sync_state]
    read_pair [of "''gw-a''" "''gw-b''" peer_a "0xC000020B" default_sync_state]
    names_are_no_addresses [of "''gw-a''" "0xC000020B"]
  by (auto simp: gateway_a_def gateway_b_def pair_peer_def trim_def is_space_def)


text \<open>The snapshot that gateway A sends first.\<close>

lemma first_snapshot:
  obtains s pending repo' b where
    "outgoing_on sample_storage text_codec cfg_a quiet_attempt gateway_a = (Inr (Some (peer_b, s, pending)), repo')"
    "sn_sequence s = 1" "sn_source s = ''gw-a''" "sn_pairing_id s = ''pair''"
    "sn_config s = shared \<lparr>pc_listeners = fc_listeners sample_config, pc_target_groups = fc_target_groups sample_config\<rparr>"
    "sn_content_hash s = cd_content_hash text_codec (sn_config s)"
proof -
  obtain b where b: "read_bundle text_codec cfg_a gateway_a = Inr b" "bu_sync b = default_sync_state" "bu_scope b = Master ''pair'' peer_b"
      "bu_config b = \<lparr>pc_listeners = fc_listeners sample_config, pc_target_groups = fc_target_groups sample_config\<rparr>"
    using read_gateways(1) by blast
  have fresh: "fresh_revision (at_revision (quiet_attempt 0)) gateway_a"
    unfolding gateway_a_def by (rule repo_of_fresh) (rule quiet_attempt_simps)
  have "ss_sequence (bu_sync b) \<noteq> - 1" by (simp add: b(2) default_sync_state_def)
  from outgoing_quiet [where attempts = quiet_attempt, OF text_codec_ok b(1,3) this quiet_attempt_simps(1) fresh] obtain s pending repo' where
    out: "outgoing_on sample_storage text_codec cfg_a quiet_attempt gateway_a = (Inr (Some (peer_b, s, pending)), repo')" by blast
  from outgoing_attempts_sent [OF text_codec_ok quiet_attempts b(1) out [unfolded outgoing_on_def]] obtain b' where
    "s = bundle_snapshot b'" "advertised text_codec cfg_a b'" "bu_config b' = bu_config b" "bu_scope b' = bu_scope b"
    "bu_sync b' = bu_sync b \<or> ss_sequence (bu_sync b) \<noteq> - 1 \<and> ss_sequence (bu_sync b') = ss_sequence (bu_sync b) + 1" by blast
  with b that [OF out] show thesis
    by (auto simp: advertised_def bundle_snapshot_def default_sync_state_def pair_cfg_def)
qed

lemma first_snapshot_valid:
  assumes "sn_config s = shared \<lparr>pc_listeners = fc_listeners sample_config, pc_target_groups = fc_target_groups sample_config\<rparr>"
  shows "validate_config (snapshot_file cfg_b s) = None"
proof -
  let ?f = "snapshot_file cfg_b s"
  note f = assms snapshot_file_def pair_cfg_def shared_def sample_config_def
  have "validate_network ?f = None"
    by (simp add: validate_network_def f default_defs validate_stun_server_def parse_defs saturating_sub_def)
  moreover have "validate_inventory ?f = None"
    by (simp add: validate_inventory_def f default_defs validate_overlay_capacity_def parse_defs
        same_subnet_def subnet_mask_def backend_nodes_effective_def is_unspecified_def mask_eq_exp_minus_1)
  moreover have "validate_services ?f = None"
    by (simp add: validate_services_def f default_defs validate_native_listener_def parse_defs
        is_unspecified_def backend_nodes_effective_def validate_consistent_hash_listener_capacity_def
        max_consistent_hash_datapath_listeners_def)
  moreover have "validate_access ?f = None"
    by (simp add: validate_access_def f default_defs check_listen_def check_token_length_def
        check_cidrs_def parse_defs is_loopback_def)
  ultimately show ?thesis by (simp add: validate_config_def)
qed

lemma first_snapshot_received:
  assumes "sn_sequence s = 1" "sn_source s = ''gw-a''" "sn_pairing_id s = ''pair''"
    "sn_config s = shared \<lparr>pc_listeners = fc_listeners sample_config, pc_target_groups = fc_target_groups sample_config\<rparr>"
    "sn_content_hash s = cd_content_hash text_codec (sn_config s)"
  shows "\<exists>receipt changed repo'. receive_on sample_storage text_codec cfg_b s quiet_attempt gateway_b = (Inr (receipt, changed), repo')"
proof -
  obtain b where b: "read_bundle text_codec cfg_b gateway_b = Inr b" "bu_sync b = default_sync_state" "bu_scope b = Backup ''pair'' peer_a"
    using read_gateways(2) by blast
  have fresh: "fresh_revision (at_revision (quiet_attempt 0)) gateway_b"
    unfolding gateway_b_def by (rule repo_of_fresh) (rule quiet_attempt_simps)
  show ?thesis
    by (rule receive_quiet [where attempts = quiet_attempt, OF b(1) _ _ _ _ _ _ first_snapshot_valid [OF assms(4)] quiet_attempt_simps(1) fresh])
      (use b assms in \<open>auto simp: default_sync_state_def pair_peer_def shared_def\<close>)
qed


theorem replication_delivers_witness:
  "\<exists>peer s pending repoA' receipt changed repoB' b.
     outgoing_on sample_storage text_codec cfg_a quiet_attempt gateway_a = (Inr (Some (peer, s, pending)), repoA') \<and>
     receive_on sample_storage text_codec cfg_b s quiet_attempt gateway_b = (Inr (receipt, changed), repoB') \<and>
     read_bundle text_codec cfg_b repoB' = Inr b \<and>
     shared (bu_config b) = shared \<lparr>pc_listeners = fc_listeners sample_config, pc_target_groups = fc_target_groups sample_config\<rparr>"
proof -
  obtain b where b: "read_bundle text_codec cfg_a gateway_a = Inr b"
      "bu_config b = \<lparr>pc_listeners = fc_listeners sample_config, pc_target_groups = fc_target_groups sample_config\<rparr>"
    using read_gateways(1) by blast
  obtain s pending repoA' receipt changed repoB' where
    out: "outgoing_on sample_storage text_codec cfg_a quiet_attempt gateway_a = (Inr (Some (peer_b, s, pending)), repoA')" and
    ok: "receive_on sample_storage text_codec cfg_b s quiet_attempt gateway_b = (Inr (receipt, changed), repoB')"
    using first_snapshot first_snapshot_received by metis
  have "revisions_recorded gateway_b" by (simp add: gateway_b_def repo_of_recorded)
  from replication_delivers [OF text_codec_ok text_codec_hash b(1) quiet_attempts out this quiet_others [OF quiet_attempts] ok] b(2) out ok
  show ?thesis by auto
qed

text \<open>Gateway A wrote version 5 and failed when B had received version 4; now B is active.\<close>

definition cursor_of_a :: "u64 \<Rightarrow> SyncState" where
  "cursor_of_a n = default_sync_state\<lparr>ss_sequence := n, ss_source := ''gw-a'', ss_pairing_id := ''pair''\<rparr>"

definition failed_a :: Repository where
  "failed_a = repo_of (pair_documents peer_b ''gw-b'' (cursor_of_a 5))"

definition promoted_b :: Repository where
  "promoted_b = repo_of (pair_documents peer_a ''gw-b'' (cursor_of_a 4))"

lemma read_failed_over:
  "\<exists>b. read_bundle text_codec cfg_a failed_a = Inr b \<and> bu_sync b = cursor_of_a 5 \<and> bu_scope b = Backup ''pair'' peer_b"
  "\<exists>b. read_bundle text_codec cfg_b promoted_b = Inr b \<and> bu_sync b = cursor_of_a 4 \<and> bu_scope b = Master ''pair'' peer_a"
  using read_pair [of "''gw-b''" "''gw-a''" peer_b "0xC000020A" "cursor_of_a 5"]
    read_pair [of "''gw-b''" "''gw-b''" peer_a "0xC000020B" "cursor_of_a 4"] names_are_no_addresses [of "''gw-b''" "0xC000020A"]
  by (auto simp: failed_a_def promoted_b_def pair_peer_def trim_def is_space_def)

theorem failover_snapshot_rejected_witness:
  "\<exists>peer s pending repoB' status message.
     outgoing_on sample_storage text_codec cfg_b quiet_attempt promoted_b = (Inr (Some (peer, s, pending)), repoB') \<and>
     receive_on sample_storage text_codec cfg_a s quiet_attempt failed_a = (Inl (Rejected status message), failed_a)"
proof -
  obtain bA where A: "read_bundle text_codec cfg_a failed_a = Inr bA" "bu_sync bA = cursor_of_a 5" "bu_scope bA = Backup ''pair'' peer_b"
    using read_failed_over(1) by blast
  obtain bB where B: "read_bundle text_codec cfg_b promoted_b = Inr bB" "bu_sync bB = cursor_of_a 4" "bu_scope bB = Master ''pair'' peer_a"
    using read_failed_over(2) by blast
  have fresh: "fresh_revision (at_revision (quiet_attempt 0)) promoted_b"
    unfolding promoted_b_def by (rule repo_of_fresh) (rule quiet_attempt_simps)
  have "ss_sequence (bu_sync bB) \<noteq> - 1" by (simp add: B(2) cursor_of_a_def)
  from outgoing_quiet [where attempts = quiet_attempt, OF text_codec_ok B(1,3) this quiet_attempt_simps(1) fresh] obtain s pending repo' where
    out: "outgoing_on sample_storage text_codec cfg_b quiet_attempt promoted_b = (Inr (Some (peer_a, s, pending)), repo')" by blast
  have "\<exists>status message. receive_on sample_storage text_codec cfg_a s quiet_attempt failed_a = (Inl (Rejected status message), failed_a)"
    by (rule failover_snapshot_rejected [OF text_codec_ok A(1,3) _ _ B(1,3) _ _ quiet_attempts out])
      (simp_all add: A(2) B(2) cursor_of_a_def pair_cfg_def)
  with out show ?thesis by blast
qed

end
