(* ===== verification/Ha_State.thy ===== *)
theory Ha_State
  imports Proxy_Replication
begin

text \<open>
  The high-availability state that a gateway keeps in its repository (\<^verbatim>\<open>edge-lb/src/runtime/ha.rs\<close>,
  \<^verbatim>\<open>config/mod.rs\<close>): the HA configuration, the secret shared with the peer and the active gateway, and the role
  that follows from them (\<^verbatim>\<open>provider/native/ha.rs\<close>).  The state directory only selects files in the program's
  unit tests and is omitted.
\<close>

section \<open>The repository of a process\<close>

text \<open>The repository with the revision counter of the process.  The codec, SHA-256 and the clocks are
  arguments; one reading of the wall clock (in milliseconds) serves one operation.\<close>

record gateway_store =
  gs_repo :: Repository
  gs_last :: int

record gateway_env =
  ge_storage :: storage_env
  ge_codec :: codec
  ge_clock_ms :: int

datatype gateway_error = ParseFailed | StoreFailed storage_error | NoGatewayNodes

definition store_put :: "gateway_env \<Rightarrow> document_key \<Rightarrow> string \<Rightarrow> gateway_store \<Rightarrow> (gateway_error + unit) \<times> gateway_store" where
  "store_put env key payload s =
     (let n = next_revision (ge_clock_ms env) (gs_last s) in
      case put (ge_storage env) key n payload (gs_repo s) of
        (Some e, r) \<Rightarrow> (Inl (StoreFailed e), \<lparr>gs_repo = r, gs_last = n\<rparr>)
      | (None, r) \<Rightarrow> (Inr (), \<lparr>gs_repo = r, gs_last = n\<rparr>))"

definition store_delete :: "gateway_env \<Rightarrow> document_key \<Rightarrow> gateway_store \<Rightarrow> (gateway_error + bool) \<times> gateway_store" where
  "store_delete env key s =
     (let n = next_revision (ge_clock_ms env) (gs_last s) in
      case delete_document key n (gs_repo s) of
        (Inl e, r) \<Rightarrow> (Inl (StoreFailed e), \<lparr>gs_repo = r, gs_last = n\<rparr>)
      | (Inr b, r) \<Rightarrow> (Inr b, \<lparr>gs_repo = r, gs_last = n\<rparr>))"

section \<open>HA documents\<close>

definition load_for_state_dir :: "codec \<Rightarrow> Repository \<Rightarrow> gateway_error + GatewayHaRuntimeConfig" where
  "load_for_state_dir c repo =
     (case get_payload (''ha'', ''config'') repo of
        None \<Rightarrow> Inr default_ha_runtime_config
      | Some payload \<Rightarrow>
          (case cd_ha_of c payload of None \<Rightarrow> Inl ParseFailed | Some v \<Rightarrow> Inr (normalize_runtime_config v)))"

definition save_for_state_dir :: "gateway_env \<Rightarrow> GatewayHaRuntimeConfig \<Rightarrow> gateway_store \<Rightarrow> (gateway_error + unit) \<times> gateway_store" where
  "save_for_state_dir env v s = store_put env (''ha'', ''config'') (cd_ha (ge_codec env) (normalize_runtime_config v)) s"

definition load_secrets_for_state_dir :: "codec \<Rightarrow> Repository \<Rightarrow> gateway_error + GatewayHaPeerSecrets option" where
  "load_secrets_for_state_dir c repo =
     (case get_payload (''ha_peer_secret'', ''config'') repo of
        None \<Rightarrow> Inr None
      | Some payload \<Rightarrow> (case cd_secret_of c payload of None \<Rightarrow> Inl ParseFailed | Some v \<Rightarrow> Inr (Some v)))"

definition save_secrets_for_state_dir :: "gateway_env \<Rightarrow> GatewayHaPeerSecrets \<Rightarrow> gateway_store \<Rightarrow> (gateway_error + unit) \<times> gateway_store" where
  "save_secrets_for_state_dir env v s = store_put env (''ha_peer_secret'', ''config'') (cd_secret (ge_codec env) v) s"

definition delete_secrets_for_state_dir :: "gateway_env \<Rightarrow> gateway_store \<Rightarrow> (gateway_error + bool) \<times> gateway_store" where
  "delete_secrets_for_state_dir env s = store_delete env (''ha_peer_secret'', ''config'') s"

definition unpair_for_state_dir ::
    "gateway_env \<Rightarrow> gateway_store \<Rightarrow> (gateway_error + GatewayHaRuntimeConfig \<times> bool \<times> bool) \<times> gateway_store" where
  "unpair_for_state_dir env s =
     (case load_for_state_dir (ge_codec env) (gs_repo s) of
        Inl e \<Rightarrow> (Inl e, s)
      | Inr cfg0 \<Rightarrow>
          let restart_required = (hr_enabled cfg0 \<and> hr_connection_sync cfg0);
              cfg = cfg0\<lparr>hr_enabled := False, hr_preferred_active := None, hr_peers := []\<rparr> in
          (case save_for_state_dir env cfg s of
             (Inl e, s1) \<Rightarrow> (Inl e, s1)
           | (Inr _, s1) \<Rightarrow>
               (case delete_secrets_for_state_dir env s1 of
                  (Inl e, s2) \<Rightarrow> (Inl e, s2)
                | (Inr deleted_secret, s2) \<Rightarrow> (Inr (cfg, deleted_secret, restart_required), s2))))"

section \<open>The active gateway\<close>

definition with_peer :: "FileConfig \<Rightarrow> GatewayNode list \<Rightarrow> GatewayHaPeer \<Rightarrow> GatewayNode list" where
  "with_peer cfg gateways peer =
     (case parse_ip_addr (hp_underlay_ip peer) of
        None \<Rightarrow> gateways
      | Some underlay_ip \<Rightarrow>
          if \<exists>g\<in>set gateways. gn_name g = hp_name peer \<or> gn_underlay_ip g = underlay_ip then gateways
          else gateways @ [\<lparr>gn_name = hp_name peer,
            gn_public_ip = (case hp_public_ip peer of
               None \<Rightarrow> underlay_ip
             | Some v \<Rightarrow> unwrap_or (parse_ip_addr v) underlay_ip),
            gn_underlay_ip = underlay_ip,
            gn_overlay_ip = unwrap_or (hp_overlay_ip peer) (gwc_overlay_ip (fc_gateway cfg))\<rparr>])"

definition known_gateways :: "codec \<Rightarrow> FileConfig \<Rightarrow> Repository \<Rightarrow> GatewayNode list" where
  "known_gateways c cfg repo =
     (if fc_node_role cfg = Gateway
      then case load_for_state_dir c repo of
          Inl _ \<Rightarrow> fc_gateway_nodes cfg
        | Inr ha \<Rightarrow> foldl (with_peer cfg) (fc_gateway_nodes cfg) (hr_peers ha)
      else fc_gateway_nodes cfg)"

definition fallback_gateway :: "FileConfig \<Rightarrow> GatewayNode list \<Rightarrow> GatewayNode option" where
  "fallback_gateway cfg gateways = find_or_first (\<lambda>g. gn_underlay_ip g = nw_gateway_ip (fc_network cfg)) gateways"

definition active_gateway :: "codec \<Rightarrow> FileConfig \<Rightarrow> Repository \<Rightarrow> gateway_error + GatewayNode" where
  "active_gateway c cfg repo =
     (let gateways = known_gateways c cfg repo; fallback = ok_or (fallback_gateway cfg gateways) NoGatewayNodes in
      if hac_active_source (fc_ha cfg) = SourceXds then fallback
      else case map_option trim (get_payload (''ha_active_gateway'', ''current'') repo) of
          None \<Rightarrow> fallback
        | Some key \<Rightarrow>
            if key = [] then fallback
            else case List.find (\<lambda>g. gn_name g = key \<or> show_ip (gn_underlay_ip g) = key) gateways of
                Some g \<Rightarrow> Inr g
              | None \<Rightarrow> fallback)"

definition write_active_gateway :: "gateway_env \<Rightarrow> string \<Rightarrow> gateway_store \<Rightarrow> (gateway_error + unit) \<times> gateway_store" where
  "write_active_gateway env key s = store_put env (''ha_active_gateway'', ''current'') (key @ [char_of (10 :: nat)]) s"

definition active_gateway_revision :: "Repository \<Rightarrow> int option" where
  "active_gateway_revision repo = map_option sd_revision (get_doc (''ha_active_gateway'', ''current'') repo)"

section \<open>The role\<close>

record NativeHaState =
  nh_node :: string
  nh_active_gateway :: "string option"
  nh_active_revision :: "int option"
  nh_state :: string
  nh_enabled :: bool
  nh_peer_count :: nat

definition ha_state :: "codec \<Rightarrow> FileConfig \<Rightarrow> Repository \<Rightarrow> gateway_error + NativeHaState" where
  "ha_state c cfg repo =
     and_then (load_for_state_dir c repo) (\<lambda>ha_cfg.
     let active = active_gateway c cfg repo;
         local_active = (case active of
            Inl _ \<Rightarrow> False
          | Inr g \<Rightarrow> gn_name g = fc_node_name cfg \<or> gn_underlay_ip g = fc_underlay_ip cfg) in
     Inr \<lparr>nh_node = fc_node_name cfg, nh_active_gateway = (case active of Inl _ \<Rightarrow> None | Inr g \<Rightarrow> Some (gn_name g)),
       nh_active_revision = active_gateway_revision repo,
       nh_state = (if \<not> hr_enabled ha_cfg then ''disabled'' else if local_active then ''MASTER'' else ''BACKUP''),
       nh_enabled = hr_enabled ha_cfg, nh_peer_count = length (hr_peers ha_cfg)\<rparr>)"

lemma store_put_docs:
  assumes "store_put env key payload s = (Inr (), s')"
  shows "\<exists>d. sd_payload d = payload \<and> (\<forall>k. get_doc k (gs_repo s') = (if k = key then Some d else get_doc k (gs_repo s)))"
  using assms
  by (intro exI [of _ "\<lparr>sd_payload = payload, sd_revision = next_revision (ge_clock_ms env) (gs_last s), sd_updated_at = st_now (ge_storage env)\<rparr>"])
    (auto simp: store_put_def put_def insert_revision_def upsert_document_def get_doc_def Let_def split: option.splits if_splits)

section \<open>One role\<close>

text \<open>The keys by which the active gateway may be named.\<close>

definition node_keys :: "GatewayNode \<Rightarrow> string set" where
  "node_keys g = {gn_name g, show_ip (gn_underlay_ip g)}"

definition own_keys :: "FileConfig \<Rightarrow> string set" where
  "own_keys cfg = {fc_node_name cfg, show_ip (fc_underlay_ip cfg)}"

text \<open>No other gateway shares a key with the local one.\<close>

definition keys_unambiguous :: "FileConfig \<Rightarrow> GatewayNode list \<Rightarrow> bool" where
  "keys_unambiguous cfg gateways \<longleftrightarrow>
     (\<forall>g\<in>set gateways. node_keys g \<inter> own_keys cfg \<noteq> {} \<longrightarrow> gn_name g = fc_node_name cfg \<and> gn_underlay_ip g = fc_underlay_ip cfg)"

definition active_key_known :: "codec \<Rightarrow> FileConfig \<Rightarrow> Repository \<Rightarrow> string \<Rightarrow> bool" where
  "active_key_known c cfg repo key \<longleftrightarrow> map_option trim (get_payload (''ha_active_gateway'', ''current'') repo) = Some key \<and> key \<noteq> [] \<and>
     (\<exists>g\<in>set (known_gateways c cfg repo). key \<in> node_keys g)"

lemma find_key:
  assumes "\<exists>g\<in>set gs. key \<in> node_keys g"
  shows "\<exists>g\<in>set gs. List.find (\<lambda>g. gn_name g = key \<or> show_ip (gn_underlay_ip g) = key) gs = Some g \<and> key \<in> node_keys g"
  using assms by (induction gs) (auto simp: node_keys_def)

lemma active_gateway_known:
  assumes "hac_active_source (fc_ha cfg) \<noteq> SourceXds" "active_key_known c cfg repo key"
  shows "\<exists>g\<in>set (known_gateways c cfg repo). active_gateway c cfg repo = Inr g \<and> key \<in> node_keys g"
  using assms find_key [of "known_gateways c cfg repo" key] by (auto simp: active_gateway_def active_key_known_def Let_def)

lemma read_scope_cases:
  assumes "read_scope c cfg ha secret active = Inr scope" "scope \<noteq> Standalone"
  shows "hr_enabled ha \<and> length (hr_peers ha) = 1 \<and>
    (\<exists>doc. active = Some doc \<and> ((\<exists>pid. scope = Master pid (hd (hr_peers ha))) \<and> trim (sd_payload doc) \<in> own_keys cfg \<or>
      (\<exists>pid. scope = Backup pid (hd (hr_peers ha))) \<and> trim (sd_payload doc) \<notin> own_keys cfg))"
  using assms by (auto simp: read_scope_def and_then_Inr own_keys_def Let_def split: if_splits option.splits)

lemma read_bundle_role:
  assumes "read_bundle c cfg repo = Inr b" "bu_scope b \<noteq> Standalone"
  shows "\<exists>ha doc. load_for_state_dir c repo = Inr (normalize_runtime_config ha) \<and> hr_enabled ha \<and>
    get_doc (''ha_active_gateway'', ''current'') repo = Some doc \<and>
    ((\<exists>pid peer. bu_scope b = Master pid peer) \<and> trim (sd_payload doc) \<in> own_keys cfg \<or>
     (\<exists>pid peer. bu_scope b = Backup pid peer) \<and> trim (sd_payload doc) \<notin> own_keys cfg)"
proof -
  have docs: "get_many REPLICATION_KEYS repo ! 3 = get_doc (''ha'', ''config'') repo"
    "get_many REPLICATION_KEYS repo ! 5 = get_doc (''ha_active_gateway'', ''current'') repo"
    by (simp_all add: get_many_def REPLICATION_KEYS_def)
  obtain ha secret where scope: "decode (cd_ha_of c) (get_doc (''ha'', ''config'') repo) = Inr ha"
    "read_scope c cfg (unwrap_or ha default_ha_runtime_config) secret (get_doc (''ha_active_gateway'', ''current'') repo) = Inr (bu_scope b)"
    using assms(1) unfolding read_bundle_def read_documents_def docs by (auto simp: and_then_Inr)
  note cases = read_scope_cases [OF scope(2) assms(2)]
  then obtain h where "ha = Some h" by (cases ha) (auto simp: unwrap_or_def default_ha_runtime_config_def)
  with scope(1) have "load_for_state_dir c repo = Inr (normalize_runtime_config h)"
    by (auto simp: decode_def load_for_state_dir_def get_payload_def get_doc_def and_then_Inr ok_or_def split: option.splits)
  with cases \<open>ha = Some h\<close> show ?thesis by (auto simp: unwrap_or_def)
qed

lemma read_bundle_peer:
  assumes "read_bundle c cfg repo = Inr b" "bu_scope b \<in> {Master pid peer, Backup pid peer}"
  shows "\<exists>ha. load_for_state_dir c repo = Inr (normalize_runtime_config ha) \<and> hr_enabled ha \<and> hr_peers ha = [peer]"
proof -
  have docs: "get_many REPLICATION_KEYS repo ! 3 = get_doc (''ha'', ''config'') repo" by (simp add: get_many_def REPLICATION_KEYS_def)
  obtain ha secret active where scope: "decode (cd_ha_of c) (get_doc (''ha'', ''config'') repo) = Inr ha"
    "read_scope c cfg (unwrap_or ha default_ha_runtime_config) secret active = Inr (bu_scope b)"
    using assms(1) unfolding read_bundle_def read_documents_def docs by (auto simp: and_then_Inr)
  have "bu_scope b \<noteq> Standalone" using assms(2) by auto
  note cases = read_scope_cases [OF scope(2) this]
  then obtain h where h: "ha = Some h" by (cases ha) (auto simp: unwrap_or_def default_ha_runtime_config_def)
  have "hr_enabled h" "hr_peers h = [peer]"
    using cases assms(2) h by (auto simp: unwrap_or_def length_Suc_conv)
  moreover have "load_for_state_dir c repo = Inr (normalize_runtime_config h)"
    using scope(1) h by (auto simp: decode_def load_for_state_dir_def get_payload_def get_doc_def and_then_Inr split: option.splits)
  ultimately show ?thesis by blast
qed

lemma roles_coincide:
  assumes b: "read_bundle c cfg repo = Inr b" "bu_scope b \<noteq> Standalone"
    and source: "hac_active_source (fc_ha cfg) \<noteq> SourceXds"
    and key: "active_key_known c cfg repo key" and own: "keys_unambiguous cfg (known_gateways c cfg repo)"
  shows "\<exists>st. ha_state c cfg repo = Inr st \<and> (nh_state st = ''MASTER'' \<longleftrightarrow> (\<exists>pid peer. bu_scope b = Master pid peer)) \<and>
    (nh_state st = ''BACKUP'' \<longleftrightarrow> (\<exists>pid peer. bu_scope b = Backup pid peer))"
proof -
  obtain ha doc where r: "load_for_state_dir c repo = Inr (normalize_runtime_config ha)" "hr_enabled ha"
    "get_doc (''ha_active_gateway'', ''current'') repo = Some doc"
    "(\<exists>pid peer. bu_scope b = Master pid peer) \<and> trim (sd_payload doc) \<in> own_keys cfg \<or>
     (\<exists>pid peer. bu_scope b = Backup pid peer) \<and> trim (sd_payload doc) \<notin> own_keys cfg"
    using read_bundle_role [OF b] by blast
  have doc: "trim (sd_payload doc) = key"
    using key r(3) by (simp add: active_key_known_def get_payload_def get_doc_def)
  obtain g where g: "g \<in> set (known_gateways c cfg repo)" "active_gateway c cfg repo = Inr g" "key \<in> node_keys g"
    using active_gateway_known [OF source key] by blast
  have own_node: "gn_name g = fc_node_name cfg \<and> gn_underlay_ip g = fc_underlay_ip cfg" if "node_keys g \<inter> own_keys cfg \<noteq> {}"
    using own g(1) that unfolding keys_unambiguous_def by blast
  have self: "gn_name g = fc_node_name cfg \<or> gn_underlay_ip g = fc_underlay_ip cfg \<longleftrightarrow> key \<in> own_keys cfg"
  proof
    assume "gn_name g = fc_node_name cfg \<or> gn_underlay_ip g = fc_underlay_ip cfg"
    then have "node_keys g \<inter> own_keys cfg \<noteq> {}" by (auto simp: node_keys_def own_keys_def)
    from own_node [OF this] have "node_keys g = own_keys cfg" by (simp add: node_keys_def own_keys_def)
    then show "key \<in> own_keys cfg" using g(3) by simp
  qed (use own_node g(3) in blast)
  have "hr_enabled (normalize_runtime_config ha)" using r(2) by (simp add: normalize_runtime_config_def Let_def)
  then show ?thesis using r(4) self by (auto simp: ha_state_def r(1) g(2) doc Let_def)
qed


lemma pair_ha_document:
  "load_for_state_dir text_codec (repo_of (pair_documents peer active sync)) =
     Inr (normalize_runtime_config (default_ha_runtime_config\<lparr>hr_enabled := True, hr_peers := [peer]\<rparr>))"
  by (simp add: load_for_state_dir_def get_payload_def repo_of_def pair_documents_def text_codec_simps)


end
