(* ===== verification/Ha_Pairing.thy ===== *)
theory Ha_Pairing
  imports Ha_State
begin

text \<open>
  Pairing two gateways (\<^verbatim>\<open>edge-lb/src/control/peer.rs\<close>, \<^verbatim>\<open>pair_gateway\<close> of \<^verbatim>\<open>control/gateway.rs\<close>) and the
  authorisation of control-plane calls (\<^verbatim>\<open>control/auth.rs\<close>).  The initiator sends its identity, the HA
  configuration it wants and a session token; the responder checks and stores its half and answers with its
  identity; the initiator then stores its own half.  The gRPC transport is a parameter of the initiator.
  Reading the configuration file, the discovery of automatic addresses and the addresses of an interface
  are arguments of the responder.
\<close>

section \<open>Messages\<close>

record GatewayPeerInfo =
  gpi_node_name :: string
  gpi_underlay_ip :: string
  gpi_public_ip :: string
  gpi_api_addr :: string
  gpi_xds_addr :: string
  gpi_overlay_cidr :: string
  gpi_gateway_overlay_ip :: string
  gpi_dscp :: u32
  gpi_vni :: u32
  gpi_vxlan_port :: u32
  gpi_mtu :: u32
  gpi_version :: string
  gpi_capabilities :: "string list"

record PairGatewayRequest =
  pgq_caller :: "GatewayPeerInfo option"
  pgq_ha_config_json :: string
  pgq_session_token :: string

record PairGatewayResponse =
  pgs_responder :: "GatewayPeerInfo option"
  pgs_warnings :: "string list"

datatype Status = Unauthenticated string | PermissionDenied string | InvalidArgument string | FailedPrecondition string | Internal

definition required :: "string \<Rightarrow> string \<Rightarrow> Status + string" where
  "required v field = (if trim v = [] then Inl (InvalidArgument (field @ '' is required'')) else Inr v)"

definition identity_from_pb :: "GatewayPeerInfo \<Rightarrow> Status + GatewayIdentity" where
  "identity_from_pb v =
     and_then (required (gpi_node_name v) ''node_name'') (\<lambda>name.
     and_then (required (gpi_underlay_ip v) ''underlay_ip'') (\<lambda>underlay_ip.
     and_then (required (gpi_overlay_cidr v) ''overlay_cidr'') (\<lambda>overlay_cidr.
     and_then (required (gpi_gateway_overlay_ip v) ''gateway_overlay_ip'') (\<lambda>overlay_ip.
     and_then (check (gpi_vxlan_port v \<le> 65535) (InvalidArgument ''vxlan_port out of range'')) (\<lambda>_.
     Inr \<lparr>gi_name = name, gi_underlay_ip = underlay_ip, gi_public_ip = gpi_public_ip v, gi_api_addr = gpi_api_addr v,
       gi_xds_addr = gpi_xds_addr v, gi_overlay_cidr = overlay_cidr, gi_overlay_ip = overlay_ip, gi_dscp = gpi_dscp v,
       gi_vni = gpi_vni v, gi_vxlan_port = ucast (gpi_vxlan_port v), gi_mtu = gpi_mtu v, gi_version = gpi_version v,
       gi_capabilities = gpi_capabilities v\<rparr>)))))"

definition identity_to_pb :: "GatewayIdentity \<Rightarrow> GatewayPeerInfo" where
  "identity_to_pb identity =
     \<lparr>gpi_node_name = gi_name identity, gpi_underlay_ip = gi_underlay_ip identity, gpi_public_ip = gi_public_ip identity,
      gpi_api_addr = gi_api_addr identity, gpi_xds_addr = gi_xds_addr identity, gpi_overlay_cidr = gi_overlay_cidr identity,
      gpi_gateway_overlay_ip = gi_overlay_ip identity, gpi_dscp = gi_dscp identity, gpi_vni = gi_vni identity,
      gpi_vxlan_port = ucast (gi_vxlan_port identity), gpi_mtu = gi_mtu identity, gpi_version = gi_version identity,
      gpi_capabilities = gi_capabilities identity\<rparr>"

section \<open>Authorisation\<close>

definition masked_v4 :: "u32 \<Rightarrow> u8 \<Rightarrow> u32" where
  "masked_v4 ip prefix = ip AND (if prefix = 0 then 0 else push_bit (32 - unat prefix) (- 1))"

definition masked_v6 :: "128 word \<Rightarrow> u8 \<Rightarrow> 128 word" where
  "masked_v6 ip prefix = ip AND (if prefix = 0 then 0 else push_bit (128 - unat prefix) (- 1))"

text \<open>\<open>None\<close> is an error, which the only caller reads as a refusal.\<close>

definition ip_in_cidr :: "IpAddr \<Rightarrow> string \<Rightarrow> bool option" where
  "ip_in_cidr ip cidr = do {
     (base, prefix) \<leftarrow> split_once CHR ''/'' cidr;
     base \<leftarrow> parse_ip_addr base;
     prefix \<leftarrow> parse_u8 prefix;
     (case (ip, base) of
        (V4 ip, V4 base) \<Rightarrow> if prefix > 32 then None else Some (masked_v4 ip prefix = masked_v4 base prefix)
      | (V6 ip, V6 base) \<Rightarrow> if prefix > 128 then None else Some (masked_v6 ip prefix = masked_v6 base prefix)
      | _ \<Rightarrow> Some False)
   }"

definition fallback_underlay_cidr :: "IpAddr \<Rightarrow> string option" where
  "fallback_underlay_cidr ip =
     (case ip of
        V4 v \<Rightarrow> if \<not> is_unspecified ip
          then Some (show_nat (octet 0 v) @ ''.'' @ show_nat (octet 1 v) @ ''.'' @ show_nat (octet 2 v) @ ''.0/24'') else None
      | V6 v \<Rightarrow> if \<not> is_unspecified ip then Some (show_ipv6 v @ ''/64'') else None)"

definition trusted_source_cidrs :: "(string \<Rightarrow> IpAddr \<Rightarrow> string option) \<Rightarrow> FileConfig \<Rightarrow> string list" where
  "trusted_source_cidrs interface_cidr cfg =
     (if cpc_trusted_source_cidrs (fc_control_plane cfg) \<noteq> [] then cpc_trusted_source_cidrs (fc_control_plane cfg)
      else case interface_cidr (nw_underlay_dev (fc_network cfg)) (fc_underlay_ip cfg) of
          Some cidr \<Rightarrow> [cidr]
        | None \<Rightarrow> (case fallback_underlay_cidr (fc_underlay_ip cfg) of None \<Rightarrow> [] | Some cidr \<Rightarrow> [cidr]))"

definition trusted_remote :: "(string \<Rightarrow> IpAddr \<Rightarrow> string option) \<Rightarrow> FileConfig \<Rightarrow> IpAddr \<Rightarrow> bool" where
  "trusted_remote interface_cidr cfg ip \<longleftrightarrow>
     is_loopback ip \<or> (\<exists>cidr\<in>set (trusted_source_cidrs interface_cidr cfg). ip_in_cidr ip cidr = Some True)"

definition authorize ::
    "(string \<Rightarrow> IpAddr \<Rightarrow> string option) \<Rightarrow> FileConfig \<Rightarrow> IpAddr option \<Rightarrow> string option \<Rightarrow> Status + unit" where
  "authorize interface_cidr cfg remote authorization =
     and_then
       (case cpc_token (fc_control_plane cfg) of
          None \<Rightarrow> Inr ()
        | Some token \<Rightarrow> check (unwrap_or authorization [] = ''Bearer '' @ token) (Unauthenticated ''missing or invalid bearer token''))
       (\<lambda>_. case remote of
          None \<Rightarrow> Inl (PermissionDenied ''missing peer address'')
        | Some ip \<Rightarrow> check (trusted_remote interface_cidr cfg ip) (PermissionDenied ''peer is not trusted''))"

section \<open>The responder\<close>

text \<open>What the responder reads outside its repository; \<open>None\<close> is a failure.\<close>

record responder_env =
  re_interface_cidr :: "string \<Rightarrow> IpAddr \<Rightarrow> string option"
  re_load_file :: "FileConfig option option"
  re_resolve_auto_ips :: "FileConfig \<Rightarrow> FileConfig option"
  re_version :: string
  re_now_unix :: u64

definition responder_config :: "responder_env \<Rightarrow> FileConfig \<Rightarrow> Status + FileConfig" where
  "responder_config renv fallback =
     and_then (ok_or (re_load_file renv) Internal) (\<lambda>loaded.
     and_then (ok_or (re_resolve_auto_ips renv (unwrap_or loaded fallback)) Internal) (\<lambda>file.
     and_then (check (validate_config file = None) Internal) (\<lambda>_. Inr file)))"

definition incoming_config :: "codec \<Rightarrow> string \<Rightarrow> Status + GatewayHaRuntimeConfig" where
  "incoming_config c json =
     (if trim json = [] then Inr default_ha_runtime_config
      else ok_or (cd_ha_of c json) (InvalidArgument ''bad ha_config_json''))"

text \<open>The checks, in the order of the handler: the configuration to store, and the two identities.\<close>

definition pair_checks ::
    "gateway_env \<Rightarrow> responder_env \<Rightarrow> FileConfig \<Rightarrow> IpAddr option \<Rightarrow> string option \<Rightarrow> PairGatewayRequest \<Rightarrow> Repository \<Rightarrow>
     Status + GatewayHaRuntimeConfig \<times> GatewayIdentity \<times> GatewayIdentity" where
  "pair_checks env renv fallback remote authorization req repo =
     and_then (authorize (re_interface_cidr renv) fallback remote authorization) (\<lambda>_.
     and_then (check (fc_node_role fallback = Gateway) (PermissionDenied ''gateway pairing is only available on gateway nodes'')) (\<lambda>_.
     and_then (and_then (ok_or (pgq_caller req) (InvalidArgument ''missing caller identity'')) identity_from_pb) (\<lambda>caller.
     and_then (check (trim (pgq_session_token req) \<noteq> []) (InvalidArgument ''session_token is required'')) (\<lambda>_.
     and_then (responder_config renv fallback) (\<lambda>cfg.
     let local = local_identity (re_version renv) cfg in
     and_then (check (validate_identity_pair local caller = None) (InvalidArgument ''identity'')) (\<lambda>_.
     and_then (map_err (\<lambda>_. Internal) (load_for_state_dir (ge_codec env) repo)) (\<lambda>existing.
     and_then (check (ensure_peer_slot_available existing caller = None) (FailedPrecondition ''already paired'')) (\<lambda>_.
     and_then (incoming_config (ge_codec env) (pgq_ha_config_json req)) (\<lambda>incoming.
     and_then (map_err (\<lambda>_. InvalidArgument ''ha config'') (reciprocal_config (normalize_runtime_config incoming) local caller)) (\<lambda>local_cfg.
     Inr (local_cfg, local, caller)))))))))))"

text \<open>The three documents that both sides store, in this order; the first failure ends the sequence.\<close>

definition store_pairing ::
    "gateway_env \<Rightarrow> GatewayHaRuntimeConfig \<Rightarrow> GatewayIdentity \<Rightarrow> GatewayIdentity \<Rightarrow> GatewayHaPeerSecrets \<Rightarrow> gateway_store \<Rightarrow>
     (gateway_error + unit) \<times> gateway_store" where
  "store_pairing env local_cfg local peer secret s =
     (case save_for_state_dir env local_cfg s of
        (Inl e, s1) \<Rightarrow> (Inl e, s1)
      | (Inr _, s1) \<Rightarrow>
          (case write_active_gateway env (initial_active_gateway_key local_cfg local peer) s1 of
             (Inl e, s2) \<Rightarrow> (Inl e, s2)
           | (Inr _, s2) \<Rightarrow> save_secrets_for_state_dir env secret s2))"

definition pair_gateway_response ::
    "gateway_env \<Rightarrow> responder_env \<Rightarrow> FileConfig \<Rightarrow> IpAddr option \<Rightarrow> string option \<Rightarrow> PairGatewayRequest \<Rightarrow> gateway_store \<Rightarrow>
     (Status + PairGatewayResponse) \<times> gateway_store" where
  "pair_gateway_response env renv fallback remote authorization req s =
     (case pair_checks env renv fallback remote authorization req (gs_repo s) of
        Inl e \<Rightarrow> (Inl e, s)
      | Inr (local_cfg, local, caller) \<Rightarrow>
          (case store_pairing env local_cfg local caller (new_session_token_secret (re_now_unix renv) caller (pgq_session_token req)) s of
             (Inl _, s') \<Rightarrow> (Inl Internal, s')
           | (Inr _, s') \<Rightarrow> (Inr \<lparr>pgs_responder = Some (identity_to_pb local), pgs_warnings = []\<rparr>, s')))"

section \<open>The initiator\<close>

definition normalize_endpoint :: "string \<Rightarrow> string" where
  "normalize_endpoint endpoint =
     (if starts_with endpoint ''http://'' \<or> starts_with endpoint ''https://'' then endpoint else ''http://'' @ endpoint)"

record PairGatewayResult =
  pgr_status :: string
  pgr_local :: GatewayIdentity
  pgr_peer :: GatewayIdentity
  pgr_ha_config_storage :: string
  pgr_session_token_storage :: string
  pgr_datapath_refresh_required :: bool
  pgr_warnings :: "string list"

datatype pair_error =
    NotAGateway | BootstrapTokenRequired | CallFailed | MissingResponder | BadResponder Status | PairHa ha_error | PairStore gateway_error

text \<open>The call carries the endpoint, the authorization header and the request, and changes the state \<open>'p\<close>
  of the other side.\<close>

type_synonym 'p pair_call = "string \<Rightarrow> string \<Rightarrow> PairGatewayRequest \<Rightarrow> 'p \<Rightarrow> PairGatewayResponse option \<times> 'p"

definition pair_request :: "codec \<Rightarrow> GatewayIdentity \<Rightarrow> GatewayHaRuntimeConfig \<Rightarrow> string \<Rightarrow> PairGatewayRequest" where
  "pair_request c local desired session_token =
     \<lparr>pgq_caller = Some (identity_to_pb local), pgq_ha_config_json = cd_ha c desired, pgq_session_token = session_token\<rparr>"

definition accept_response ::
    "GatewayIdentity \<Rightarrow> GatewayHaRuntimeConfig \<Rightarrow> PairGatewayResponse \<Rightarrow> pair_error + GatewayHaRuntimeConfig \<times> GatewayIdentity" where
  "accept_response local desired response =
     and_then (ok_or (pgs_responder response) MissingResponder) (\<lambda>pb.
     and_then (map_err BadResponder (identity_from_pb pb)) (\<lambda>peer.
     and_then (case validate_identity_pair local peer of Some e \<Rightarrow> Inl (PairHa e) | None \<Rightarrow> Inr ()) (\<lambda>_.
     and_then (map_err PairHa (config_with_peer desired local peer)) (\<lambda>local_cfg. Inr (local_cfg, peer)))))"

definition pair_gateway_async ::
    "gateway_env \<Rightarrow> string \<Rightarrow> u64 \<Rightarrow> 'p pair_call \<Rightarrow> FileConfig \<Rightarrow> string \<Rightarrow> string \<Rightarrow> GatewayHaRuntimeConfig \<Rightarrow> string \<Rightarrow>
     gateway_store \<times> 'p \<Rightarrow> (pair_error + PairGatewayResult) \<times> gateway_store \<times> 'p" where
  "pair_gateway_async env version now_unix call cfg endpoint bootstrap_token desired session_token sp =
     (let local = local_identity version cfg; (s, p) = sp in
      case call (normalize_endpoint endpoint) (''Bearer '' @ bootstrap_token) (pair_request (ge_codec env) local desired session_token) p of
        (None, p') \<Rightarrow> (Inl CallFailed, s, p')
      | (Some response, p') \<Rightarrow>
          (case accept_response local desired response of
             Inl e \<Rightarrow> (Inl e, s, p')
           | Inr (local_cfg, peer) \<Rightarrow>
               (case store_pairing env local_cfg local peer (new_session_token_secret now_unix peer session_token) s of
                  (Inl e, s') \<Rightarrow> (Inl (PairStore e), s', p')
                | (Inr _, s') \<Rightarrow>
                    (Inr \<lparr>pgr_status = ''paired'', pgr_local = local, pgr_peer = peer, pgr_ha_config_storage = ''sqlite'',
                       pgr_session_token_storage = ''sqlite'',
                       pgr_datapath_refresh_required = (hr_enabled local_cfg \<and> hr_connection_sync local_cfg),
                       pgr_warnings = pgs_warnings response\<rparr>, s', p'))))"

definition pair_gateway ::
    "gateway_env \<Rightarrow> string \<Rightarrow> u64 \<Rightarrow> 'p pair_call \<Rightarrow> FileConfig \<Rightarrow> string \<Rightarrow> string \<Rightarrow> GatewayHaRuntimeConfig \<Rightarrow> string \<Rightarrow>
     gateway_store \<times> 'p \<Rightarrow> (pair_error + PairGatewayResult) \<times> gateway_store \<times> 'p" where
  "pair_gateway env version now_unix call cfg endpoint bootstrap_token desired session_token sp =
     (if fc_node_role cfg \<noteq> Gateway then (Inl NotAGateway, sp)
      else if trim bootstrap_token = [] then (Inl BootstrapTokenRequired, sp)
      else pair_gateway_async env version now_unix call cfg endpoint bootstrap_token desired session_token sp)"

section \<open>What pairing stores\<close>

lemma trim_append_newline: "trim (s @ [char_of (10 :: nat)]) = trim s"
proof -
  have nl: "is_space (char_of (10 :: nat))" by (simp add: is_space_def)
  show ?thesis
  proof (cases "\<forall>c\<in>set s. is_space c")
    case True
    then have "dropWhile is_space s = []" by (simp add: dropWhile_eq_Nil_conv)
    moreover have "dropWhile is_space (s @ [char_of (10 :: nat)]) = []" using nl True by (simp add: dropWhile_eq_Nil_conv)
    ultimately show ?thesis by (simp only: trim_def rev.simps dropWhile.simps)
  next
    case False
    then have "dropWhile is_space (s @ [char_of (10 :: nat)]) = dropWhile is_space s @ [char_of (10 :: nat)]"
      by (simp add: dropWhile_append)
    then show ?thesis using nl by (simp add: trim_def)
  qed
qed

lemma token_id_nonempty: "token_id token \<noteq> []"
  by (auto simp: token_id_def Let_def)

lemma store_pairing_docs:
  assumes "store_pairing env local_cfg local peer secret s = (Inr (), s')"
  shows "\<exists>ha active sec. sd_payload ha = cd_ha (ge_codec env) (normalize_runtime_config local_cfg) \<and>
    sd_payload active = initial_active_gateway_key local_cfg local peer @ [char_of (10 :: nat)] \<and>
    sd_payload sec = cd_secret (ge_codec env) secret \<and>
    (\<forall>k. get_doc k (gs_repo s') = (if k = (''ha_peer_secret'', ''config'') then Some sec
      else if k = (''ha_active_gateway'', ''current'') then Some active
      else if k = (''ha'', ''config'') then Some ha else get_doc k (gs_repo s)))"
proof -
  obtain s1 s2 where w: "store_put env (''ha'', ''config'') (cd_ha (ge_codec env) (normalize_runtime_config local_cfg)) s = (Inr (), s1)"
    "store_put env (''ha_active_gateway'', ''current'') (initial_active_gateway_key local_cfg local peer @ [char_of (10 :: nat)]) s1 = (Inr (), s2)"
    "store_put env (''ha_peer_secret'', ''config'') (cd_secret (ge_codec env) secret) s2 = (Inr (), s')"
    using assms by (auto simp: store_pairing_def save_for_state_dir_def write_active_gateway_def save_secrets_for_state_dir_def
      split: prod.splits sum.splits)
  from store_put_docs [OF w(1)] obtain ha where ha: "sd_payload ha = cd_ha (ge_codec env) (normalize_runtime_config local_cfg)"
    "\<forall>k. get_doc k (gs_repo s1) = (if k = (''ha'', ''config'') then Some ha else get_doc k (gs_repo s))" by blast
  from store_put_docs [OF w(2)] obtain ac where
    ac: "sd_payload ac = initial_active_gateway_key local_cfg local peer @ [char_of (10 :: nat)]"
    "\<forall>k. get_doc k (gs_repo s2) = (if k = (''ha_active_gateway'', ''current'') then Some ac else get_doc k (gs_repo s1))" by blast
  from store_put_docs [OF w(3)] obtain sec where sec: "sd_payload sec = cd_secret (ge_codec env) secret"
    "\<forall>k. get_doc k (gs_repo s') = (if k = (''ha_peer_secret'', ''config'') then Some sec else get_doc k (gs_repo s2))" by blast
  show ?thesis
    by (rule exI [of _ ha], rule exI [of _ ac], rule exI [of _ sec]) (simp add: ha ac sec)
qed

definition paired_scope :: "FileConfig \<Rightarrow> GatewayIdentity \<Rightarrow> string \<Rightarrow> string \<Rightarrow> repl_error + Scope" where
  "paired_scope cfg peer pairing_id key =
     (if key \<in> own_keys cfg then Inr (Master pairing_id (peer_from_identity peer))
      else if key = gi_name peer \<or> key = gi_underlay_ip peer then Inr (Backup pairing_id (peer_from_identity peer))
      else Inl ActiveNotMember)"

lemma normalize_keeps: "hr_enabled (normalize_runtime_config v) = hr_enabled v" "hr_peers (normalize_runtime_config v) = hr_peers v"
  "hr_self_index (normalize_runtime_config v) = hr_self_index v" "hr_preferred_active (normalize_runtime_config v) = hr_preferred_active v"
  by (simp_all add: normalize_runtime_config_def Let_def)

lemma read_after_pairing:
  assumes codec: "codec_ok (ge_codec env)" and b: "read_bundle (ge_codec env) cfg (gs_repo s) = Inr b"
    and stored: "store_pairing env local_cfg local peer (new_session_token_secret now peer token) s = (Inr (), s')"
    and cfg: "hr_enabled local_cfg" "hr_peers local_cfg = [peer_from_identity peer]" "token \<noteq> []"
    and scope: "paired_scope cfg peer (token_id token) (trim (initial_active_gateway_key local_cfg local peer)) = Inr scope"
  shows "\<exists>b'. read_bundle (ge_codec env) cfg (gs_repo s') = Inr b' \<and> bu_scope b' = scope \<and> bu_config b' = bu_config b \<and> bu_sync b' = bu_sync b"
proof -
  let ?ds = "get_many REPLICATION_KEYS (gs_repo s)" and ?ds' = "get_many REPLICATION_KEYS (gs_repo s')"
  obtain ha ac sec where d: "sd_payload ha = cd_ha (ge_codec env) (normalize_runtime_config local_cfg)"
    "sd_payload ac = initial_active_gateway_key local_cfg local peer @ [char_of (10 :: nat)]"
    "sd_payload sec = cd_secret (ge_codec env) (new_session_token_secret now peer token)"
    and k: "\<And>k. get_doc k (gs_repo s') = (if k = (''ha_peer_secret'', ''config'') then Some sec
      else if k = (''ha_active_gateway'', ''current'') then Some ac
      else if k = (''ha'', ''config'') then Some ha else get_doc k (gs_repo s))"
    using store_pairing_docs [OF stored] by blast
  have ds: "?ds' ! 0 = ?ds ! 0" "?ds' ! 1 = ?ds ! 1" "?ds' ! 2 = ?ds ! 2" "?ds' ! 3 = Some ha" "?ds' ! 4 = Some sec" "?ds' ! 5 = Some ac"
    by (simp_all add: get_many_def REPLICATION_KEYS_def k)
  have ids: "sec_session_token_id (new_session_token_secret now peer token) = token_id token"
    "sec_session_token (new_session_token_secret now peer token) = token"
    "sec_peer_name (new_session_token_secret now peer token) = gi_name peer"
    "sec_peer_underlay_ip (new_session_token_secret now peer token) = gi_underlay_ip peer"
    "hp_name (peer_from_identity peer) = gi_name peer" "hp_underlay_ip (peer_from_identity peer) = gi_underlay_ip peer"
    by (simp_all add: new_session_token_secret_def peer_from_identity_def)
  have "read_scope (ge_codec env) cfg (normalize_runtime_config local_cfg) (Some sec) (Some ac) = Inr scope"
    using scope codec_okD(5) [OF codec] cfg token_id_nonempty [of token]
    by (auto simp: read_scope_def normalize_keeps decode_def d ids trim_append_newline Let_def paired_scope_def own_keys_def
        split: if_splits)
  then show ?thesis
    using b codec_okD(4) [OF codec] unfolding read_bundle_def read_documents_def ds
    by (auto simp: and_then_Inr decode_def unwrap_or_def d)
qed

lemma stored_secret:
  assumes "store_pairing env local_cfg local peer secret s = (Inr (), s')" "codec_ok (ge_codec env)"
  shows "load_secrets_for_state_dir (ge_codec env) (gs_repo s') = Inr (Some secret)"
  using store_pairing_docs [OF assms(1)] codec_okD(5) [OF assms(2)]
  by (auto simp: load_secrets_for_state_dir_def get_payload_def get_doc_def)

lemma stored_active:
  assumes "store_pairing env local_cfg local peer secret s = (Inr (), s')"
  shows "map_option trim (get_payload (''ha_active_gateway'', ''current'') (gs_repo s')) = Some (trim (initial_active_gateway_key local_cfg local peer))"
  using store_pairing_docs [OF assms] by (auto simp: get_payload_def get_doc_def trim_append_newline)

section \<open>Both sides agree\<close>

lemma ucast_u16_u32: "ucast (ucast w :: u32) = w" for w :: u16
  by (rule bit_word_eqI) (simp add: bit_simps)

lemma identity_pb_round_trip: "identity_from_pb (identity_to_pb i) = Inr x \<Longrightarrow> x = i"
  by (cases i) (auto simp: ucast_u16_u32 identity_from_pb_def identity_to_pb_def required_def and_then_Inr split: if_splits)

lemma pair_checks_ok:
  assumes "pair_checks env renv fallback remote authorization req repo = Inr (local_cfg, local, caller)"
  shows "\<exists>cfg incoming. responder_config renv fallback = Inr cfg \<and> local = local_identity (re_version renv) cfg \<and>
    and_then (ok_or (pgq_caller req) (InvalidArgument ''missing caller identity'')) identity_from_pb = Inr caller \<and>
    trim (pgq_session_token req) \<noteq> [] \<and> incoming_config (ge_codec env) (pgq_ha_config_json req) = Inr incoming \<and>
    reciprocal_config (normalize_runtime_config incoming) local caller = Inr local_cfg"
  using assms by (auto simp: pair_checks_def and_then_Inr Let_def)

lemma initial_keys_agree:
  assumes "config_with_peer desired local peer = Inr a" "reciprocal_config (normalize_runtime_config desired) peer local = Inr b"
  shows "initial_active_gateway_key b peer local = initial_active_gateway_key a local peer"
  using assms
  by (auto simp: config_with_peer_def reciprocal_config_def initial_active_gateway_key_def Let_def normalize_keeps
      split: option.splits if_splits)

lemma config_with_peer_ok:
  assumes "config_with_peer desired local peer = Inr a"
  shows "hr_enabled a" "hr_peers a = [peer_from_identity peer]" "validate_identity_pair local peer = None"
  using assms by (auto simp: config_with_peer_def Let_def split: option.splits)

lemma reciprocal_config_ok:
  assumes "reciprocal_config incoming local peer = Inr a"
  shows "hr_enabled a" "hr_peers a = [peer_from_identity peer]"
  using assms by (auto simp: reciprocal_config_def Let_def split: option.splits if_splits)

lemma identity_pair_distinct:
  assumes "validate_identity_pair local peer = None"
  shows "gi_name local \<noteq> gi_name peer" "gi_underlay_ip local \<noteq> gi_underlay_ip peer"
  using assms by (auto simp: validate_identity_pair_def Let_def)

definition is_master :: "Bundle \<Rightarrow> bool" where
  "is_master b \<longleftrightarrow> (case bu_scope b of Master _ _ \<Rightarrow> True | _ \<Rightarrow> False)"

lemma identity_nonempty:
  assumes "validate_identity_pair local peer = None"
  shows "gi_name local \<noteq> []" "gi_name peer \<noteq> []" "gi_underlay_ip local \<noteq> []" "gi_underlay_ip peer \<noteq> []"
  using assms by (auto simp: validate_identity_pair_def Let_def)

text \<open>The other side of the call is the responder's handler.\<close>

definition responder_call ::
    "gateway_env \<Rightarrow> responder_env \<Rightarrow> FileConfig \<Rightarrow> IpAddr \<Rightarrow> gateway_store pair_call" where
  "responder_call env renv fallback remote endpoint header req s =
     (case pair_gateway_response env renv fallback (Some remote) (Some header) req s of
        (Inl _, s') \<Rightarrow> (None, s')
      | (Inr response, s') \<Rightarrow> (Some response, s'))"

text \<open>The two gateways can be told apart: names carry no blanks at their ends, and no name is the address
  of the other.\<close>

definition pair_names_ok :: "FileConfig \<Rightarrow> FileConfig \<Rightarrow> bool" where
  "pair_names_ok a b \<longleftrightarrow> trim (fc_node_name a) = fc_node_name a \<and> trim (fc_node_name b) = fc_node_name b \<and>
     fc_node_name a \<noteq> show_ip (fc_underlay_ip b) \<and> fc_node_name b \<noteq> show_ip (fc_underlay_ip a)"

text \<open>The wanted active gateway is left open or is one of the two.\<close>

definition preferred_member :: "GatewayHaRuntimeConfig \<Rightarrow> FileConfig \<Rightarrow> FileConfig \<Rightarrow> bool" where
  "preferred_member ha a b \<longleftrightarrow>
     (case hr_preferred_active ha of None \<Rightarrow> True | Some p \<Rightarrow> trim p = [] \<or> trim p \<in> own_keys a \<union> own_keys b)"

lemma initial_key_member:
  assumes "pair_names_ok a b" "preferred_member ha a b" "hr_preferred_active ha' = hr_preferred_active ha"
  shows "trim (initial_active_gateway_key ha' (local_identity va a) (local_identity vb b)) \<in> own_keys a \<union> own_keys b"
  using assms
  by (auto simp: initial_active_gateway_key_def pair_names_ok_def preferred_member_def local_identity_def own_keys_def Let_def
      split: option.splits if_splits)

lemma handshake_ok:
  assumes codec: "codec_ok c" "ge_codec envI = c" "ge_codec envR = c"
    and cfgR: "responder_config renv fallback = Inr cfgR"
    and json: "trim (cd_ha c desired) \<noteq> []"
    and ok: "pair_gateway envI vI nowI (responder_call envR renv fallback remote) cfgI endpoint bootstrap desired token (sI, sR) =
      (Inr result, sI', sR')"
  defines "li \<equiv> local_identity vI cfgI" and "lr \<equiv> local_identity (re_version renv) cfgR"
  shows "\<exists>a b. config_with_peer desired li lr = Inr a \<and> reciprocal_config (normalize_runtime_config desired) lr li = Inr b \<and>
    trim token \<noteq> [] \<and> store_pairing envI a li lr (new_session_token_secret nowI lr token) sI = (Inr (), sI') \<and>
    store_pairing envR b lr li (new_session_token_secret (re_now_unix renv) li token) sR = (Inr (), sR')"
proof -
  let ?req = "pair_request c li desired token"
  obtain response where call: "responder_call envR renv fallback remote (normalize_endpoint endpoint) (''Bearer '' @ bootstrap) ?req sR = (Some response, sR')"
    and acc: "\<exists>a peer. accept_response li desired response = Inr (a, peer) \<and>
      store_pairing envI a li peer (new_session_token_secret nowI peer token) sI = (Inr (), sI')"
    using ok codec(2) by (auto simp: pair_gateway_def pair_gateway_async_def Let_def li_def split: if_splits prod.splits option.splits sum.splits)
  obtain b local caller where checks: "pair_checks envR renv fallback (Some remote) (Some (''Bearer '' @ bootstrap)) ?req (gs_repo sR) = Inr (b, local, caller)"
    and st: "store_pairing envR b local caller (new_session_token_secret (re_now_unix renv) caller token) sR = (Inr (), sR')"
    and resp: "response = \<lparr>pgs_responder = Some (identity_to_pb local), pgs_warnings = []\<rparr>"
    using call by (auto simp: responder_call_def pair_gateway_response_def pair_request_def split: prod.splits sum.splits)
  have r: "local = lr" "caller = li" "trim token \<noteq> []" "reciprocal_config (normalize_runtime_config desired) lr li = Inr b"
    using pair_checks_ok [OF checks] cfgR json codec_okD(4) [OF codec(1)] codec(3) identity_pb_round_trip [of li]
    by (auto simp: pair_request_def incoming_config_def lr_def)
  obtain a peer where "accept_response li desired response = Inr (a, peer)"
    "store_pairing envI a li peer (new_session_token_secret nowI peer token) sI = (Inr (), sI')" using acc by blast
  moreover from this(1) have "peer = lr" "config_with_peer desired li lr = Inr a"
    using identity_pb_round_trip [of lr] by (auto simp: accept_response_def resp r(1) and_then_Inr)
  ultimately show ?thesis using r st by blast
qed

lemma pairing_outcome:
  assumes codec: "codec_ok c" "ge_codec envI = c" "ge_codec envR = c" "trim (cd_ha c desired) \<noteq> []"
    and cfgR: "responder_config renv fallback = Inr cfgR"
    and names: "pair_names_ok cfgI cfgR" "preferred_member desired cfgI cfgR"
    and before: "read_bundle c cfgI (gs_repo sI) = Inr bI" "read_bundle c cfgR (gs_repo sR) = Inr bR"
    and ok: "pair_gateway envI vI nowI (responder_call envR renv fallback remote) cfgI endpoint bootstrap desired token (sI, sR) =
      (Inr result, sI', sR')"
  defines "li \<equiv> peer_from_identity (local_identity vI cfgI)" and "lr \<equiv> peer_from_identity (local_identity (re_version renv) cfgR)"
  shows "fc_node_name cfgI \<noteq> fc_node_name cfgR \<and> show_ip (fc_underlay_ip cfgI) \<noteq> show_ip (fc_underlay_ip cfgR) \<and>
    (\<exists>bI' bR' pid secI secR key. read_bundle c cfgI (gs_repo sI') = Inr bI' \<and> read_bundle c cfgR (gs_repo sR') = Inr bR' \<and>
    (bu_scope bI' = Master pid lr \<and> bu_scope bR' = Backup pid li \<or> bu_scope bI' = Backup pid lr \<and> bu_scope bR' = Master pid li) \<and>
    bu_config bI' = bu_config bI \<and> bu_config bR' = bu_config bR \<and> bu_sync bI' = bu_sync bI \<and> bu_sync bR' = bu_sync bR \<and>
    load_secrets_for_state_dir c (gs_repo sI') = Inr (Some secI) \<and> load_secrets_for_state_dir c (gs_repo sR') = Inr (Some secR) \<and>
    session_token_matches (Some secR) (sec_session_token secI) \<and> session_token_matches (Some secI) (sec_session_token secR) \<and>
    map_option trim (get_payload (''ha_active_gateway'', ''current'') (gs_repo sI')) = Some key \<and>
    map_option trim (get_payload (''ha_active_gateway'', ''current'') (gs_repo sR')) = Some key \<and> key \<in> own_keys cfgI \<union> own_keys cfgR \<and> key \<noteq> [])"
proof -
  define i where "i = local_identity vI cfgI"
  define r where "r = local_identity (re_version renv) cfgR"
  obtain a b where hs: "config_with_peer desired i r = Inr a" "reciprocal_config (normalize_runtime_config desired) r i = Inr b" "trim token \<noteq> []"
    "store_pairing envI a i r (new_session_token_secret nowI r token) sI = (Inr (), sI')"
    "store_pairing envR b r i (new_session_token_secret (re_now_unix renv) i token) sR = (Inr (), sR')"
    using handshake_ok [OF codec(1-3) cfgR codec(4) ok] unfolding i_def r_def by blast
  have token: "token \<noteq> []" using hs(3) by auto
  define key where "key = trim (initial_active_gateway_key a i r)"
  have keyR: "trim (initial_active_gateway_key b r i) = key" using initial_keys_agree [OF hs(1,2)] by (simp add: key_def)
  have "hr_preferred_active a = hr_preferred_active desired"
    using hs(1) by (auto simp: config_with_peer_def Let_def split: option.splits)
  then have member: "key \<in> own_keys cfgI \<union> own_keys cfgR"
    unfolding key_def i_def r_def by (rule initial_key_member [OF names])
  have keys: "own_keys cfgI = {gi_name i, gi_underlay_ip i}" "own_keys cfgR = {gi_name r, gi_underlay_ip r}"
    by (simp_all add: own_keys_def i_def r_def local_identity_def Let_def)
  have disjoint: "own_keys cfgI \<inter> own_keys cfgR = {}"
    using identity_pair_distinct [OF config_with_peer_ok(3) [OF hs(1)]] names(1)
    by (auto simp: own_keys_def pair_names_ok_def i_def r_def local_identity_def Let_def)
  define scopeI where "scopeI = (if key \<in> own_keys cfgI then Master else Backup) (token_id token) lr"
  define scopeR where "scopeR = (if key \<in> own_keys cfgI then Backup else Master) (token_id token) li"
  have "paired_scope cfgI r (token_id token) key = Inr scopeI" "paired_scope cfgR i (token_id token) key = Inr scopeR"
    using member disjoint keys
    by (auto simp: paired_scope_def scopeI_def scopeR_def lr_def li_def i_def [symmetric] r_def [symmetric])
  then obtain bI' bR' where "read_bundle c cfgI (gs_repo sI') = Inr bI'" "bu_scope bI' = scopeI" "bu_config bI' = bu_config bI" "bu_sync bI' = bu_sync bI"
      "read_bundle c cfgR (gs_repo sR') = Inr bR'" "bu_scope bR' = scopeR" "bu_config bR' = bu_config bR" "bu_sync bR' = bu_sync bR"
    using read_after_pairing [of envI cfgI sI bI, unfolded codec(2), OF codec(1) before(1) hs(4) config_with_peer_ok(1,2) [OF hs(1)] token]
      read_after_pairing [of envR cfgR sR bR, unfolded codec(3), OF codec(1) before(2) hs(5) reciprocal_config_ok [OF hs(2)] token]
    unfolding keyR key_def [symmetric] by metis
  moreover have "load_secrets_for_state_dir c (gs_repo sI') = Inr (Some (new_session_token_secret nowI r token))"
    "load_secrets_for_state_dir c (gs_repo sR') = Inr (Some (new_session_token_secret (re_now_unix renv) i token))"
    using stored_secret [OF hs(4)] stored_secret [OF hs(5)] codec by simp_all
  moreover have "map_option trim (get_payload (''ha_active_gateway'', ''current'') (gs_repo sI')) = Some key"
    "map_option trim (get_payload (''ha_active_gateway'', ''current'') (gs_repo sR')) = Some key"
    using stored_active [OF hs(4)] stored_active [OF hs(5)] by (simp_all add: key_def keyR)
  moreover have "key \<noteq> []" using member keys identity_nonempty [OF config_with_peer_ok(3) [OF hs(1)]] by auto
  moreover have "fc_node_name cfgI \<noteq> fc_node_name cfgR" "show_ip (fc_underlay_ip cfgI) \<noteq> show_ip (fc_underlay_ip cfgR)"
    using identity_pair_distinct [OF config_with_peer_ok(3) [OF hs(1)]] by (simp_all add: i_def r_def local_identity_def Let_def)
  moreover have "scopeI = Master (token_id token) lr \<and> scopeR = Backup (token_id token) li \<or>
      scopeI = Backup (token_id token) lr \<and> scopeR = Master (token_id token) li"
    by (simp add: scopeI_def scopeR_def)
  moreover have "session_token_matches (Some (new_session_token_secret n x token)) (sec_session_token (new_session_token_secret m y token))" for n x m y
    using token by (simp add: session_token_matches_iff new_session_token_secret_def)
  ultimately show ?thesis using member
    by - (rule conjI, assumption, rule conjI, assumption, rule exI [of _ bI'], rule exI [of _ bR'], rule exI [of _ "token_id token"],
      rule exI [of _ "new_session_token_secret nowI r token"], rule exI [of _ "new_session_token_secret (re_now_unix renv) i token"],
      rule exI [of _ key], simp)
qed

text \<open>C30. Pairing elects one master.  When the handshake of two gateways succeeds, both repositories hold
  the other gateway as the only peer under the same pairing identifier, exactly one of the two is the
  master and the other its backup, the session token that one presents is the one the other accepts, and
  the stored configurations and replication cursors are untouched.\<close>

theorem pairing_elects_one_master:
  assumes codec: "codec_ok c" "ge_codec envI = c" "ge_codec envR = c" "trim (cd_ha c desired) \<noteq> []"
    and cfgR: "responder_config renv fallback = Inr cfgR"
    and names: "pair_names_ok cfgI cfgR" "preferred_member desired cfgI cfgR"
    and before: "read_bundle c cfgI (gs_repo sI) = Inr bI" "read_bundle c cfgR (gs_repo sR) = Inr bR"
    and ok: "pair_gateway envI vI nowI (responder_call envR renv fallback remote) cfgI endpoint bootstrap desired token (sI, sR) =
      (Inr result, sI', sR')"
  defines "li \<equiv> peer_from_identity (local_identity vI cfgI)" and "lr \<equiv> peer_from_identity (local_identity (re_version renv) cfgR)"
  shows "\<exists>bI' bR' pid secI secR. read_bundle c cfgI (gs_repo sI') = Inr bI' \<and> read_bundle c cfgR (gs_repo sR') = Inr bR' \<and>
    (bu_scope bI' = Master pid lr \<and> bu_scope bR' = Backup pid li \<or> bu_scope bI' = Backup pid lr \<and> bu_scope bR' = Master pid li) \<and>
    bu_config bI' = bu_config bI \<and> bu_config bR' = bu_config bR \<and> bu_sync bI' = bu_sync bI \<and> bu_sync bR' = bu_sync bR \<and>
    load_secrets_for_state_dir c (gs_repo sI') = Inr (Some secI) \<and> load_secrets_for_state_dir c (gs_repo sR') = Inr (Some secR) \<and>
    session_token_matches (Some secR) (sec_session_token secI) \<and> session_token_matches (Some secI) (sec_session_token secR)"
  using pairing_outcome [OF codec cfgR names before ok] unfolding li_def lr_def by blast

section \<open>A handshake\<close>

lemma trim_eq_Nil: "trim s = [] \<longleftrightarrow> (\<forall>c\<in>set s. is_space c)"
proof
  assume "trim s = []"
  then have "dropWhile is_space (rev (dropWhile is_space s)) = []" by (simp add: trim_def)
  then have "\<forall>c\<in>set (dropWhile is_space s). is_space c" by (simp add: dropWhile_eq_Nil_conv)
  then have "dropWhile is_space s = []" by (metis hd_dropWhile list.set_sel(1))
  then show "\<forall>c\<in>set s. is_space c" by (simp add: dropWhile_eq_Nil_conv)
next
  assume "\<forall>c\<in>set s. is_space c"
  then have "dropWhile is_space s = []" by (simp add: dropWhile_eq_Nil_conv)
  then show "trim s = []" by (simp only: trim_def rev.simps dropWhile.simps)
qed

lemma trim_show_ipv4: "trim (show_ipv4 a) \<noteq> []"
  by (auto simp: trim_eq_Nil show_ipv4_def is_space_def)

lemma desired_not_blank: "trim (cd_ha text_codec ha) \<noteq> []"
  by (auto simp: trim_eq_Nil text_codec_def write_text_def gateway_ha_runtime_config_format_def iso_format_def pair_format_def
      bool_format_def char_format_def is_space_def)

text \<open>Gateway A has an overlay network and a DSCP of its own.\<close>

definition caller_cfg :: FileConfig where
  "caller_cfg = cfg_a\<lparr>fc_network := (fc_network cfg_a)\<lparr>nw_overlay_cidr := ''10.44.0.0/24'', nw_dscp := 40\<rparr>\<rparr>"

definition sample_renv :: responder_env where
  "sample_renv = \<lparr>re_interface_cidr = \<lambda>_ _. None, re_load_file = Some None, re_resolve_auto_ips = Some, re_version = ''1.0'', re_now_unix = 7\<rparr>"

definition sample_genv :: gateway_env where
  "sample_genv = \<lparr>ge_storage = sample_storage, ge_codec = text_codec, ge_clock_ms = 0\<rparr>"

definition new_store :: gateway_store where
  "new_store = \<lparr>gs_repo = \<lparr>rs_documents = Map.empty, rs_revisions = Map.empty\<rparr>, gs_last = 0\<rparr>"

lemma store_pairing_new: "\<exists>s'. store_pairing sample_genv local_cfg local peer secret new_store = (Inr (), s')"
  by (simp add: store_pairing_def save_for_state_dir_def write_active_gateway_def save_secrets_for_state_dir_def store_put_def put_def
      insert_revision_def upsert_document_def next_revision_def new_store_def sample_genv_def Let_def)

lemma read_new_store: "\<exists>b. read_bundle text_codec cfg (gs_repo new_store) = Inr b"
  by (simp add: read_bundle_def read_documents_def get_many_def REPLICATION_KEYS_def get_doc_def new_store_def decode_def unwrap_or_def
      read_scope_def default_ha_runtime_config_def)

lemma cfg_b_valid: "validate_config cfg_b = None"
proof -
  note f = pair_cfg_def sample_config_def
  have "validate_network cfg_b = None"
    by (simp add: validate_network_def f default_defs validate_stun_server_def parse_defs saturating_sub_def)
  moreover have "validate_inventory cfg_b = None"
    by (simp add: validate_inventory_def f default_defs validate_overlay_capacity_def parse_defs
        same_subnet_def subnet_mask_def backend_nodes_effective_def is_unspecified_def mask_eq_exp_minus_1)
  moreover have "validate_services cfg_b = None"
    by (simp add: validate_services_def f default_defs validate_native_listener_def parse_defs
        is_unspecified_def backend_nodes_effective_def validate_consistent_hash_listener_capacity_def
        max_consistent_hash_datapath_listeners_def)
  moreover have "validate_access cfg_b = None"
    by (simp add: validate_access_def f default_defs check_listen_def check_token_length_def
        check_cidrs_def parse_defs is_loopback_def)
  ultimately show ?thesis by (simp add: validate_config_def)
qed

abbreviation caller_id :: GatewayIdentity where "caller_id \<equiv> local_identity ''1.0'' caller_cfg"
abbreviation responder_id :: GatewayIdentity where "responder_id \<equiv> local_identity ''1.0'' cfg_b"

lemmas identity_defs = local_identity_def caller_cfg_def pair_cfg_def sample_config_def default_file_config_def
  default_network_config_def default_gateway_config_def default_gateway_overlay_def

lemma sample_identities_ok: "validate_identity_pair caller_id responder_id = None" "validate_identity_pair responder_id caller_id = None"
  using cidr_overlaps_example
  by (simp_all add: validate_identity_pair_def identity_defs show_ip_def is_unspecified_def trim_def is_space_def Let_def)

lemma identity_sent: "identity_from_pb (identity_to_pb caller_id) = Inr caller_id" "identity_from_pb (identity_to_pb responder_id) = Inr responder_id"
  by (simp_all add: identity_from_pb_def identity_to_pb_def required_def identity_defs ucast_u16_u32 show_ip_def trim_show_ipv4)
    (simp_all add: trim_def is_space_def)

lemma peer_valid:
  assumes "trim (gi_name p) \<noteq> []" "gi_underlay_ip p = show_ipv4 a" "gi_public_ip p = show_ipv4 b" "hr_peers ha = [peer_from_identity p]"
    "hr_self_index ha \<le> 1" "hr_vip ha = default_vip_config"
  shows "validate_ha ha = None"
  using assms
  by (auto simp: validate_ha_def normalize_runtime_config_def validate_peer_def peer_from_identity_def non_empty_def trim_show_ipv4
      validate_garp_def validate_garp_device_def default_vip_config_def default_garp_config_def word_le_nat_alt Let_def)

lemma sample_configs:
  "\<exists>a. config_with_peer default_ha_runtime_config caller_id responder_id = Inr a"
  "\<exists>b. reciprocal_config (normalize_runtime_config default_ha_runtime_config) responder_id caller_id = Inr b"
proof -
  have ids: "trim (gi_name caller_id) \<noteq> []" "gi_underlay_ip caller_id = show_ipv4 0xC000020A" "gi_public_ip caller_id = show_ipv4 0xC633640A"
    "trim (gi_name responder_id) \<noteq> []" "gi_underlay_ip responder_id = show_ipv4 0xC000020B" "gi_public_ip responder_id = show_ipv4 0xC633640A"
    by (simp_all add: identity_defs show_ip_def trim_def is_space_def)
  have vip: "hr_vip (normalize_runtime_config default_ha_runtime_config) = default_vip_config"
    by (simp add: normalize_runtime_config_def default_ha_runtime_config_def default_vip_config_def Let_def)
  show "\<exists>a. config_with_peer default_ha_runtime_config caller_id responder_id = Inr a"
    using sample_identities_ok(1) ids(4-6)
    by (simp add: config_with_peer_def ensure_peer_slot_available_def peer_valid [of responder_id] default_ha_runtime_config_def Let_def)
  show "\<exists>b. reciprocal_config (normalize_runtime_config default_ha_runtime_config) responder_id caller_id = Inr b"
    using sample_identities_ok(2) ids(1-3) vip
    by (auto simp: reciprocal_config_def peer_valid [of caller_id] normalize_keeps default_ha_runtime_config_def Let_def)
qed

lemma sample_responder: "responder_config sample_renv cfg_b = Inr cfg_b"
  by (simp add: responder_config_def sample_renv_def unwrap_or_def cfg_b_valid)

lemma sample_pairing:
  "\<exists>result sI' sR'. pair_gateway sample_genv ''1.0'' 7 (responder_call sample_genv sample_renv cfg_b (V4 0x7F000001)) caller_cfg
     ''192.0.2.11:50051'' ''secret'' default_ha_runtime_config ''token'' (new_store, new_store) = (Inr result, sI', sR')"
proof -
  obtain a b where ab: "config_with_peer default_ha_runtime_config caller_id responder_id = Inr a"
    "reciprocal_config (normalize_runtime_config default_ha_runtime_config) responder_id caller_id = Inr b"
    using sample_configs by blast
  let ?req = "pair_request text_codec caller_id default_ha_runtime_config ''token''"
  have auth: "authorize (re_interface_cidr sample_renv) cfg_b (Some (V4 0x7F000001)) (Some header) = Inr ()" for header
    by (simp add: authorize_def trusted_remote_def is_loopback_def identity_defs default_control_plane_config_def)
  have load: "load_for_state_dir text_codec (gs_repo new_store) = Inr default_ha_runtime_config"
    by (simp add: load_for_state_dir_def get_payload_def new_store_def)
  have "incoming_config text_codec (cd_ha text_codec default_ha_runtime_config) = Inr default_ha_runtime_config"
    by (simp add: incoming_config_def desired_not_blank text_codec_simps)
  then have "pair_checks sample_genv sample_renv cfg_b (Some (V4 0x7F000001)) (Some header) ?req (gs_repo new_store) = Inr (b, responder_id, caller_id)" for header
    using ab(2) load sample_identities_ok(2) sample_responder
    by (simp add: pair_checks_def auth pair_request_def identity_sent ensure_peer_slot_available_def sample_genv_def Let_def)
      (simp add: sample_renv_def default_ha_runtime_config_def identity_defs trim_def is_space_def)
  then obtain sR' where call: "responder_call sample_genv sample_renv cfg_b (V4 0x7F000001) ep header ?req new_store =
      (Some \<lparr>pgs_responder = Some (identity_to_pb responder_id), pgs_warnings = []\<rparr>, sR')" for ep header
    using store_pairing_new [of b responder_id caller_id "new_session_token_secret (re_now_unix sample_renv) caller_id ''token''"]
    by (auto simp: responder_call_def pair_gateway_response_def pair_request_def)
  have acc: "accept_response caller_id default_ha_runtime_config \<lparr>pgs_responder = Some (identity_to_pb responder_id), pgs_warnings = []\<rparr> = Inr (a, responder_id)"
    using ab(1) by (simp add: accept_response_def identity_sent sample_identities_ok)
  have "fc_node_role caller_cfg = Gateway" "trim ''secret'' \<noteq> []" by (simp_all add: identity_defs trim_def is_space_def)
  moreover obtain sI' where "store_pairing sample_genv a caller_id responder_id (new_session_token_secret 7 responder_id ''token'') new_store = (Inr (), sI')"
    using store_pairing_new by blast
  moreover have "ge_codec sample_genv = text_codec" by (simp add: sample_genv_def)
  ultimately show ?thesis using call acc by (simp add: pair_gateway_def pair_gateway_async_def)
qed

lemma sample_pair_names: "pair_names_ok caller_cfg cfg_b" "preferred_member default_ha_runtime_config caller_cfg cfg_b"
  using names_are_no_addresses [of "''gw-b''" "0xC000020A"] names_are_no_addresses [of "''gw-a''" "0xC000020B"]
  by (simp_all add: pair_names_ok_def caller_cfg_def pair_cfg_def trim_def is_space_def preferred_member_def default_ha_runtime_config_def)

theorem pairing_elects_one_master_witness:
  "\<exists>result sI' sR' bI' bR'. pair_gateway sample_genv ''1.0'' 7 (responder_call sample_genv sample_renv cfg_b (V4 0x7F000001)) caller_cfg
       ''192.0.2.11:50051'' ''secret'' default_ha_runtime_config ''token'' (new_store, new_store) = (Inr result, sI', sR') \<and>
     read_bundle text_codec caller_cfg (gs_repo sI') = Inr bI' \<and> read_bundle text_codec cfg_b (gs_repo sR') = Inr bR' \<and>
     (is_master bI' \<longleftrightarrow> \<not> is_master bR')"
proof -
  obtain result sI' sR' where run: "pair_gateway sample_genv ''1.0'' 7 (responder_call sample_genv sample_renv cfg_b (V4 0x7F000001)) caller_cfg
       ''192.0.2.11:50051'' ''secret'' default_ha_runtime_config ''token'' (new_store, new_store) = (Inr result, sI', sR')"
    using sample_pairing by blast
  obtain bI bR where b: "read_bundle text_codec caller_cfg (gs_repo new_store) = Inr bI" "read_bundle text_codec cfg_b (gs_repo new_store) = Inr bR"
    using read_new_store by metis
  have genv: "ge_codec sample_genv = text_codec" by (simp add: sample_genv_def)
  from pairing_elects_one_master [OF text_codec_ok genv genv desired_not_blank sample_responder sample_pair_names b run] run
  show ?thesis by (auto simp: is_master_def)
qed

end
