(* ===== verification/Listener_Ids.thy ===== *)
theory Listener_Ids
  imports Native_Model
begin

text \<open>
  Listener identifiers: \<open>stable_listener_assignments\<close> and the functions it uses
  (\<^verbatim>\<open>edge-lb/src/linux/native_dnat.rs\<close>).  Listeners are sorted by key, each starts at the FNV-1a hash
  of its key and probes upwards, with wrap-around from 4096 to 1, for the first free identifier.  The
  probing loop runs at most 4096 times, so it is a recursion over the number of probes left.
\<close>

definition listener_sort_key :: "NativeListener \<Rightarrow> u32 \<times> u16 \<times> u8" where
  "listener_sort_key listener =
     (key_vip_ip (nl_key listener), key_vip_port (nl_key listener), ip_proto (key_protocol (nl_key listener)))"

definition fnv_step :: "u32 \<Rightarrow> u8 \<Rightarrow> u32" where
  "fnv_step hash byte = (hash XOR ucast byte) * 0x01000193"

definition stable_listener_id :: "NativeListener \<Rightarrow> u32" where
  "stable_listener_id listener =
     (case listener_sort_key listener of
        (vip, port, proto) \<Rightarrow>
          foldl fnv_step 0x811c9dc5 (be_bytes32 vip @ be_bytes16 port @ [proto])
            mod NATIVE_LISTENER_ID_CAPACITY + 1)"

definition next_id :: "u32 \<Rightarrow> u32" where
  "next_id id0 = (let id1 = id0 + 1 in if id1 > NATIVE_LISTENER_ID_CAPACITY then 1 else id1)"

primrec probe_id :: "nat \<Rightarrow> u32 set \<Rightarrow> u32 \<Rightarrow> u32 option" where
  "probe_id 0 used i = None"
| "probe_id (Suc left) used i = (if i \<notin> used then Some i else probe_id left used (next_id i))"

fun assign_ids :: "u32 set \<Rightarrow> NativeListener list \<Rightarrow> (u32 \<times> NativeListener) list" where
  "assign_ids used [] = []"
| "assign_ids used (listener # rest) =
     (case probe_id 4096 used (stable_listener_id listener) of
        None \<Rightarrow> assign_ids used rest
      | Some i \<Rightarrow> (i, listener) # assign_ids (insert i used) rest)"

datatype id_error = IdCapacityExceeded nat | IdSpaceExhausted

definition stable_listener_assignments :: "NativeListener list \<Rightarrow> id_error + (u32 \<times> NativeListener) list" where
  "stable_listener_assignments listeners =
     (if length listeners > 4096 then Inl (IdCapacityExceeded (length listeners))
      else let out = assign_ids {} (sort_key listener_sort_key listeners)
        in if length out \<noteq> length listeners then Inl IdSpaceExhausted else Inr out)"

section \<open>Probing reaches every identifier\<close>

definition id_range :: "u32 set" where
  "id_range = {i. 1 \<le> i \<and> i \<le> NATIVE_LISTENER_ID_CAPACITY}"

text \<open>The identifier with offset \<open>n\<close> in the range.\<close>

definition nth_id :: "nat \<Rightarrow> u32" where
  "nth_id n = of_nat (n mod 4096) + 1"

lemma unat_nth_id: "unat (nth_id n) = n mod 4096 + 1"
proof -
  have "nth_id n = of_nat (n mod 4096 + 1)" by (simp add: nth_id_def)
  moreover have "n mod 4096 + 1 < 2 ^ LENGTH(32)" by (rule order_less_trans [of _ 4097]) simp_all
  ultimately show ?thesis by (simp only: unat_of_nat_lt)
qed

lemma id_range_unat: "i \<in> id_range \<longleftrightarrow> 1 \<le> unat i \<and> unat i \<le> 4096"
  by (simp add: id_range_def word_le_nat_alt)

lemma nth_id_in_range [simp, intro]: "nth_id n \<in> id_range"
  by (simp add: id_range_unat unat_nth_id Suc_le_eq)

lemma id_range_nth:
  assumes "i \<in> id_range" shows "i = nth_id (unat i - 1)"
proof -
  obtain m where "unat i = Suc m" "m < 4096" using assms by (cases "unat i") (auto simp: id_range_unat)
  then have "unat i = unat (nth_id (unat i - 1))" by (simp add: unat_nth_id)
  then show ?thesis by (simp only: unat_eq_iff)
qed

lemma next_nth_id: "next_id (nth_id n) = nth_id (Suc n)"
proof -
  have "unat (nth_id n + 1) = n mod 4096 + 2"
    using unat_add_lt [of "nth_id n" 1] mod_less_divisor [of 4096 n] by (simp add: unat_nth_id)
  then have "unat (next_id (nth_id n)) = unat (nth_id (Suc n))"
    by (auto simp: next_id_def Let_def word_less_nat_alt unat_nth_id mod_Suc)
  then show ?thesis by (simp only: unat_eq_iff)
qed

lemma probe_id_None: "probe_id k used (nth_id n) = None \<longleftrightarrow> (\<forall>j<k. nth_id (n + j) \<in> used)"
proof (induction k arbitrary: n)
  case (Suc k)
  have "(\<forall>j<Suc k. nth_id (n + j) \<in> used) \<longleftrightarrow> nth_id n \<in> used \<and> (\<forall>j<k. nth_id (Suc n + j) \<in> used)"
    by (simp add: All_less_Suc2)
  with Suc show ?case by (simp add: next_nth_id)
qed simp

lemma probe_id_Some: "probe_id k used (nth_id n) = Some i \<Longrightarrow> i \<in> id_range \<and> i \<notin> used"
  by (induction k arbitrary: n) (auto simp: next_nth_id split: if_splits)

lemma nth_id_covers:
  assumes "i \<in> id_range" obtains j where "j < 4096" "i = nth_id (n + j)"
proof -
  obtain m where m: "unat i = Suc m" "m < 4096" using assms by (cases "unat i") (auto simp: id_range_unat)
  let ?j = "(m + (4096 - n mod 4096)) mod 4096"
  have "(n + ?j) mod 4096 = (n mod 4096 + (m + (4096 - n mod 4096))) mod 4096"
    by (simp only: mod_add_left_eq mod_add_right_eq)
  also have "\<dots> = (m + 4096) mod 4096" by (simp add: mod_le_divisor)
  finally have "unat (nth_id (n + ?j)) = unat i" using m by (simp add: unat_nth_id)
  then have "i = nth_id (n + ?j)" by (simp only: unat_eq_iff)
  then show thesis using that [of ?j] by simp
qed

lemma card_id_range: "card id_range = 4096" "finite id_range"
proof -
  have image: "id_range = nth_id ` {..<4096}" using id_range_nth by (force simp: id_range_unat)
  then show "finite id_range" by simp
  have "inj_on nth_id {..<4096}"
    by (rule inj_onI) (metis add_right_cancel lessThan_iff mod_less unat_nth_id)
  then show "card id_range = 4096"
    unfolding image using card_image [of nth_id "{..<4096}"] by (simp only: card_lessThan)
qed

text \<open>With fewer than 4096 identifiers taken, a free one is found.\<close>

lemma probe_id_found:
  assumes "used \<subseteq> id_range" "card used < 4096"
  shows "probe_id 4096 used (nth_id n) \<noteq> None"
proof
  assume "probe_id 4096 used (nth_id n) = None"
  then have "\<forall>j<4096. nth_id (n + j) \<in> used" by (simp only: probe_id_None)
  then have "id_range \<subseteq> used" using nth_id_covers [of _ n] by (metis subsetI)
  then have "used = id_range" using assms(1) by blast
  then show False using assms(2) card_id_range by simp
qed

lemma stable_listener_id_nth: "\<exists>n. stable_listener_id listener = nth_id n"
proof -
  obtain vip port proto where "listener_sort_key listener = (vip, port, proto)"
    by (cases "listener_sort_key listener") auto
  then obtain h where h: "stable_listener_id listener = h mod NATIVE_LISTENER_ID_CAPACITY + 1"
    using that by (simp only: stable_listener_id_def prod.case)
  have "h mod NATIVE_LISTENER_ID_CAPACITY = of_nat (unat h mod 4096)"
    by (simp add: word_unat_eq_iff unat_mod unat_of_nat_lt)
  then show ?thesis using h by (auto simp: nth_id_def)
qed

lemma assign_ids_spec:
  assumes "used \<subseteq> id_range" "card used + length ls \<le> 4096"
  shows "map snd (assign_ids used ls) = ls \<and> distinct (map fst (assign_ids used ls)) \<and>
    set (map fst (assign_ids used ls)) \<subseteq> id_range - used"
  using assms
proof (induction ls arbitrary: used)
  case (Cons l ls)
  obtain n where n: "stable_listener_id l = nth_id n" using stable_listener_id_nth by blast
  have "card used < 4096" using Cons.prems by simp
  then obtain i where i: "probe_id 4096 used (nth_id n) = Some i"
    using probe_id_found [OF Cons.prems(1), of n] by blast
  note new = probe_id_Some [OF i]
  have "finite used" using Cons.prems(1) card_id_range(2) finite_subset by blast
  then have "card (insert i used) + length ls \<le> 4096" using Cons.prems(2) new by simp
  moreover have "insert i used \<subseteq> id_range" using Cons.prems(1) new by simp
  ultimately show ?case using Cons.IH [of "insert i used"] n i new by auto
qed simp

lemma listener_sort_key_inj: "listener_sort_key a = listener_sort_key b \<longleftrightarrow> nl_key a = nl_key b"
  by (cases "nl_key a"; cases "nl_key b"; cases "key_protocol (nl_key a)"; cases "key_protocol (nl_key b)")
     (auto simp: listener_sort_key_def)

lemma filter_eq_singleton: "distinct xs \<Longrightarrow> k \<in> set xs \<Longrightarrow> filter (\<lambda>x. k = x) xs = [k]"
  by (induction xs) (auto simp: filter_empty_conv)

text \<open>Sorting is the same for every order of listeners with distinct keys.\<close>

lemma sort_by_key_unique:
  assumes "distinct (map nl_key ls)" "mset ls' = mset ls"
  shows "sort_key listener_sort_key ls' = sort_key listener_sort_key ls"
proof (rule properties_for_sort_key)
  show "mset (sort_key listener_sort_key ls) = mset ls'" using assms(2) by simp
  fix k
  assume "k \<in> set (sort_key listener_sort_key ls)"
  then have k: "k \<in> set ls" by simp
  have filt: "filter (\<lambda>x. listener_sort_key k = listener_sort_key x) xs = [k]" if "mset xs = mset ls" for xs
  proof -
    have "set xs = set ls" by (rule mset_eq_setD [OF that])
    moreover have "distinct xs" "inj_on nl_key (set ls)"
      using assms(1) mset_eq_imp_distinct_iff [OF that] by (simp_all add: distinct_map)
    ultimately have d: "distinct xs" "set xs = set ls" "inj_on nl_key (set ls)" by simp_all
    have "listener_sort_key k = listener_sort_key x \<longleftrightarrow> k = x" if "x \<in> set xs" for x
      using d(2,3) k that by (auto simp: listener_sort_key_inj inj_on_def)
    then have "filter (\<lambda>x. listener_sort_key k = listener_sort_key x) xs = filter (\<lambda>x. k = x) xs"
      by (rule filter_cong [OF refl])
    also have "\<dots> = [k]" by (rule filter_eq_singleton) (use d k in simp_all)
    finally show ?thesis .
  qed
  show "filter (\<lambda>x. listener_sort_key k = listener_sort_key x) (sort_key listener_sort_key ls) =
    filter (\<lambda>x. listener_sort_key k = listener_sort_key x) ls'"
    using filt [of "sort_key listener_sort_key ls"] filt [of ls'] assms(2) by simp
qed (rule sorted_sort_key)

lemma stable_assignments_spec:
  assumes "length ls \<le> 4096"
  obtains out where "stable_listener_assignments ls = Inr out" "map snd out = sort_key listener_sort_key ls"
    "distinct (map fst out)" "set (map fst out) \<subseteq> id_range"
proof
  let ?out = "assign_ids {} (sort_key listener_sort_key ls)"
  show spec: "map snd ?out = sort_key listener_sort_key ls" "distinct (map fst ?out)" "set (map fst ?out) \<subseteq> id_range"
    using assign_ids_spec [of "{}" "sort_key listener_sort_key ls"] assms by auto
  have "length ?out = length ls" using spec(1) by (metis length_map length_sort)
  then show "stable_listener_assignments ls = Inr ?out"
    using assms by (simp add: stable_listener_assignments_def Let_def)
qed

lemma stable_assignments_order:
  "distinct (map nl_key ls) \<Longrightarrow> mset ls' = mset ls \<Longrightarrow> stable_listener_assignments ls' = stable_listener_assignments ls"
  using sort_by_key_unique [of ls ls'] mset_eq_length [of ls' ls] by (simp add: stable_listener_assignments_def)

text \<open>C20. Listener identifiers.  For at most 4096 listeners an assignment is found; it gives every listener
  one identifier, the identifiers are distinct and lie between 1 and 4096; and with distinct listener
  keys the assignment does not depend on the order in which the listeners are listed, so that every
  gateway of a pair computes the same one.  More listeners are refused.\<close>

theorem stable_listener_ids:
  shows "(length ls > 4096 \<longrightarrow> stable_listener_assignments ls = Inl (IdCapacityExceeded (length ls))) \<and>
    (length ls \<le> 4096 \<longrightarrow>
      (\<exists>out. stable_listener_assignments ls = Inr out \<and> mset (map snd out) = mset ls \<and> distinct (map fst out) \<and>
         (\<forall>i\<in>set (map fst out). 1 \<le> i \<and> i \<le> NATIVE_LISTENER_ID_CAPACITY) \<and>
         (\<forall>ls'. mset ls' = mset ls \<longrightarrow> distinct (map nl_key ls) \<longrightarrow> stable_listener_assignments ls' = Inr out)))"
proof (intro conjI impI)
  assume "length ls > 4096"
  then show "stable_listener_assignments ls = Inl (IdCapacityExceeded (length ls))"
    by (simp add: stable_listener_assignments_def)
next
  assume few: "length ls \<le> 4096"
  obtain out where out: "stable_listener_assignments ls = Inr out" "map snd out = sort_key listener_sort_key ls"
    "distinct (map fst out)" "set (map fst out) \<subseteq> id_range" by (rule stable_assignments_spec [OF few])
  have "mset (map snd out) = mset ls" unfolding out(2) by simp
  then show "\<exists>out. stable_listener_assignments ls = Inr out \<and> mset (map snd out) = mset ls \<and> distinct (map fst out) \<and>
         (\<forall>i\<in>set (map fst out). 1 \<le> i \<and> i \<le> NATIVE_LISTENER_ID_CAPACITY) \<and>
         (\<forall>ls'. mset ls' = mset ls \<longrightarrow> distinct (map nl_key ls) \<longrightarrow> stable_listener_assignments ls' = Inr out)"
    using out by (intro exI [of _ out] conjI allI impI)
      (auto simp: id_range_def dest: stable_assignments_order)
qed

definition sample_native :: "u16 \<Rightarrow> u32 \<Rightarrow> NativeListener" where
  "sample_native port select = \<lparr>nl_name = ''web'', nl_target_group = ''g'',
     nl_key = \<lparr>key_vip_ip = 0xC0A80001, key_vip_port = port, key_protocol = NativeTcp\<rparr>, nl_select = select,
     nl_inactive_timeout_secs = 240, nl_dscp = 46,
     nl_targets = [\<lparr>nt_address = 0x0A000001, nt_port = 8080, nt_weight = 2, nt_state = Active\<rparr>,
       \<lparr>nt_address = 0x0A000002, nt_port = 8080, nt_weight = 1, nt_state = Active\<rparr>]\<rparr>"

theorem stable_listener_ids_witness:
  "\<exists>out. stable_listener_assignments [sample_native 80 0, sample_native 443 2] = Inr out \<and> distinct (map fst out) \<and>
     stable_listener_assignments [sample_native 443 2, sample_native 80 0] = Inr out"
proof -
  let ?ls = "[sample_native 80 0, sample_native 443 2]"
  have "length ?ls \<le> 4096" "mset [sample_native 443 2, sample_native 80 0] = mset ?ls" "distinct (map nl_key ?ls)"
    by (simp_all add: sample_native_def)
  from stable_listener_ids [THEN conjunct2, THEN mp, OF this(1)] this(2,3) show ?thesis by metis
qed

end
