(* ===== verification/Map_Sync.thy ===== *)
theory Map_Sync
  imports Listener_Ids Selector
begin

text \<open>
  Publication of the listeners into the pinned eBPF maps: the map synchronisation of
  \<^verbatim>\<open>edge-lb/src/linux/native_dnat.rs\<close>.  The operations of \<^verbatim>\<open>aya::maps::HashMap\<close> are a parameter,
  \<open>map_ops\<close>, with the documented behaviour \<open>map_ops_ok\<close>: a successful insert stores the value, the
  iteration yields the keys of the map, a remove drops the key.  An insert or an iteration may fail, and a
  failure leaves the entries inserted before it in the map, as the early return of the code does.
\<close>

section \<open>Observed health\<close>

record TargetHealthEntry =
  th_target_group :: string
  th_host_name :: string
  th_name :: string
  th_description :: "string option"
  th_inactive_retries :: "u32 option"
  th_probe_type :: "string option"
  th_probe_req :: "string option"
  th_probe_resp :: "string option"
  th_probe_duration :: "u32 option"
  th_probe_port :: "u16 option"
  th_min_delay :: "string option"
  th_avg_delay :: "string option"
  th_max_delay :: "string option"
  th_current_state :: "string option"
  th_sync :: "u32 option"

definition health_name :: "string \<Rightarrow> u32 \<Rightarrow> string \<Rightarrow> u16 \<Rightarrow> string" where
  "health_name tgroup address protocol port =
     tgroup @ '':'' @ show_ipv4 address @ ''_'' @ protocol @ ''_'' @ show_nat (unat port)"

definition observed_target_is_active ::
    "TargetHealthEntry list option \<Rightarrow> string \<Rightarrow> u32 \<Rightarrow> u8 \<Rightarrow> u16 \<Rightarrow> bool" where
  "observed_target_is_active observed tgroup address protocol port =
     (case observed of
        None \<Rightarrow> True
      | Some entries \<Rightarrow>
          if protocol \<noteq> 6 \<and> protocol \<noteq> 17 then True
          else let name = health_name tgroup address (if protocol = 6 then ''tcp'' else ''udp'') port in
            list_all (\<lambda>entry. th_current_state entry \<notin> {Some ''nok'', Some ''inactive'', Some ''down''})
              (filter (\<lambda>entry. th_target_group entry = tgroup \<and> th_name entry = name) entries))"

definition native_target_is_active ::
    "TargetHealthEntry list option \<Rightarrow> NativeListener \<Rightarrow> NativeTarget \<Rightarrow> bool" where
  "native_target_is_active observed listener target \<longleftrightarrow>
     nt_state target = Active \<and>
     observed_target_is_active observed (nl_target_group listener) (nt_address target)
       (ip_proto (key_protocol (nl_key listener))) (nt_port target)"

section \<open>Map operations\<close>

record ('k, 'v) map_ops =
  mo_insert :: "('k \<rightharpoonup> 'v) \<Rightarrow> 'k \<Rightarrow> 'v \<Rightarrow> ('k \<rightharpoonup> 'v) option"
  mo_keys :: "('k \<rightharpoonup> 'v) \<Rightarrow> 'k list option"
  mo_remove :: "('k \<rightharpoonup> 'v) \<Rightarrow> 'k \<Rightarrow> ('k \<rightharpoonup> 'v)"

definition map_ops_ok :: "('k, 'v) map_ops \<Rightarrow> bool" where
  "map_ops_ok ops \<longleftrightarrow>
     (\<forall>m k v m'. mo_insert ops m k v = Some m' \<longrightarrow> m' = m(k \<mapsto> v)) \<and>
     (\<forall>m ks. mo_keys ops m = Some ks \<longrightarrow> set ks = dom m) \<and>
     (\<forall>m k. mo_remove ops m k = m(k := None))"

record sync_env =
  se_listeners :: "(NativeListenerLookupKey, NativeListenerLookupValue) map_ops"
  se_targets :: "(NativeTargetKey, NativeTargetValue) map_ops"
  se_chash_buckets :: "(NativeConsistentHashBucketKey, NativeConsistentHashBucketValue) map_ops"

definition sync_env_ok :: "sync_env \<Rightarrow> bool" where
  "sync_env_ok env \<longleftrightarrow> map_ops_ok (se_listeners env) \<and> map_ops_ok (se_targets env) \<and> map_ops_ok (se_chash_buckets env)"

datatype sync_error = InsertFailed | IterFailed | TooManyTargets u16 nat | IdError id_error

fun insert_steps ::
    "('k, 'v) map_ops \<Rightarrow> ('k \<rightharpoonup> 'v) \<Rightarrow> (sync_error + 'k \<times> 'v) list \<Rightarrow> sync_error option \<times> ('k \<rightharpoonup> 'v)" where
  "insert_steps ops m [] = (None, m)"
| "insert_steps ops m (Inl e # rest) = (Some e, m)"
| "insert_steps ops m (Inr (k, v) # rest) =
     (case mo_insert ops m k v of
        None \<Rightarrow> (Some InsertFailed, m)
      | Some m' \<Rightarrow> insert_steps ops m' rest)"

definition retain_keys :: "('k, 'v) map_ops \<Rightarrow> 'k set \<Rightarrow> ('k \<rightharpoonup> 'v) \<Rightarrow> sync_error option \<times> ('k \<rightharpoonup> 'v)" where
  "retain_keys ops desired m =
     (case mo_keys ops m of
        None \<Rightarrow> (Some IterFailed, m)
      | Some existing \<Rightarrow> (None, foldl (\<lambda>m key. if key \<in> desired then m else mo_remove ops m key) m existing))"

fun step_keys :: "(sync_error + 'k \<times> 'v) list \<Rightarrow> 'k set" where
  "step_keys [] = {}"
| "step_keys (Inl e # rest) = step_keys rest"
| "step_keys (Inr (k, v) # rest) = insert k (step_keys rest)"

text \<open>Insert everything that is desired, then remove what is not.\<close>

definition sync_map ::
    "('k, 'v) map_ops \<Rightarrow> (sync_error + 'k \<times> 'v) list \<Rightarrow> ('k \<rightharpoonup> 'v) \<Rightarrow> sync_error option \<times> ('k \<rightharpoonup> 'v)" where
  "sync_map ops steps m =
     (case insert_steps ops m steps of
        (Some e, m') \<Rightarrow> (Some e, m')
      | (None, m') \<Rightarrow> retain_keys ops (step_keys steps) m')"

section \<open>Desired entries\<close>

definition validate_listener_target_count :: "NativeListener \<Rightarrow> sync_error option" where
  "validate_listener_target_count listener =
     (if length (nl_targets listener) > 64
      then Some (TooManyTargets (key_vip_port (nl_key listener)) (length (nl_targets listener))) else None)"

definition lookup_key :: "NativeListener \<Rightarrow> NativeListenerLookupKey" where
  "lookup_key listener = \<lparr>lk_vip = key_vip_ip (nl_key listener), lk_port = to_be16 (key_vip_port (nl_key listener)),
     lk_proto = ip_proto (key_protocol (nl_key listener)), lk_pad = 0\<rparr>"

definition weight_total :: "TargetHealthEntry list option \<Rightarrow> NativeListener \<Rightarrow> u32" where
  "weight_total observed listener =
     sum_list (filter (\<lambda>weight. weight > 0) (map nt_weight
       (filter (native_target_is_active observed listener) (nl_targets listener))))"

definition lookup_value :: "TargetHealthEntry list option \<Rightarrow> u32 \<Rightarrow> NativeListener \<Rightarrow> NativeListenerLookupValue" where
  "lookup_value observed listener_id listener =
     \<lparr>lv_listener_id = listener_id, lv_target_base = 0,
      lv_target_count = of_nat (length (nl_targets listener)),
      lv_weight_total = weight_total observed listener, lv_select = nl_select listener, lv_flags = 1,
      lv_timeout_secs = (if nl_select listener = select_code Persist then DEFAULT_PERSIST_TIMEOUT_SECS
        else nl_inactive_timeout_secs listener),
      lv_dscp = nl_dscp listener\<rparr>"

definition target_value :: "NativeTarget \<Rightarrow> NativeTargetValue" where
  "target_value target = \<lparr>tv_address = nt_address target, tv_port = nt_port target,
     tv_weight = ucast (min (nt_weight target) 0xffff), tv_flags = 1\<rparr>"

definition active_targets ::
    "TargetHealthEntry list option \<Rightarrow> NativeListener \<Rightarrow> (nat \<times> NativeTarget) list" where
  "active_targets observed listener =
     filter (\<lambda>(_, target). native_target_is_active observed listener target) (enumerate 0 (nl_targets listener))"

definition listener_steps ::
    "TargetHealthEntry list option \<Rightarrow> (u32 \<times> NativeListener) list \<Rightarrow>
     (sync_error + NativeListenerLookupKey \<times> NativeListenerLookupValue) list" where
  "listener_steps observed ids = map (\<lambda>(i, l). Inr (lookup_key l, lookup_value observed i l)) ids"

definition target_entries ::
    "TargetHealthEntry list option \<Rightarrow> u32 \<times> NativeListener \<Rightarrow> (NativeTargetKey \<times> NativeTargetValue) list" where
  "target_entries observed il =
     map (\<lambda>(target_id, target). (\<lparr>tk_listener_id = fst il, tk_target_id = of_nat target_id\<rparr>, target_value target))
       (active_targets observed (snd il))"

definition target_steps ::
    "TargetHealthEntry list option \<Rightarrow> (u32 \<times> NativeListener) list \<Rightarrow>
     (sync_error + NativeTargetKey \<times> NativeTargetValue) list" where
  "target_steps observed ids = concat (map (\<lambda>il.
     case validate_listener_target_count (snd il) of
       Some e \<Rightarrow> [Inl e]
     | None \<Rightarrow> map Inr (target_entries observed il)) ids)"

fun choose_from :: "u32 \<Rightarrow> u32 option \<Rightarrow> u64 \<Rightarrow> (u32 \<times> NativeTargetValue) list \<Rightarrow> u32 option" where
  "choose_from bucket selected best_score [] = selected"
| "choose_from bucket selected best_score ((target_id, target) # rest) =
     (let score = native_consistent_bucket_score bucket target in
      if selected = None \<or> score > best_score then choose_from bucket (Some target_id) score rest
      else choose_from bucket selected best_score rest)"

definition choose_consistent_hash_bucket_target :: "u32 \<Rightarrow> (u32 \<times> NativeTargetValue) list \<Rightarrow> u32 option" where
  "choose_consistent_hash_bucket_target bucket targets = choose_from bucket None 0 targets"

definition bucket_candidates ::
    "TargetHealthEntry list option \<Rightarrow> NativeListener \<Rightarrow> (u32 \<times> NativeTargetValue) list" where
  "bucket_candidates observed listener =
     map (\<lambda>(target_id, target). (of_nat target_id, target_value target))
       (filter (\<lambda>(_, target). nt_weight target \<noteq> 0) (active_targets observed listener))"

definition bucket_entries ::
    "TargetHealthEntry list option \<Rightarrow> u32 \<times> NativeListener \<Rightarrow>
     (NativeConsistentHashBucketKey \<times> NativeConsistentHashBucketValue) list" where
  "bucket_entries observed il =
     (if nl_select (snd il) \<noteq> select_code ConsistentHash then []
      else let targets = bucket_candidates observed (snd il) in
        if targets = [] then []
        else List.map_filter (\<lambda>bucket.
          map_option (\<lambda>target_id. (\<lparr>bk_listener_id = fst il, bk_bucket = of_nat bucket\<rparr>, \<lparr>bv_target_id = target_id\<rparr>))
            (choose_consistent_hash_bucket_target (of_nat bucket) targets)) [0..<1024])"

fun desired_consistent_hash_buckets ::
    "TargetHealthEntry list option \<Rightarrow> (u32 \<times> NativeListener) list \<Rightarrow>
     sync_error + (NativeConsistentHashBucketKey \<times> NativeConsistentHashBucketValue) list" where
  "desired_consistent_hash_buckets observed [] = Inr []"
| "desired_consistent_hash_buckets observed (il # rest) =
     (case validate_listener_target_count (snd il) of
        Some e \<Rightarrow> Inl e
      | None \<Rightarrow>
          (case desired_consistent_hash_buckets observed rest of
             Inl e \<Rightarrow> Inl e
           | Inr entries \<Rightarrow> Inr (bucket_entries observed il @ entries)))"

section \<open>Synchronisation\<close>

text \<open>Each of the three synchronisers reads the observed health anew.\<close>

definition sync_listener_map ::
    "sync_env \<Rightarrow> TargetHealthEntry list option \<Rightarrow> (u32 \<times> NativeListener) list \<Rightarrow> dp \<Rightarrow> sync_error option \<times> dp" where
  "sync_listener_map env observed ids d =
     (case sync_map (se_listeners env) (listener_steps observed ids) (dp_listeners d) of
        (e, m) \<Rightarrow> (e, d\<lparr>dp_listeners := m\<rparr>))"

definition sync_target_map ::
    "sync_env \<Rightarrow> TargetHealthEntry list option \<Rightarrow> (u32 \<times> NativeListener) list \<Rightarrow> dp \<Rightarrow> sync_error option \<times> dp" where
  "sync_target_map env observed ids d =
     (case sync_map (se_targets env) (target_steps observed ids) (dp_targets d) of
        (e, m) \<Rightarrow> (e, d\<lparr>dp_targets := m\<rparr>))"

definition sync_consistent_hash_bucket_map ::
    "sync_env \<Rightarrow> TargetHealthEntry list option \<Rightarrow> (u32 \<times> NativeListener) list \<Rightarrow> dp \<Rightarrow> sync_error option \<times> dp" where
  "sync_consistent_hash_bucket_map env observed ids d =
     (case desired_consistent_hash_buckets observed ids of
        Inl e \<Rightarrow> (Some e, d)
      | Inr entries \<Rightarrow>
          (case sync_map (se_chash_buckets env) (map Inr entries) (dp_chash_buckets d) of
             (e, m) \<Rightarrow> (e, d\<lparr>dp_chash_buckets := m\<rparr>)))"

record observations =
  ob_listeners :: "TargetHealthEntry list option"
  ob_targets :: "TargetHealthEntry list option"
  ob_buckets :: "TargetHealthEntry list option"

definition sync_pinned_datapath ::
    "sync_env \<Rightarrow> observations \<Rightarrow> NativeListener list \<Rightarrow> dp \<Rightarrow> sync_error option \<times> dp" where
  "sync_pinned_datapath env obs listeners d =
     (case stable_listener_assignments listeners of
        Inl e \<Rightarrow> (Some (IdError e), d)
      | Inr ids \<Rightarrow>
          (case sync_listener_map env (ob_listeners obs) ids d of
             (Some e, d1) \<Rightarrow> (Some e, d1)
           | (None, d1) \<Rightarrow>
               (case sync_target_map env (ob_targets obs) ids d1 of
                  (Some e, d2) \<Rightarrow> (Some e, d2)
                | (None, d2) \<Rightarrow> sync_consistent_hash_bucket_map env (ob_buckets obs) ids d2)))"

section \<open>What a successful synchronisation leaves in a map\<close>

lemma map_ops_okD:
  assumes "map_ops_ok ops"
  shows "mo_insert ops m k v = Some m' \<Longrightarrow> m' = m(k \<mapsto> v)" "mo_keys ops m = Some ks \<Longrightarrow> set ks = dom m"
    "mo_remove ops m k = m(k := None)"
  using assms by (auto simp: map_ops_ok_def)

lemma insert_steps_ok:
  assumes ops: "map_ops_ok ops" and "insert_steps ops m steps = (None, m')"
  shows "\<exists>kvs. steps = map Inr kvs \<and> m' = m ++ map_of (rev kvs)"
  using assms(2)
proof (induction steps arbitrary: m)
  case (Cons step rest)
  then obtain k v m1 where step: "step = Inr (k, v)" "mo_insert ops m k v = Some m1" "insert_steps ops m1 rest = (None, m')"
    by (cases step) (auto split: option.splits)
  then obtain kvs where kvs: "rest = map Inr kvs" "m' = m1 ++ map_of (rev kvs)" using Cons.IH by blast
  have "m1 = m ++ map_of [(k, v)]" using map_ops_okD(1) [OF ops step(2)] by simp
  then have "m' = m ++ map_of (rev ((k, v) # kvs))" using kvs(2) by simp
  then show ?case using kvs(1) step(1) by (intro exI [of _ "(k, v) # kvs"]) simp
qed simp

lemma foldl_remove:
  "foldl (\<lambda>m key. if key \<in> desired then m else m(key := None)) m ks = m |` (- (set ks - desired))"
  by (induction ks arbitrary: m) (auto simp: restrict_map_def fun_eq_iff)

lemma retain_keys_ok:
  assumes ops: "map_ops_ok ops" and "retain_keys ops desired m = (None, m')"
  shows "m' = m |` desired"
proof -
  obtain ks where ks: "mo_keys ops m = Some ks" using assms(2) by (auto simp: retain_keys_def split: option.splits)
  then have "m' = m |` (- (set ks - desired))"
    using assms(2) by (simp add: retain_keys_def map_ops_okD(3) [OF ops] foldl_remove cong: if_cong)
  then show ?thesis using map_ops_okD(2) [OF ops ks] by (auto simp: restrict_map_def fun_eq_iff)
qed

lemma step_keys_Inr: "step_keys (map Inr kvs) = fst ` set kvs"
proof (induction kvs)
  case (Cons kv kvs)
  then show ?case by (cases kv) simp
qed simp

lemma sync_map_ok:
  assumes ops: "map_ops_ok ops" and ok: "sync_map ops steps m = (None, m')"
  obtains kvs where "steps = map Inr kvs" "m' = map_of (rev kvs)"
proof -
  obtain m1 where m1: "insert_steps ops m steps = (None, m1)" "retain_keys ops (step_keys steps) m1 = (None, m')"
    using ok by (auto simp: sync_map_def split: prod.splits option.splits)
  obtain kvs where kvs: "steps = map Inr kvs" "m1 = m ++ map_of (rev kvs)"
    using insert_steps_ok [OF ops m1(1)] by blast
  have "m' = (m ++ map_of (rev kvs)) |` (fst ` set kvs)"
    using retain_keys_ok [OF ops m1(2)] kvs step_keys_Inr by metis
  also have "\<dots> = map_of (rev kvs)"
  proof
    fix k
    have "map_of (rev kvs) k = None \<longleftrightarrow> k \<notin> fst ` set kvs" by (simp add: map_of_eq_None_iff)
    then show "((m ++ map_of (rev kvs)) |` (fst ` set kvs)) k = map_of (rev kvs) k"
      by (cases "map_of (rev kvs) k") (simp_all add: restrict_map_def map_add_def)
  qed
  finally show thesis using that kvs(1) by blast
qed

lemma map_of_rev_distinct: "distinct (map fst kvs) \<Longrightarrow> map_of (rev kvs) k = Some v \<longleftrightarrow> (k, v) \<in> set kvs"
  using map_of_eq_Some_iff [of "rev kvs" k v] by (simp flip: rev_map)

section \<open>What the selectors find in the synchronised maps\<close>

lemma lookup_key_inj: "lookup_key a = lookup_key b \<longleftrightarrow> nl_key a = nl_key b"
  by (cases "nl_key a"; cases "nl_key b"; cases "key_protocol (nl_key a)"; cases "key_protocol (nl_key b)")
     (auto simp: lookup_key_def)

lemma target_steps_ok:
  "target_steps observed ids = map Inr kvs \<Longrightarrow>
   kvs = concat (map (target_entries observed) ids) \<and> (\<forall>il\<in>set ids. length (nl_targets (snd il)) \<le> 64)"
proof (induction ids arbitrary: kvs)
  case (Cons il ids)
  show ?case
  proof (cases "validate_listener_target_count (snd il)")
    case None
    then have *: "map Inr kvs = map Inr (target_entries observed il) @ target_steps observed ids"
      using Cons.prems by (simp add: target_steps_def)
    then obtain k1 k2 where k: "kvs = k1 @ k2" "(map Inr (target_entries observed il) :: (sync_error + _) list) = map Inr k1"
      "target_steps observed ids = map Inr k2" unfolding map_eq_append_conv by blast
    from k(2) have "map projr (map Inr (target_entries observed il) :: (sync_error + _) list) = map projr (map Inr k1 :: (sync_error + _) list)"
      by (rule arg_cong)
    then have "target_entries observed il = k1" by (simp add: comp_def)
    then show ?thesis using Cons.IH [OF k(3)] k(1) None
      by (auto simp: validate_listener_target_count_def split: if_splits)
  next
    case (Some e)
    then show ?thesis using Cons.prems by (cases kvs) (simp_all add: target_steps_def)
  qed
qed (simp add: target_steps_def)

lemma active_targets_mem:
  "(j, t) \<in> set (active_targets observed l) \<longleftrightarrow>
   j < length (nl_targets l) \<and> t = nl_targets l ! j \<and> native_target_is_active observed l t"
  by (auto simp: active_targets_def in_set_enumerate_eq)

lemma target_entries_mem:
  assumes "length (nl_targets l) \<le> 64" "j < 64"
  shows "(\<lparr>tk_listener_id = i, tk_target_id = of_nat j\<rparr>, v) \<in> set (target_entries observed (i, l)) \<longleftrightarrow>
    j < length (nl_targets l) \<and> native_target_is_active observed l (nl_targets l ! j) \<and> v = target_value (nl_targets l ! j)"
proof -
  have inj: "(of_nat j :: u32) = of_nat k \<longleftrightarrow> j = k" if "k < 64" for k
  proof
    assume "(of_nat j :: u32) = of_nat k"
    then have "unat (of_nat j :: u32) = unat (of_nat k :: u32)" by simp
    then show "j = k" using that assms(2) by (simp add: unat_of_nat_lt)
  qed simp
  have "(\<lparr>tk_listener_id = i, tk_target_id = of_nat j\<rparr>, v) \<in> set (target_entries observed (i, l)) \<longleftrightarrow>
    (\<exists>k t. (k, t) \<in> set (active_targets observed l) \<and> (of_nat j :: u32) = of_nat k \<and> v = target_value t)"
    by (force simp: target_entries_def image_iff)
  also have "\<dots> \<longleftrightarrow> (\<exists>t. (j, t) \<in> set (active_targets observed l) \<and> v = target_value t)"
    using inj assms(1) by (metis active_targets_mem order_less_le_trans)
  also have "\<dots> \<longleftrightarrow> j < length (nl_targets l) \<and> native_target_is_active observed l (nl_targets l ! j) \<and> v = target_value (nl_targets l ! j)"
    by (auto simp: active_targets_mem)
  finally show ?thesis .
qed

lemma target_entries_ids: "k \<in> fst ` set (target_entries observed il) \<Longrightarrow> tk_listener_id k = fst il"
  by (auto simp: target_entries_def)

lemma distinct_target_entries:
  assumes "length (nl_targets (snd il)) \<le> 64"
  shows "distinct (map fst (target_entries observed il))"
proof -
  have "map fst (target_entries observed il) = map (\<lambda>j. \<lparr>tk_listener_id = fst il, tk_target_id = of_nat j\<rparr>)
      (map fst (active_targets observed (snd il)))"
    by (simp add: target_entries_def comp_def case_prod_beta)
  moreover have "distinct (map fst (active_targets observed (snd il)))"
    unfolding active_targets_def by (rule distinct_map_filter) simp
  moreover have "inj_on (\<lambda>j. \<lparr>tk_listener_id = fst il, tk_target_id = of_nat j :: u32\<rparr>) (set (map fst (active_targets observed (snd il))))"
  proof (rule inj_onI)
    fix j k
    assume "j \<in> set (map fst (active_targets observed (snd il)))" "k \<in> set (map fst (active_targets observed (snd il)))"
      "\<lparr>tk_listener_id = fst il, tk_target_id = of_nat j :: u32\<rparr> = \<lparr>tk_listener_id = fst il, tk_target_id = of_nat k\<rparr>"
    then have "j < 64" "k < 64" "unat (of_nat j :: u32) = unat (of_nat k :: u32)"
      using assms by (auto simp: active_targets_mem)
    then show "j = k" by (simp add: unat_of_nat_lt)
  qed
  ultimately show ?thesis by (simp only: distinct_map [of _ "map fst (active_targets observed (snd il))"])
qed

lemma distinct_all_target_entries:
  assumes "distinct (map fst ids)" "\<forall>il\<in>set ids. length (nl_targets (snd il)) \<le> 64"
  shows "distinct (map fst (concat (map (target_entries observed) ids)))"
  using assms
proof (induction ids)
  case (Cons il ids)
  have "fst ` set (target_entries observed il) \<inter> fst ` set (concat (map (target_entries observed) ids)) = {}"
  proof -
    have "tk_listener_id k \<in> fst ` set ids" if "k \<in> fst ` set (concat (map (target_entries observed) ids))" for k
    proof -
      from that obtain jl where "jl \<in> set ids" "k \<in> fst ` set (target_entries observed jl)" by auto
      then show ?thesis using target_entries_ids [of k observed jl] by simp
    qed
    moreover have "tk_listener_id k = fst il" if "k \<in> fst ` set (target_entries observed il)" for k
      by (rule target_entries_ids [OF that])
    moreover have "fst il \<notin> fst ` set ids" using Cons.prems(1) by simp
    ultimately show ?thesis by (metis disjoint_iff)
  qed
  then show ?case using Cons distinct_target_entries [of il observed] by simp
qed simp

lemma sync_pinned_datapath_ok:
  assumes env: "sync_env_ok env" and ok: "sync_pinned_datapath env obs ls d = (None, d')"
  obtains ids entries where "stable_listener_assignments ls = Inr ids"
    "dp_listeners d' = map_of (rev (map (\<lambda>(i, l). (lookup_key l, lookup_value (ob_listeners obs) i l)) ids))"
    "dp_targets d' = map_of (rev (concat (map (target_entries (ob_targets obs)) ids)))"
    "\<forall>il\<in>set ids. length (nl_targets (snd il)) \<le> 64"
    "desired_consistent_hash_buckets (ob_buckets obs) ids = Inr entries"
    "dp_chash_buckets d' = map_of (rev entries)"
    "dp_flows d' = dp_flows d" "dp_active_flows d' = dp_active_flows d" "dp_rr_counters d' = dp_rr_counters d"
proof -
  obtain ids where ids: "stable_listener_assignments ls = Inr ids"
    using ok by (auto simp: sync_pinned_datapath_def split: sum.splits)
  obtain d1 where d1: "sync_listener_map env (ob_listeners obs) ids d = (None, d1)"
    using ok ids by (auto simp: sync_pinned_datapath_def split: prod.splits option.splits)
  obtain d2 where d2: "sync_target_map env (ob_targets obs) ids d1 = (None, d2)"
    using ok ids d1 by (auto simp: sync_pinned_datapath_def split: prod.splits option.splits)
  have d3: "sync_consistent_hash_bucket_map env (ob_buckets obs) ids d2 = (None, d')"
    using ok ids d1 d2 by (simp add: sync_pinned_datapath_def)
  obtain m1 where m1: "sync_map (se_listeners env) (listener_steps (ob_listeners obs) ids) (dp_listeners d) = (None, m1)"
    "d1 = d\<lparr>dp_listeners := m1\<rparr>" using d1 by (auto simp: sync_listener_map_def split: prod.splits)
  obtain m2 where m2: "sync_map (se_targets env) (target_steps (ob_targets obs) ids) (dp_targets d1) = (None, m2)"
    "d2 = d1\<lparr>dp_targets := m2\<rparr>" using d2 by (auto simp: sync_target_map_def split: prod.splits)
  obtain entries m3 where entries: "desired_consistent_hash_buckets (ob_buckets obs) ids = Inr entries"
    and m3: "sync_map (se_chash_buckets env) (map Inr entries) (dp_chash_buckets d2) = (None, m3)" "d' = d2\<lparr>dp_chash_buckets := m3\<rparr>"
    using d3 by (auto simp: sync_consistent_hash_bucket_map_def split: prod.splits sum.splits)
  have ops: "map_ops_ok (se_listeners env)" "map_ops_ok (se_targets env)" "map_ops_ok (se_chash_buckets env)"
    using env by (simp_all add: sync_env_ok_def)
  have projr: "kvs = map projr (map Inr kvs :: (sync_error + _) list)" for kvs :: "('a \<times> 'b) list"
    by (simp add: comp_def)
  obtain k1 where k1: "listener_steps (ob_listeners obs) ids = map Inr k1" "m1 = map_of (rev k1)"
    by (rule sync_map_ok [OF ops(1) m1(1)])
  have "map projr (listener_steps (ob_listeners obs) ids) = map (\<lambda>(i, l). (lookup_key l, lookup_value (ob_listeners obs) i l)) ids"
    by (simp add: listener_steps_def case_prod_beta comp_def)
  then have k1': "k1 = map (\<lambda>(i, l). (lookup_key l, lookup_value (ob_listeners obs) i l)) ids"
    using projr [of k1] k1(1) by simp
  obtain k2 where k2: "target_steps (ob_targets obs) ids = map Inr k2" "m2 = map_of (rev k2)"
    by (rule sync_map_ok [OF ops(2) m2(1)])
  obtain k3 where k3: "map Inr entries = (map Inr k3 :: (sync_error + _) list)" "m3 = map_of (rev k3)"
    by (rule sync_map_ok [OF ops(3) m3(1)])
  have "k3 = entries" using projr [of k3] projr [of entries] k3(1) by metis
  then show thesis
    using that [OF ids _ _ _ entries] k1' k1(2) k2(2) k3(2) target_steps_ok [OF k2(1)] m1(2) m2(2) m3(2) by simp
qed

lemma unat_sum_list: "sum_list (map unat ws) < 2 ^ LENGTH('a) \<Longrightarrow> unat (sum_list ws) = sum_list (map unat ws)"
  for ws :: "'a::len word list"
proof (induction ws)
  case (Cons w ws)
  then show ?case using unat_add_lt [of w "sum_list ws"] by simp
qed simp

lemma sum_list_filter_pos: "sum_list (filter (\<lambda>w. w > 0) ws) = sum_list ws" for ws :: "'a::len word list"
  by (induction ws) (auto simp: word_less_nat_alt unat_eq_zero)

lemma sum_list_bound: "\<forall>x\<in>set xs. x \<le> b \<Longrightarrow> sum_list xs \<le> length xs * b" for b :: nat
  by (induction xs) auto

text \<open>The listener's weight sum as a natural number, when it fits 32 bits, and so when no weight exceeds
  what a target slot can hold.\<close>

lemma unat_weight_total_fits:
  assumes "sum_list (map (\<lambda>t. unat (nt_weight t)) (nl_targets l)) < 2 ^ 32"
  shows "unat (weight_total observed l) =
    sum_list (map (\<lambda>t. if native_target_is_active observed l t then unat (nt_weight t) else 0) (nl_targets l))"
proof -
  let ?act = "filter (native_target_is_active observed l) (nl_targets l)"
  let ?sum = "sum_list (map (\<lambda>t. if native_target_is_active observed l t then unat (nt_weight t) else 0) (nl_targets l))"
  have eq: "sum_list (map unat (map nt_weight ?act)) = ?sum"
    by (induction "nl_targets l") (simp_all add: sum_list_map_filter' comp_def)
  have "?sum \<le> sum_list (map (\<lambda>t. unat (nt_weight t)) (nl_targets l))" by (rule sum_list_mono) simp
  then have "unat (sum_list (map nt_weight ?act)) = ?sum"
    using assms eq unat_sum_list [of "map nt_weight ?act"] by simp
  then show ?thesis by (simp add: weight_total_def sum_list_filter_pos)
qed

lemma unat_weight_total:
  assumes "length (nl_targets l) \<le> 64" "\<forall>t\<in>set (nl_targets l). nt_weight t \<le> 0xffff"
  shows "unat (weight_total observed l) =
    sum_list (map (\<lambda>t. if native_target_is_active observed l t then unat (nt_weight t) else 0) (nl_targets l))"
proof (rule unat_weight_total_fits)
  have "sum_list (map (\<lambda>t. unat (nt_weight t)) (nl_targets l)) \<le> length (map (\<lambda>t. unat (nt_weight t)) (nl_targets l)) * 65535"
    by (rule sum_list_bound) (use assms(2) in \<open>auto simp: word_le_nat_alt\<close>)
  also have "\<dots> \<le> 64 * 65535" using assms(1) by simp
  finally show "sum_list (map (\<lambda>t. unat (nt_weight t)) (nl_targets l)) < 2 ^ 32" by simp
qed

text \<open>A listener of a synchronised map, with its slots.\<close>

lemma synced_slot:
  assumes ids: "distinct (map fst ids)" "\<forall>il\<in>set ids. length (nl_targets (snd il)) \<le> 64" "(i, l) \<in> set ids"
    and targets: "dp_targets d = map_of (rev (concat (map (target_entries observed) ids)))" and j: "j < 64"
  shows "dp_targets d \<lparr>tk_listener_id = i, tk_target_id = of_nat j\<rparr> =
    (if j < length (nl_targets l) \<and> native_target_is_active observed l (nl_targets l ! j)
     then Some (target_value (nl_targets l ! j)) else None)"
proof -
  let ?k = "\<lparr>tk_listener_id = i, tk_target_id = of_nat j :: u32\<rparr>"
  have len: "length (nl_targets l) \<le> 64" using ids by auto
  have unique: "il = (i, l)" if "il \<in> set ids" "fst il = i" for il
    using that ids(1,3) by (auto simp: distinct_map inj_on_def)
  have "(?k, v) \<in> set (concat (map (target_entries observed) ids)) \<longleftrightarrow> (?k, v) \<in> set (target_entries observed (i, l))" for v
  proof
    assume "(?k, v) \<in> set (concat (map (target_entries observed) ids))"
    then obtain il where "il \<in> set ids" "(?k, v) \<in> set (target_entries observed il)" by auto
    moreover have "fst il = i" using target_entries_ids [of ?k observed il] calculation(2) by force
    ultimately show "(?k, v) \<in> set (target_entries observed (i, l))" using unique by auto
  qed (use ids(3) in auto)
  then have "dp_targets d ?k = Some v \<longleftrightarrow> j < length (nl_targets l) \<and>
      native_target_is_active observed l (nl_targets l ! j) \<and> v = target_value (nl_targets l ! j)" for v
    unfolding targets map_of_rev_distinct [OF distinct_all_target_entries [OF ids(1,2)]]
    using target_entries_mem [OF len j] by simp
  then show ?thesis by (cases "dp_targets d ?k") auto
qed

lemma target_value_usable [simp]:
  "tv_flags (target_value t) AND 1 \<noteq> 0" "tv_weight (target_value t) > 0 \<longleftrightarrow> nt_weight t \<noteq> 0"
  "unat (tv_weight (target_value t)) = min (unat (nt_weight t)) 65535"
proof -
  have u: "unat (tv_weight (target_value t)) = min (unat (nt_weight t)) 65535"
  proof -
    have "unat (min (nt_weight t) 0xffff) = min (unat (nt_weight t)) 65535"
      by (simp add: min_def word_le_nat_alt)
    then have "unat (ucast (min (nt_weight t) 0xffff) :: u16) = min (unat (nt_weight t)) 65535 mod 65536"
      by (simp add: unsigned_ucast_eq take_bit_eq_mod)
    then show ?thesis by (simp add: target_value_def)
  qed
  then show "unat (tv_weight (target_value t)) = min (unat (nt_weight t)) 65535" .
  show "tv_weight (target_value t) > 0 \<longleftrightarrow> nt_weight t \<noteq> 0"
    using u by (auto simp: word_less_nat_alt unat_eq_zero unat_gt_0 min_def split: if_splits)
qed (simp add: target_value_def)

lemma assignment_member:
  assumes "stable_listener_assignments ls = Inr ids"
  shows "map snd ids = sort_key listener_sort_key ls" "distinct (map fst ids)" "set (map fst ids) \<subseteq> id_range"
proof -
  have "length ls \<le> 4096" using assms by (auto simp: stable_listener_assignments_def split: if_splits)
  then obtain out where "stable_listener_assignments ls = Inr out" "map snd out = sort_key listener_sort_key ls"
    "distinct (map fst out)" "set (map fst out) \<subseteq> id_range" by (rule stable_assignments_spec)
  then show "map snd ids = sort_key listener_sort_key ls" "distinct (map fst ids)" "set (map fst ids) \<subseteq> id_range"
    using assms by simp_all
qed

lemma synced_listener:
  assumes ids: "stable_listener_assignments ls = Inr ids" and keys: "distinct (map nl_key ls)" "n \<in> set ls"
    and listeners: "dp_listeners d = map_of (rev (map (\<lambda>(i, l). (lookup_key l, lookup_value observed i l)) ids))"
  obtains i where "(i, n) \<in> set ids" "dp_listeners d (lookup_key n) = Some (lookup_value observed i n)"
proof -
  have "n \<in> set (map snd ids)" using assignment_member(1) [OF ids] keys(2) by simp
  then obtain i where i: "(i, n) \<in> set ids" by auto
  have "distinct (map nl_key (map snd ids))"
    using keys(1) unfolding assignment_member(1) [OF ids] by (simp add: distinct_map)
  then have "distinct (map lookup_key (map snd ids))"
    by (simp add: distinct_map inj_on_def lookup_key_inj)
  then have "distinct (map fst (map (\<lambda>(i, l). (lookup_key l, lookup_value observed i l)) ids))"
    by (simp add: comp_def case_prod_beta)
  then have "dp_listeners d (lookup_key n) = Some (lookup_value observed i n)"
    unfolding listeners by (subst map_of_rev_distinct) (use i in force)+
  with i that show thesis by blast
qed

text \<open>The abstraction of the maps: listener \<open>n\<close> is published with identifier \<open>i\<close> under the observed health.\<close>

definition published :: "TargetHealthEntry list option \<Rightarrow> NativeListener \<Rightarrow> u32 \<Rightarrow> dp \<Rightarrow> bool" where
  "published observed n i d \<longleftrightarrow>
     dp_listeners d (lookup_key n) = Some (lookup_value observed i n) \<and> length (nl_targets n) \<le> 64 \<and>
     (\<forall>j<64. dp_targets d \<lparr>tk_listener_id = i, tk_target_id = of_nat j\<rparr> =
       (if j < length (nl_targets n) \<and> native_target_is_active observed n (nl_targets n ! j)
        then Some (target_value (nl_targets n ! j)) else None))"

lemma sync_publishes:
  assumes env: "sync_env_ok env" and ok: "sync_pinned_datapath env obs ls d = (None, d')"
    and same: "ob_targets obs = ob_listeners obs" and keys: "distinct (map nl_key ls)" "n \<in> set ls"
  obtains i where "published (ob_listeners obs) n i d'"
proof (rule sync_pinned_datapath_ok [OF env ok])
  fix ids entries
  assume ids: "stable_listener_assignments ls = Inr ids"
    and maps: "dp_listeners d' = map_of (rev (map (\<lambda>(i, l). (lookup_key l, lookup_value (ob_listeners obs) i l)) ids))"
    "dp_targets d' = map_of (rev (concat (map (target_entries (ob_targets obs)) ids)))"
    and counts: "\<forall>il\<in>set ids. length (nl_targets (snd il)) \<le> 64"
  obtain i where i: "(i, n) \<in> set ids" "dp_listeners d' (lookup_key n) = Some (lookup_value (ob_listeners obs) i n)"
    by (rule synced_listener [OF ids keys maps(1)])
  have "length (nl_targets n) \<le> 64" using counts i(1) by auto
  then have "published (ob_listeners obs) n i d'"
    unfolding published_def
    using i(2) synced_slot [OF assignment_member(2) [OF ids] counts i(1) maps(2) [unfolded same]] by blast
  then show thesis by (rule that)
qed

lemma published_usable:
  assumes "published observed n i d" "j < 64"
  shows "target_slot_is_usable d i (of_nat j) \<longleftrightarrow>
    j < length (nl_targets n) \<and> native_target_is_active observed n (nl_targets n ! j) \<and> nt_weight (nl_targets n ! j) \<noteq> 0"
  using assms by (auto simp: published_def target_slot_is_usable_def split: if_splits)

lemma published_weights:
  assumes pub: "published observed n i d" and weights: "\<forall>t\<in>set (nl_targets n). nt_weight t \<le> 0xffff"
  shows "weight_before d i 0 (length (nl_targets n)) = unat (weight_total observed n)"
proof -
  have len: "length (nl_targets n) \<le> 64" using pub by (simp add: published_def)
  have "slot_weight d i j = (if native_target_is_active observed n (nl_targets n ! j) then unat (nt_weight (nl_targets n ! j)) else 0)"
    if "j < length (nl_targets n)" for j
  proof -
    have "nt_weight (nl_targets n ! j) \<le> 0xffff" using weights that by simp
    then have "unat (nt_weight (nl_targets n ! j)) \<le> 65535" by (simp add: word_le_nat_alt)
    then show ?thesis using pub that len by (simp add: published_def slot_weight_def)
  qed
  then have "map (slot_weight d i) [0..<length (nl_targets n)] =
      map (\<lambda>t. if native_target_is_active observed n t then unat (nt_weight t) else 0) (nl_targets n)"
    by (intro nth_equalityI) simp_all
  then show ?thesis using unat_weight_total [OF len weights] by metis
qed

lemma published_slot_count:
  assumes "published observed n i d"
  shows "slot_count (lookup_value observed i n) = of_nat (length (nl_targets n))"
    "unat (slot_count (lookup_value observed i n)) = length (nl_targets n)"
proof -
  have "length (nl_targets n) \<le> 64" using assms by (simp add: published_def)
  then have "unat (of_nat (length (nl_targets n)) :: u32) = length (nl_targets n)" by (simp add: unat_of_nat_lt)
  moreover have "slot_count (lookup_value observed i n) = of_nat (length (nl_targets n))"
    using calculation \<open>length (nl_targets n) \<le> 64\<close> word_unat_eq_iff [of "64 :: u32"]
    by (simp add: slot_count_def lookup_value_def word_less_nat_alt not_less)
  ultimately show "slot_count (lookup_value observed i n) = of_nat (length (nl_targets n))"
    "unat (slot_count (lookup_value observed i n)) = length (nl_targets n)" by simp_all
qed

lemma published_weights_agree:
  assumes pub: "published observed n i d" and weights: "\<forall>t\<in>set (nl_targets n). nt_weight t \<noteq> 0 \<and> nt_weight t \<le> 0xffff"
    and live: "j < length (nl_targets n)" "native_target_is_active observed n (nl_targets n ! j)"
  shows "weights_agree (lookup_value observed i n) (slot_count (lookup_value observed i n)) d"
proof -
  have w: "weight_before d i 0 (length (nl_targets n)) = unat (weight_total observed n)"
    by (rule published_weights [OF pub]) (use weights in simp)
  have len: "length (nl_targets n) \<le> 64" using pub by (simp add: published_def)
  have "0 < slot_weight d i j"
    using published_usable [OF pub, of j] live len weights slot_weight_usable [of d i j] by simp
  also have "\<dots> \<le> weight_before d i 0 (length (nl_targets n))"
    using live(1) by (intro member_le_sum_list) simp_all
  finally have "weight_total observed n \<noteq> 0" unfolding w by (auto simp: unat_gt_0)
  then show ?thesis
    using w published_slot_count [OF pub] by (simp add: weights_agree_def lookup_value_def)
qed

definition self_contained_modes :: "u32 set" where
  "self_contained_modes = {NATIVE_SELECT_HASH, NATIVE_SELECT_PRIORITY, NATIVE_SELECT_PERSIST, NATIVE_SELECT_CONSISTENT_HASH}"

lemma published_picks:
  assumes pub: "published observed n i d" and weights: "\<forall>t\<in>set (nl_targets n). nt_weight t \<noteq> 0 \<and> nt_weight t \<le> 0xffff"
    and live: "j < length (nl_targets n)" "native_target_is_active observed n (nl_targets n ! j)"
    and v: "v = lookup_value observed i n"
    and mode: "nl_select n \<in> self_contained_modes \<or> loads_below_max v (slot_count v) d"
    and t: "t = fst (select_target key v h d)"
  shows "unat t < length (nl_targets n) \<and> native_target_is_active observed n (nl_targets n ! unat t) \<and>
    dp_targets d \<lparr>tk_listener_id = i, tk_target_id = t\<rparr> = Some (target_value (nl_targets n ! unat t))"
proof -
  have len: "length (nl_targets n) \<le> 64" using pub by (simp add: published_def)
  have vf: "lv_listener_id v = i" "lv_select v = nl_select n" "lv_target_count v = of_nat (length (nl_targets n))"
    by (simp_all add: v lookup_value_def)
  have agree: "weights_agree v (slot_count v) d" unfolding v by (rule published_weights_agree [OF pub weights live])
  have slots: "unat (slot_count v) = length (nl_targets n)" unfolding v by (rule published_slot_count(2) [OF pub])
  have "lv_target_count v \<noteq> 0" "lv_weight_total v \<noteq> 0"
    using live(1) len agree vf(3) by (auto simp: weights_agree_def word_unat_eq_iff unat_of_nat_lt)
  then have "selector_ready v d"
    using mode agree unfolding selector_ready_def vf(2) self_contained_modes_def loads_below_max_def by auto
  note miss = select_target_miss_iff [OF this, of key h]
  have "target_slot_is_usable d i (of_nat j)"
    using published_usable [OF pub, of j] live len weights by simp
  moreover have "(of_nat j :: u32) < slot_count v"
    using live(1) len slots by (simp add: word_less_nat_alt unat_of_nat_lt)
  ultimately have "t \<noteq> 64" using miss t vf(1) by auto
  then have hit: "t < 64" "target_slot_is_usable d i t"
    using select_target_outcome [of key v h d t "snd (select_target key v h d)"] t vf(1) by auto
  then have "unat t < 64" by (simp add: word_less_nat_alt)
  from published_usable [OF pub this] hit(2) have sel: "unat t < length (nl_targets n)"
    "native_target_is_active observed n (nl_targets n ! unat t)" by simp_all
  moreover have "dp_targets d \<lparr>tk_listener_id = i, tk_target_id = of_nat (unat t)\<rparr> = Some (target_value (nl_targets n ! unat t))"
    using pub [unfolded published_def, THEN conjunct2, THEN conjunct2, rule_format, OF \<open>unat t < 64\<close>] sel by simp
  ultimately show ?thesis by simp
qed

text \<open>C19. From the configuration to the packet path.  After a successful synchronisation, a listener whose
  target weights fit a slot and of whose targets one is healthy is found under its VIP, port and protocol;
  its \<open>weight_total\<close> is the sum of the weights in its slots; and the selector of the eBPF program, in the
  modes hash, priority, persist and consistent-hash, and in the other modes while the cursor does not wrap
  and the loads are below \<open>u32::MAX\<close>, picks for every packet a healthy target of this listener with the
  configured address and port.\<close>

theorem synced_listener_selects:
  assumes env: "sync_env_ok env" and ok: "sync_pinned_datapath env obs ls d = (None, d')"
    and same: "ob_targets obs = ob_listeners obs"
    and keys: "distinct (map nl_key ls)" "n \<in> set ls"
    and weights: "\<forall>t\<in>set (nl_targets n). nt_weight t \<noteq> 0 \<and> nt_weight t \<le> 0xffff"
    and live: "\<exists>t\<in>set (nl_targets n). native_target_is_active (ob_listeners obs) n t"
  shows "\<exists>v. dp_listeners d' (lookup_key n) = Some v \<and> weights_agree v (slot_count v) d' \<and>
    (nl_select n \<in> self_contained_modes \<or> loads_below_max v (slot_count v) d' \<longrightarrow>
     (\<forall>key h. let t = fst (select_target key v h d') in
        unat t < length (nl_targets n) \<and> native_target_is_active (ob_listeners obs) n (nl_targets n ! unat t) \<and>
        dp_targets d' \<lparr>tk_listener_id = lv_listener_id v, tk_target_id = t\<rparr> = Some (target_value (nl_targets n ! unat t))))"
proof -
  let ?o = "ob_listeners obs"
  obtain i where pub: "published ?o n i d'" by (rule sync_publishes [OF env ok same keys])
  define v where "v = lookup_value ?o i n"
  obtain j where j: "j < length (nl_targets n)" "native_target_is_active ?o n (nl_targets n ! j)"
    using live by (auto simp: in_set_conv_nth)
  have "weights_agree v (slot_count v) d'"
    unfolding v_def by (rule published_weights_agree [OF pub weights j])
  with pub published_picks [OF pub weights j v_def] show ?thesis
    unfolding Let_def by (intro exI [of _ v]) (simp add: v_def lookup_value_def published_def)
qed

text \<open>Map operations that never fail while the keys stay within a given universe.\<close>

definition plain_ops :: "'k list \<Rightarrow> ('k, 'v) map_ops" where
  "plain_ops universe = \<lparr>mo_insert = (\<lambda>m k v. Some (m(k \<mapsto> v))),
     mo_keys = (\<lambda>m. if dom m \<subseteq> set universe then Some (filter (\<lambda>k. m k \<noteq> None) universe) else None),
     mo_remove = (\<lambda>m k. m(k := None))\<rparr>"

lemma plain_ops_sel [simp]:
  "mo_insert (plain_ops u) m k v = Some (m(k \<mapsto> v))"
  "mo_keys (plain_ops u) m = (if dom m \<subseteq> set u then Some (filter (\<lambda>k. m k \<noteq> None) u) else None)"
  "mo_remove (plain_ops u) m k = m(k := None)"
  by (simp_all add: plain_ops_def)

lemma plain_ops_ok: "map_ops_ok (plain_ops universe)"
  by (auto simp: map_ops_ok_def)

lemma plain_insert_steps: "insert_steps (plain_ops u) m (map Inr kvs) = (None, m ++ map_of (rev kvs))"
proof (induction kvs arbitrary: m)
  case (Cons kv kvs)
  obtain k v where kv: "kv = (k, v)" by (cases kv)
  have "m(k \<mapsto> v) = m ++ map_of [(k, v)]" by simp
  then have "m(k \<mapsto> v) ++ map_of (rev kvs) = m ++ map_of (rev (kv # kvs))" using kv by simp
  then show ?case
    unfolding kv by (simp only: list.map insert_steps.simps plain_ops_sel option.case Cons)
qed simp

lemma plain_sync_map:
  assumes "fst ` set kvs \<subseteq> set u" shows "\<exists>m. sync_map (plain_ops u) (map Inr kvs) Map.empty = (None, m)"
proof -
  have "dom (map_of (rev kvs)) \<subseteq> set u" using assms by (simp add: dom_map_of_conv_image_fst)
  then show ?thesis by (simp add: sync_map_def plain_insert_steps retain_keys_def)
qed

lemma probe_id_free: "i \<notin> used \<Longrightarrow> 0 < k \<Longrightarrow> probe_id k used i = Some i"
  by (cases k) simp_all

text \<open>An environment in which one listener with two targets can be synchronised.\<close>

definition env_for :: "NativeListener \<Rightarrow> sync_env" where
  "env_for n = \<lparr>se_listeners = plain_ops [lookup_key n],
     se_targets = plain_ops (map (\<lambda>j. \<lparr>tk_listener_id = stable_listener_id n, tk_target_id = j\<rparr>) [0, 1]),
     se_chash_buckets = plain_ops []\<rparr>"

definition no_health :: observations where
  "no_health = \<lparr>ob_listeners = None, ob_targets = None, ob_buckets = None\<rparr>"

lemma env_for_ok: "sync_env_ok (env_for n)"
  by (simp add: sync_env_ok_def env_for_def plain_ops_ok)

lemma sync_single:
  assumes two: "nl_targets n = [t0, t1]" and mode: "nl_select n \<noteq> select_code ConsistentHash"
  shows "\<exists>d'. sync_pinned_datapath (env_for n) no_health [n] fresh_dp = (None, d')"
proof -
  define i where "i = stable_listener_id n"
  have i: "assign_ids {} [n] = [(i, n)]" by (simp add: probe_id_free i_def)
  have a: "stable_listener_assignments [n] = Inr [(i, n)]"
    using i by (simp add: stable_listener_assignments_def)
  have t: "target_steps None [(i, n)] = map Inr (target_entries None (i, n))"
    by (simp add: target_steps_def validate_listener_target_count_def two)
  obtain m1 where m1: "sync_map (se_listeners (env_for n)) (listener_steps None [(i, n)]) Map.empty = (None, m1)"
    using plain_sync_map [of "[(lookup_key n, lookup_value None i n)]" "[lookup_key n]"]
    by (auto simp: env_for_def listener_steps_def)
  have keys: "fst ` set (target_entries None (i, n)) \<subseteq>
      set [\<lparr>tk_listener_id = i, tk_target_id = 0\<rparr>, \<lparr>tk_listener_id = i, tk_target_id = 1\<rparr>]"
    by (auto simp: target_entries_def active_targets_def two split: if_splits)
  obtain m2 where m2: "sync_map (se_targets (env_for n)) (target_steps None [(i, n)]) Map.empty = (None, m2)"
    unfolding t using plain_sync_map [OF keys] by (auto simp: env_for_def simp flip: i_def)
  obtain m3 where m3: "sync_map (se_chash_buckets (env_for n)) [] Map.empty = (None, m3)"
    using plain_sync_map [of "[]" "[]"] by (auto simp: env_for_def)
  have b: "desired_consistent_hash_buckets None [(i, n)] = Inr []"
    using mode by (simp add: validate_listener_target_count_def two bucket_entries_def)
  show ?thesis
    by (simp add: sync_pinned_datapath_def a no_health_def sync_listener_map_def sync_target_map_def
        sync_consistent_hash_bucket_map_def b m1 m2 m3 fresh_dp_def
        del: desired_consistent_hash_buckets.simps)
qed

theorem synced_listener_selects_witness:
  "\<exists>d' v. sync_pinned_datapath (env_for (sample_native 80 2)) no_health [sample_native 80 2] fresh_dp = (None, d') \<and>
     dp_listeners d' (lookup_key (sample_native 80 2)) = Some v \<and> weights_agree v (slot_count v) d'"
proof -
  let ?n = "sample_native 80 2"
  obtain d' where d': "sync_pinned_datapath (env_for ?n) no_health [?n] fresh_dp = (None, d')"
    using sync_single [of ?n] by (auto simp: sample_native_def)
  have "\<exists>v. dp_listeners d' (lookup_key ?n) = Some v \<and> weights_agree v (slot_count v) d'"
    using synced_listener_selects [OF env_for_ok d', of ?n]
    by (auto simp: no_health_def sample_native_def native_target_is_active_def observed_target_is_active_def)
  then show ?thesis using d' by blast
qed

section \<open>Consistent hashing moves only the buckets of a lost target\<close>

text \<open>Two runs of the loop, over all candidates and over those that satisfy \<open>P\<close>: they agree, or the first
  holds a candidate that the second skips and a score that is no lower.\<close>

definition choice_related :: "(u32 \<Rightarrow> bool) \<Rightarrow> u32 option \<times> u64 \<Rightarrow> u32 option \<times> u64 \<Rightarrow> bool" where
  "choice_related P full part \<longleftrightarrow>
     full = part \<or> (\<exists>s. fst full = Some s \<and> \<not> P s \<and> (fst part = None \<or> snd part \<le> snd full))"

lemma choose_from_filter:
  assumes "choose_from b sel best ts = Some t" "P t" "choice_related P (sel, best) (sel', best')"
  shows "choose_from b sel' best' (filter (P \<circ> fst) ts) = Some t"
  using assms
proof (induction ts arbitrary: sel best sel' best')
  case Nil
  then show ?case by (auto simp: choice_related_def)
next
  case (Cons x ts)
  obtain i v where x: "x = (i, v)" by (cases x)
  define c where "c = native_consistent_bucket_score b v"
  define full where "full = (if sel = None \<or> c > best then (Some i, c) else (sel, best))"
  define part where "part = (if P i then if sel' = None \<or> c > best' then (Some i, c) else (sel', best') else (sel', best'))"
  have "choose_from b (fst full) (snd full) ts = Some t"
    using Cons.prems(1) by (auto simp: x full_def c_def Let_def split: if_splits)
  moreover have "choice_related P (fst full, snd full) (fst part, snd part)"
    using Cons.prems(3) by (auto simp: choice_related_def full_def part_def)
  ultimately have "choose_from b (fst part) (snd part) (filter (P \<circ> fst) ts) = Some t"
    using Cons.IH Cons.prems(2) by blast
  then show ?case by (auto simp: x part_def c_def Let_def comp_def split: if_splits)
qed

lemma candidates_subset:
  assumes "\<forall>t. native_target_is_active o' l t \<longrightarrow> native_target_is_active observed l t" "length (nl_targets l) \<le> 64"
  shows "bucket_candidates o' l =
    filter ((\<lambda>i. native_target_is_active o' l (nl_targets l ! unat i)) \<circ> fst) (bucket_candidates observed l)"
proof -
  have idx: "j < length (nl_targets l) \<and> t = nl_targets l ! j \<and> unat (of_nat j :: u32) = j"
    if "(j, t) \<in> set (enumerate 0 (nl_targets l))" for j t
    using that assms(2) by (auto simp: in_set_enumerate_eq unat_of_nat_lt)
  have "active_targets o' l =
      filter (\<lambda>(j, _). native_target_is_active o' l (nl_targets l ! unat (of_nat j :: u32))) (active_targets observed l)"
    unfolding active_targets_def filter_filter using idx assms(1) by (intro filter_cong) auto
  then show ?thesis
    by (simp add: bucket_candidates_def filter_map comp_def case_prod_beta conj_commute)
qed

text \<open>C21. Minimal disruption.  If the targets that are healthy under \<open>o'\<close> are also healthy under \<open>observed\<close>,
  every bucket whose target is still healthy keeps its target, in both directions of the change: a
  target that goes down moves only its own buckets, and a target that comes back takes buckets but moves
  none between the others.  The choice depends neither on the VIP nor on the listener's key.\<close>

theorem bucket_choice_minimal_disruption:
  assumes "\<forall>t. native_target_is_active o' l t \<longrightarrow> native_target_is_active observed l t" "length (nl_targets l) \<le> 64"
    and chosen: "choose_consistent_hash_bucket_target b (bucket_candidates observed l) = Some t"
    and alive: "native_target_is_active o' l (nl_targets l ! unat t)"
  shows "choose_consistent_hash_bucket_target b (bucket_candidates o' l) = Some t"
  unfolding candidates_subset [OF assms(1,2)] choose_consistent_hash_bucket_target_def
  by (rule choose_from_filter [where P = "\<lambda>i. native_target_is_active o' l (nl_targets l ! unat i)",
        OF chosen [unfolded choose_consistent_hash_bucket_target_def] alive])
     (simp add: choice_related_def)

definition down_entry :: "string \<Rightarrow> TargetHealthEntry" where
  "down_entry name = \<lparr>th_target_group = ''g'', th_host_name = [], th_name = name, th_description = None,
     th_inactive_retries = None, th_probe_type = None, th_probe_req = None, th_probe_resp = None,
     th_probe_duration = None, th_probe_port = None, th_min_delay = None, th_avg_delay = None,
     th_max_delay = None, th_current_state = Some ''nok'', th_sync = None\<rparr>"

theorem bucket_choice_minimal_disruption_witness:
  "\<exists>b. choose_consistent_hash_bucket_target b
     (bucket_candidates (Some [down_entry (health_name ''g'' 0x0A000001 ''tcp'' 8080)]) (sample_native 80 5)) = Some 1"
proof
  let ?o = "Some [down_entry (health_name ''g'' 0x0A000001 ''tcp'' 8080)]" and ?l = "sample_native 80 5"
  show "choose_consistent_hash_bucket_target 1 (bucket_candidates ?o ?l) = Some 1"
  proof (rule bucket_choice_minimal_disruption)
    show "\<forall>t. native_target_is_active ?o ?l t \<longrightarrow> native_target_is_active None ?l t"
      by (simp add: native_target_is_active_def observed_target_is_active_def)
    show "length (nl_targets ?l) \<le> 64" by (simp add: sample_native_def)
    show "choose_consistent_hash_bucket_target 1 (bucket_candidates None ?l) = Some 1"
      by (simp add: choose_consistent_hash_bucket_target_def bucket_candidates_def active_targets_def sample_native_def
          native_target_is_active_def observed_target_is_active_def target_value_def
          native_consistent_bucket_score_def hash_step64_def mix64_def Let_def)
    show "native_target_is_active ?o ?l (nl_targets ?l ! unat (1 :: u32))"
      by (simp add: native_target_is_active_def observed_target_is_active_def sample_native_def down_entry_def health_name_def)
  qed
qed

section \<open>A weight above 65535\<close>

text \<open>A slot holds the weight cut down to 16 bits; \<open>weight_total\<close> adds up the configured weights.\<close>

lemma published_slot_weight:
  assumes "published observed n i d" "j < length (nl_targets n)"
  shows "slot_weight d i j =
    (if native_target_is_active observed n (nl_targets n ! j) then min (unat (nt_weight (nl_targets n ! j))) 65535 else 0)"
  using assms by (simp add: published_def slot_weight_def)

lemma overweight_gap:
  assumes pub: "published observed n i d" and fits: "sum_list (map (\<lambda>t. unat (nt_weight t)) (nl_targets n)) < 2 ^ 32"
    and over: "\<exists>t\<in>set (nl_targets n). native_target_is_active observed n t \<and> nt_weight t > 0xffff"
  shows "weight_before d i 0 (length (nl_targets n)) < unat (weight_total observed n)"
proof -
  let ?w = "\<lambda>t. if native_target_is_active observed n t then unat (nt_weight t) else 0"
  let ?c = "\<lambda>t. if native_target_is_active observed n t then min (unat (nt_weight t)) 65535 else 0"
  have "map (slot_weight d i) [0..<length (nl_targets n)] = map ?c (nl_targets n)"
    by (rule nth_equalityI) (simp_all add: published_slot_weight [OF pub])
  moreover have "sum_list (map ?c (nl_targets n)) < sum_list (map ?w (nl_targets n))"
  proof -
    obtain t where t: "t \<in> set (nl_targets n)" "?c t < ?w t" using over by (auto simp: word_less_nat_alt)
    then obtain xs ys where split: "nl_targets n = xs @ t # ys" using split_list by metis
    have "sum_list (map ?c zs) \<le> sum_list (map ?w zs)" for zs by (rule sum_list_mono) simp
    from add_le_less_mono [OF this add_less_le_mono [OF t(2) this]]
    show ?thesis unfolding split by simp
  qed
  ultimately show ?thesis unfolding unat_weight_total_fits [OF fits] by metis
qed

lemma weighted_hash_misses:
  assumes "cnt \<le> 64" "lv_weight_total l \<noteq> 0"
    and "weight_before d (lv_listener_id l) 0 (unat cnt) \<le> unat h mod unat (lv_weight_total l)"
  shows "select_weighted_hash d h l cnt = 64"
proof -
  have "weight_before d (lv_listener_id l) 0 (Suc t) \<le> unat h mod unat (lv_weight_total l)" if "t < unat cnt" for t
    using weight_before_mono [of "Suc t" "unat cnt" d "lv_listener_id l"] that assms(3) by linarith
  then have "List.find (\<lambda>t. unat h mod unat (lv_weight_total l) < weight_before d (lv_listener_id l) 0 (Suc t)) [0..<unat cnt] = None"
    unfolding find_None_iff by (simp add: not_less del: upt_Suc) (meson not_le)
  then show ?thesis unfolding weighted_hash_interval [OF assms(1,2)] by simp
qed

text \<open>C22. A weight that does not fit a slot makes the selector miss.  If one healthy target of a priority
  listener has a weight above 65535, which the validation accepts, and the weights add up to less than
  \<open>2 ^ 32\<close>, the slots hold less weight than \<open>weight_total\<close> says, and every new flow whose cursor falls into
  the gap finds no target, although all of them may be healthy: the slot holds the clamped weight while
  \<open>weight_total\<close> is the sum of the configured ones.\<close>

theorem overweight_target_misses:
  assumes env: "sync_env_ok env" and ok: "sync_pinned_datapath env obs ls d = (None, d')"
    and same: "ob_targets obs = ob_listeners obs"
    and keys: "distinct (map nl_key ls)" "n \<in> set ls"
    and mode: "nl_select n = select_code Priority"
    and fits: "sum_list (map (\<lambda>t. unat (nt_weight t)) (nl_targets n)) < 2 ^ 32"
    and over: "\<exists>t\<in>set (nl_targets n). native_target_is_active (ob_listeners obs) n t \<and> nt_weight t > 0xffff"
  shows "\<exists>v. dp_listeners d' (lookup_key n) = Some v \<and>
    (let held = weight_before d' (lv_listener_id v) 0 (length (nl_targets n)) in
     held < unat (lv_weight_total v) \<and>
     (\<forall>d2 key h. dp_targets d2 = dp_targets d' \<and> held \<le> unat (fst (next_cursor v d2)) mod unat (lv_weight_total v) \<longrightarrow>
        fst (select_target key v h d2) = 64))"
proof -
  let ?o = "ob_listeners obs"
  obtain i where pub: "published ?o n i d'" by (rule sync_publishes [OF env ok same keys])
  define v where "v = lookup_value ?o i n"
  have v: "lv_listener_id v = i" "lv_weight_total v = weight_total ?o n" "lv_select v = 2"
    using mode by (simp_all add: v_def lookup_value_def)
  have cnt: "unat (slot_count v) = length (nl_targets n)" unfolding v_def by (rule published_slot_count(2) [OF pub])
  have "slot_count v \<le> 64" by (auto simp: slot_count_def not_less)
  have gap: "weight_before d' i 0 (length (nl_targets n)) < unat (weight_total ?o n)"
    by (rule overweight_gap [OF pub fits over])
  have "fst (select_target key v h d2) = 64"
    if d2: "dp_targets d2 = dp_targets d'"
      "weight_before d' i 0 (length (nl_targets n)) \<le> unat (fst (next_cursor v d2)) mod unat (lv_weight_total v)" for d2 key h
  proof -
    obtain c d3 where c: "next_cursor v d2 = (c, d3)" by (cases "next_cursor v d2")
    have "dp_targets d3 = dp_targets d'" using c d2(1) by (auto simp: next_cursor_def Let_def split: if_splits)
    then have "slot_weight d3 = slot_weight d'" by (simp add: slot_weight_def fun_eq_iff)
    then have "select_weighted_hash d3 c v (slot_count v) = 64"
      using d2(2) gap c v cnt \<open>slot_count v \<le> 64\<close> by (intro weighted_hash_misses) auto
    then show ?thesis
      using v c gap by (simp add: select_target_def select_weighted_round_robin_def slot_count_def Let_def)
  qed
  then show ?thesis using pub gap v
    unfolding Let_def by (intro exI [of _ v]) (simp add: published_def v_def)
qed

definition heavy_native :: NativeListener where
  "heavy_native = (sample_native 80 2)\<lparr>nl_targets :=
     [\<lparr>nt_address = 0x0A000001, nt_port = 8080, nt_weight = 100000, nt_state = Active\<rparr>,
      \<lparr>nt_address = 0x0A000002, nt_port = 8080, nt_weight = 1, nt_state = Active\<rparr>]\<rparr>"

theorem overweight_target_misses_witness:
  "\<exists>d' v. sync_pinned_datapath (env_for heavy_native) no_health [heavy_native] fresh_dp = (None, d') \<and>
     dp_listeners d' (lookup_key heavy_native) = Some v \<and>
     weight_before d' (lv_listener_id v) 0 (length (nl_targets heavy_native)) < unat (lv_weight_total v)"
proof -
  let ?n = heavy_native
  obtain d' where d': "sync_pinned_datapath (env_for ?n) no_health [?n] fresh_dp = (None, d')"
    using sync_single [of ?n] by (auto simp: heavy_native_def sample_native_def)
  have "\<exists>v. dp_listeners d' (lookup_key ?n) = Some v \<and>
      weight_before d' (lv_listener_id v) 0 (length (nl_targets heavy_native)) < unat (lv_weight_total v)"
    using overweight_target_misses [OF env_for_ok d', of ?n]
    by (auto simp: Let_def no_health_def heavy_native_def sample_native_def native_target_is_active_def
        observed_target_is_active_def simp del: upt_Suc)
  then show ?thesis using d' by blast
qed

end
