(* ===== verification/Flow_Table.thy ===== *)
theory Flow_Table
  imports Map_Sync Datapath "HOL-Library.Product_Lexorder"
begin

text \<open>
  The user-space side of the flow table (\<^verbatim>\<open>edge-lb/src/linux/native_dnat.rs\<close>): replicated flows are
  upserted and deleted, expired flows are swept, the sweep recounts the load of every target for the
  least-connections selector, and flow events are drained from the ring buffer.  The pinned maps are the
  maps \<open>dp_flows\<close> and \<open>dp_active_flows\<close> that the eBPF program uses.  The operations of the aya map type are a
  parameter (\<open>map_ops\<close>), and so is whether a pin exists and can be opened; the clock is an argument.
\<close>

section \<open>Pins\<close>

datatype ('k, 'v) pin = PinMissing | PinUnreadable | PinOpen "('k, 'v) map_ops"

record flow_env =
  fe_flows :: "(NativeFlowKey, NativeFlowValue) pin"
  fe_active :: "(NativeTargetLoadKey, u32) pin"

datatype flow_error = OpenFailed | MapFailed sync_error

text \<open>Iteration yields the entry of every key.\<close>

definition iter_entries :: "('k, 'v) map_ops \<Rightarrow> ('k \<rightharpoonup> 'v) \<Rightarrow> ('k \<times> 'v) list option" where
  "iter_entries ops m = map_option (List.map_filter (\<lambda>k. map_option (Pair k) (m k))) (mo_keys ops m)"

section \<open>Replicated flows\<close>

definition flow_apply_applies :: "NativeFlowValue option \<Rightarrow> NativeFlowValue \<Rightarrow> bool" where
  "flow_apply_applies local replica =
     (case local of None \<Rightarrow> True | Some local \<Rightarrow> fv_last_seen_ns replica > fv_last_seen_ns local)"

fun upsert_entries ::
    "(NativeFlowKey, NativeFlowValue) map_ops \<Rightarrow> nat \<Rightarrow> (NativeFlowKey \<times> NativeFlowValue) list \<Rightarrow> flow_map \<Rightarrow>
     (flow_error + nat) \<times> flow_map" where
  "upsert_entries ops accepted [] flows = (Inr accepted, flows)"
| "upsert_entries ops accepted ((key, val) # entries) flows =
     (if flow_apply_applies (flows key) val
      then case mo_insert ops flows key val of
          None \<Rightarrow> (Inl (MapFailed InsertFailed), flows)
        | Some flows' \<Rightarrow> upsert_entries ops (accepted + 1) entries flows'
      else upsert_entries ops (accepted + 1) entries flows)"

definition upsert_flows ::
    "flow_env \<Rightarrow> (NativeFlowKey \<times> NativeFlowValue) list \<Rightarrow> dp \<Rightarrow> (flow_error + nat) \<times> dp" where
  "upsert_flows env entries d =
     (case fe_flows env of
        PinMissing \<Rightarrow> (Inr 0, d)
      | PinUnreadable \<Rightarrow> (Inl OpenFailed, d)
      | PinOpen ops \<Rightarrow>
          (case upsert_entries ops 0 entries (dp_flows d) of
             (r, flows) \<Rightarrow> (r, d\<lparr>dp_flows := flows\<rparr>)))"

definition delete_flows :: "flow_env \<Rightarrow> NativeFlowKey list \<Rightarrow> dp \<Rightarrow> (flow_error + nat) \<times> dp" where
  "delete_flows env keys d =
     (case fe_flows env of
        PinMissing \<Rightarrow> (Inr 0, d)
      | PinUnreadable \<Rightarrow> (Inl OpenFailed, d)
      | PinOpen ops \<Rightarrow> (Inr (length keys), d\<lparr>dp_flows := foldl (mo_remove ops) (dp_flows d) keys\<rparr>))"

definition dump_flows :: "flow_env \<Rightarrow> dp \<Rightarrow> flow_error + (NativeFlowKey \<times> NativeFlowValue) list" where
  "dump_flows env d =
     (case fe_flows env of
        PinMissing \<Rightarrow> Inr []
      | PinUnreadable \<Rightarrow> Inl OpenFailed
      | PinOpen ops \<Rightarrow>
          (case iter_entries ops (dp_flows d) of None \<Rightarrow> Inl (MapFailed IterFailed) | Some entries \<Rightarrow> Inr entries))"

section \<open>Flow events\<close>

datatype FlowMutation = Upsert "NativeFlowKey \<times> NativeFlowValue" | Delete NativeFlowKey

text \<open>A ring buffer item; \<open>None\<close> is one whose size is not that of an event.\<close>

fun drain_flow_events :: "NativeFlowEvent option list \<Rightarrow> FlowMutation list" where
  "drain_flow_events [] = []"
| "drain_flow_events (None # items) = drain_flow_events items"
| "drain_flow_events (Some event # items) =
     (if ev_op event = 2 then Delete (ev_key event) else Upsert (ev_key event, ev_value event))
     # drain_flow_events items"

section \<open>Sweep\<close>

definition flow_expired_sweep :: "u64 \<Rightarrow> u32 \<Rightarrow> u64 \<Rightarrow> bool" where
  "flow_expired_sweep last_seen_ns timeout_secs now_ns =
     (if last_seen_ns = 0 \<or> timeout_secs = 0 then False
      else saturating_sub now_ns last_seen_ns > ucast timeout_secs * 1000000000)"

definition flow_key_sort_tuple :: "NativeFlowKey \<Rightarrow> u32 \<times> u32 \<times> u16 \<times> u16 \<times> u8" where
  "flow_key_sort_tuple key = (fk_src key, fk_dst key, fk_sport key, fk_dport key, fk_proto key)"

definition canonical_flow_pair :: "NativeFlowKey \<Rightarrow> NativeFlowValue \<Rightarrow> NativeFlowKey \<times> NativeFlowKey" where
  "canonical_flow_pair key val =
     (let target_port = to_be16 (fv_target_port val);
          (forward, reverse) = (if fk_src key = fv_target val \<and> fk_sport key = target_port
            then (forward_for key val, key) else (key, reverse_for key val)) in
      if flow_key_sort_tuple forward \<le> flow_key_sort_tuple reverse then (forward, reverse) else (reverse, forward))"

fun bump_load :: "NativeTargetLoadKey \<Rightarrow> (NativeTargetLoadKey \<times> u32) list \<Rightarrow> (NativeTargetLoadKey \<times> u32) list" where
  "bump_load key [] = [(key, 1)]"
| "bump_load key ((k, load) # loads) =
     (if k = key then (k, saturating_add load 1) # loads else (k, load) # bump_load key loads)"

record sweep =
  sw_expired :: "NativeFlowKey list"
  sw_loads :: "(NativeTargetLoadKey \<times> u32) list"
  sw_seen_pairs :: "(NativeFlowKey \<times> NativeFlowKey) set"

definition load_key :: "NativeFlowValue \<Rightarrow> NativeTargetLoadKey" where
  "load_key val = \<lparr>ld_listener_id = fv_listener_id val, ld_target_id = fv_target_id val\<rparr>"

definition count_pair :: "NativeFlowKey \<times> NativeFlowValue \<Rightarrow> sweep \<Rightarrow> sweep" where
  "count_pair e sw =
     (let pair = canonical_flow_pair (fst e) (snd e) in
      if pair \<in> sw_seen_pairs sw then sw
      else sw\<lparr>sw_seen_pairs := insert pair (sw_seen_pairs sw), sw_loads := bump_load (load_key (snd e)) (sw_loads sw)\<rparr>)"

definition sweep_entry :: "u64 \<Rightarrow> bool \<Rightarrow> sweep \<Rightarrow> NativeFlowKey \<times> NativeFlowValue \<Rightarrow> sweep" where
  "sweep_entry now refresh_loads sw e =
     (if flow_expired_sweep (fv_last_seen_ns (snd e)) (fv_timeout_secs (snd e)) now
      then sw\<lparr>sw_expired := sw_expired sw @ [fst e]\<rparr>
      else if refresh_loads then count_pair e sw else sw)"

text \<open>Loads that are gone are removed, then all current ones are written.\<close>

definition replace_active_flows ::
    "flow_env \<Rightarrow> (NativeTargetLoadKey \<times> u32) list \<Rightarrow> dp \<Rightarrow> flow_error option \<times> dp" where
  "replace_active_flows env loads d =
     (case fe_active env of
        PinMissing \<Rightarrow> (None, d)
      | PinUnreadable \<Rightarrow> (Some OpenFailed, d)
      | PinOpen ops \<Rightarrow>
          (case retain_keys ops (fst ` set loads) (dp_active_flows d) of
             (Some e, active) \<Rightarrow> (Some (MapFailed e), d\<lparr>dp_active_flows := active\<rparr>)
           | (None, active) \<Rightarrow>
               (case insert_steps ops active (map Inr loads) of
                  (e, active') \<Rightarrow> (map_option MapFailed e, d\<lparr>dp_active_flows := active'\<rparr>))))"

definition sweep_flows_inner :: "flow_env \<Rightarrow> u64 \<Rightarrow> bool \<Rightarrow> dp \<Rightarrow> (flow_error + nat) \<times> dp" where
  "sweep_flows_inner env now refresh_loads d =
     (case fe_flows env of
        PinMissing \<Rightarrow> (Inr 0, d)
      | PinUnreadable \<Rightarrow> (Inl OpenFailed, d)
      | PinOpen ops \<Rightarrow>
          (case iter_entries ops (dp_flows d) of
             None \<Rightarrow> (Inl (MapFailed IterFailed), d)
           | Some entries \<Rightarrow>
               let sw = foldl (sweep_entry now refresh_loads)
                     \<lparr>sw_expired = [], sw_loads = [], sw_seen_pairs = {}\<rparr> entries;
                   d1 = d\<lparr>dp_flows := foldl (mo_remove ops) (dp_flows d) (sw_expired sw)\<rparr> in
               if refresh_loads
               then case replace_active_flows env (sw_loads sw) d1 of
                   (Some e, d2) \<Rightarrow> (Inl e, d2)
                 | (None, d2) \<Rightarrow> (Inr (length (sw_expired sw)), d2)
               else (Inr (length (sw_expired sw)), d1)))"

definition sweep_flows :: "flow_env \<Rightarrow> u64 \<Rightarrow> dp \<Rightarrow> (flow_error + nat) \<times> dp" where
  "sweep_flows env now d = sweep_flows_inner env now False d"

definition sweep_flows_and_refresh_loads :: "flow_env \<Rightarrow> u64 \<Rightarrow> dp \<Rightarrow> (flow_error + nat) \<times> dp" where
  "sweep_flows_and_refresh_loads env now d = sweep_flows_inner env now True d"

section \<open>Upserts\<close>

lemma flow_expired_agree: "flow_expired_sweep = flow_expired"
  by (simp add: flow_expired_sweep_def flow_expired_def fun_eq_iff)

text \<open>Of two values the table keeps the fresher one, and the one it has on a tie.\<close>

definition fresher :: "NativeFlowValue option \<Rightarrow> NativeFlowValue \<Rightarrow> NativeFlowValue" where
  "fresher local replica = (if flow_apply_applies local replica then replica else the local)"

lemma upsert_entries_ok:
  assumes ops: "map_ops_ok ops" and "upsert_entries ops n entries m = (Inr n', m')"
  shows "m' = foldl (\<lambda>m (k, v). m(k \<mapsto> fresher (m k) v)) m entries \<and> n' = n + length entries"
  using assms(2)
proof (induction entries arbitrary: n m)
  case (Cons e entries)
  obtain k v where e: "e = (k, v)" by (cases e)
  have step: "upsert_entries ops (n + 1) entries (m(k \<mapsto> fresher (m k) v)) = (Inr n', m')"
  proof (cases "flow_apply_applies (m k) v")
    case True
    then obtain m1 where "mo_insert ops m k v = Some m1" "upsert_entries ops (n + 1) entries m1 = (Inr n', m')"
      using Cons.prems e by (auto split: option.splits)
    then show ?thesis using True map_ops_okD(1) [OF ops] by (auto simp: fresher_def)
  next
    case False
    then obtain v0 where "m k = Some v0" by (auto simp: flow_apply_applies_def split: option.splits)
    then have "m(k \<mapsto> fresher (m k) v) = m" using False by (auto simp: fresher_def)
    then show ?thesis using False Cons.prems e by simp
  qed
  then show ?case using Cons.IH [OF step] e by simp
qed simp

definition newest :: "NativeFlowValue \<Rightarrow> NativeFlowValue option \<Rightarrow> bool" where
  "newest v r \<longleftrightarrow> (\<exists>v'. r = Some v' \<and> fv_last_seen_ns v \<le> fv_last_seen_ns v')"

lemma newest_fresher: "newest v (Some (fresher r w)) \<longleftrightarrow> newest v r \<or> (fv_last_seen_ns v \<le> fv_last_seen_ns w)"
  by (cases r) (auto simp: newest_def fresher_def flow_apply_applies_def)

lemma upserted_newest:
  "newest v (foldl (\<lambda>m (k, v). m(k \<mapsto> fresher (m k) v)) m entries k) \<longleftrightarrow>
   newest v (m k) \<or> (\<exists>w. (k, w) \<in> set entries \<and> fv_last_seen_ns v \<le> fv_last_seen_ns w)"
  by (induction entries arbitrary: m) (auto simp: newest_fresher split: if_splits)

lemma upserted_from:
  "foldl (\<lambda>m (k, v). m(k \<mapsto> fresher (m k) v)) m entries k = r \<Longrightarrow>
   r = m k \<or> (\<exists>w. (k, w) \<in> set entries \<and> r = Some w)"
proof (induction entries arbitrary: m)
  case (Cons e entries)
  obtain a w where e: "e = (a, w)" by (cases e)
  let ?m1 = "m(a \<mapsto> fresher (m a) w)"
  have "fresher (m k) w = w \<or> Some (fresher (m k) w) = m k"
    by (auto simp: fresher_def flow_apply_applies_def split: option.splits)
  then have "?m1 k = m k \<or> (k, w) = e \<and> ?m1 k = Some w" using e by auto
  moreover have "r = ?m1 k \<or> (\<exists>w. (k, w) \<in> set entries \<and> r = Some w)"
    by (rule Cons.IH) (use Cons.prems e in simp)
  ultimately show ?case by (metis list.set_intros)
qed simp

lemma upsert_stale:
  assumes "\<And>k v. (k, v) \<in> set entries \<Longrightarrow> newest v (m k)"
  shows "upsert_entries ops n entries m = (Inr (n + length entries), m)"
  using assms
proof (induction entries arbitrary: n)
  case (Cons e entries)
  obtain k v where e: "e = (k, v)" by (cases e)
  have "newest v (m k)" using Cons.prems e by simp
  then have "\<not> flow_apply_applies (m k) v" by (auto simp: newest_def flow_apply_applies_def)
  then show ?case using Cons e by simp
qed simp


definition sample_key :: NativeFlowKey where
  "sample_key = \<lparr>fk_src = 0xC0A80002, fk_dst = 0xC0A80001, fk_sport = 4000, fk_dport = 80, fk_proto = 6, fk_pad = [0, 0, 0]\<rparr>"

definition sample_flow :: "u64 \<Rightarrow> NativeFlowValue" where
  "sample_flow seen = \<lparr>fv_listener_id = 7, fv_target_id = 0, fv_vip = 0xC0A80001, fv_target = 0x0A000001, fv_vip_port = 80,
     fv_target_port = 8080, fv_timeout_secs = 240, fv_last_seen_ns = seen\<rparr>"

definition sample_flow_env :: "NativeFlowKey list \<Rightarrow> flow_env" where
  "sample_flow_env keys = \<lparr>fe_flows = PinOpen (plain_ops keys),
     fe_active = PinOpen (plain_ops [\<lparr>ld_listener_id = 7, ld_target_id = 0\<rparr>])\<rparr>"


section \<open>Deletes and sweeps\<close>

lemma foldl_remove_all: "foldl (\<lambda>m k. m(k := None)) m ks = m |` (- set ks)"
  by (induction ks arbitrary: m) (auto simp: restrict_map_def fun_eq_iff)

lemma delete_flows_ok:
  assumes "fe_flows env = PinOpen ops" "map_ops_ok ops"
  shows "delete_flows env keys d = (Inr (length keys), d\<lparr>dp_flows := dp_flows d |` (- set keys)\<rparr>)"
proof -
  have "mo_remove ops = (\<lambda>m k. m(k := None))" using map_ops_okD(3) [OF assms(2)] by (simp add: fun_eq_iff)
  then show ?thesis using assms(1) by (simp add: delete_flows_def foldl_remove_all)
qed

lemma iter_entries_ok:
  assumes "map_ops_ok ops" "iter_entries ops m = Some entries"
  shows "set entries = {(k, v). m k = Some v}"
proof -
  obtain ks where ks: "mo_keys ops m = Some ks" "entries = List.map_filter (\<lambda>k. map_option (Pair k) (m k)) ks"
    using assms(2) by (auto simp: iter_entries_def)
  have "set ks = dom m" by (rule map_ops_okD(2) [OF assms(1) ks(1)])
  then show ?thesis unfolding ks(2) by (force simp: List.map_filter_def dom_def image_iff)
qed

definition expired_at :: "u64 \<Rightarrow> NativeFlowValue \<Rightarrow> bool" where
  "expired_at now v = flow_expired (fv_last_seen_ns v) (fv_timeout_secs v) now"

lemma sweep_fold:
  "sw_expired (foldl (sweep_entry now r) sw es) = sw_expired sw @ map fst (filter (expired_at now \<circ> snd) es)"
  "r \<Longrightarrow> sw_loads (foldl (sweep_entry now r) sw es) = sw_loads (fold count_pair (filter (Not \<circ> expired_at now \<circ> snd) es) sw)"
proof -
  have *: "count_pair e (sw\<lparr>sw_expired := x\<rparr>) = (count_pair e sw)\<lparr>sw_expired := x\<rparr>" for e sw x
    by (simp add: count_pair_def Let_def)
  have **: "fold count_pair es (sw\<lparr>sw_expired := x\<rparr>) = (fold count_pair es sw)\<lparr>sw_expired := x\<rparr>" for es sw x
    by (induction es arbitrary: sw) (simp_all add: *)
  have "sw_expired (count_pair e sw) = sw_expired sw" for e sw by (simp add: count_pair_def Let_def)
  then show "sw_expired (foldl (sweep_entry now r) sw es) = sw_expired sw @ map fst (filter (expired_at now \<circ> snd) es)"
    by (induction es arbitrary: sw) (simp_all add: sweep_entry_def expired_at_def flow_expired_agree)
  show "sw_loads (foldl (sweep_entry now r) sw es) = sw_loads (fold count_pair (filter (Not \<circ> expired_at now \<circ> snd) es) sw)" if r
    using that by (induction es arbitrary: sw) (simp_all add: sweep_entry_def expired_at_def flow_expired_agree **)
qed

text \<open>The number of pairs counted for a target.\<close>

definition pairs_of :: "NativeTargetLoadKey \<Rightarrow> (NativeFlowKey \<times> NativeFlowValue) set \<Rightarrow> (NativeFlowKey \<times> NativeFlowKey) set" where
  "pairs_of lk es = (\<lambda>(k, v). canonical_flow_pair k v) ` {(k, v) \<in> es. load_key v = lk}"

definition load_of_count :: "nat \<Rightarrow> u32 option" where
  "load_of_count n = (if n = 0 then None else Some (of_nat (min n (2 ^ 32 - 1))))"

lemma map_of_bump_load:
  "map_of (bump_load key loads) k =
   (if k = key then Some (case map_of loads key of None \<Rightarrow> 1 | Some n \<Rightarrow> saturating_add n 1) else map_of loads k)"
  by (induction key loads rule: bump_load.induct) auto

lemma keys_bump_load: "distinct (map fst loads) \<Longrightarrow> distinct (map fst (bump_load key loads))"
proof -
  have "fst ` set (bump_load key loads) = insert key (fst ` set loads)" for loads
    by (induction key loads rule: bump_load.induct) auto
  then show "distinct (map fst loads) \<Longrightarrow> distinct (map fst (bump_load key loads))"
    by (induction key loads rule: bump_load.induct) auto
qed

lemma load_of_count_Suc:
  "(case load_of_count n of None \<Rightarrow> 1 | Some c \<Rightarrow> saturating_add c 1) = (of_nat (min (Suc n) (2 ^ 32 - 1)) :: u32)"
proof -
  have "unat (saturating_add (of_nat (min n (2 ^ 32 - 1)) :: u32) 1) = min (Suc n) (2 ^ 32 - 1)"
    unfolding unat_saturating_add by (simp add: unat_of_nat_lt min_def)
  from arg_cong [OF this, of "of_nat :: nat \<Rightarrow> u32"]
  have "saturating_add (of_nat (min n (2 ^ 32 - 1)) :: u32) 1 = of_nat (min (Suc n) (2 ^ 32 - 1))" by simp
  then show ?thesis by (simp add: load_of_count_def)
qed

definition pairs_agree :: "(NativeFlowKey \<times> NativeFlowValue) set \<Rightarrow> bool" where
  "pairs_agree es \<longleftrightarrow> (\<forall>(k, v)\<in>es. \<forall>(k', v')\<in>es.
     canonical_flow_pair k v = canonical_flow_pair k' v' \<longrightarrow> load_key v = load_key v')"

lemma pairs_agreeD:
  "pairs_agree es \<Longrightarrow> (k, v) \<in> es \<Longrightarrow> (k', v') \<in> es \<Longrightarrow> canonical_flow_pair k v = canonical_flow_pair k' v' \<Longrightarrow>
   load_key v = load_key v'"
  by (force simp: pairs_agree_def)

lemma pairs_agree_mono: "pairs_agree es \<Longrightarrow> es' \<subseteq> es \<Longrightarrow> pairs_agree es'"
  unfolding pairs_agree_def by blast

lemma count_pairs:
  assumes "pairs_agree (set es)"
  defines "sw \<equiv> \<lambda>es. fold count_pair es \<lparr>sw_expired = [], sw_loads = [], sw_seen_pairs = {}\<rparr>"
  shows "sw_seen_pairs (sw es) = (\<lambda>(k, v). canonical_flow_pair k v) ` set es \<and>
    distinct (map fst (sw_loads (sw es))) \<and>
    (\<forall>lk. map_of (sw_loads (sw es)) lk = load_of_count (card (pairs_of lk (set es))))"
  using assms(1)
proof (induction es rule: rev_induct)
  case Nil
  show ?case by (simp add: sw_def pairs_of_def load_of_count_def)
next
  case (snoc e es)
  obtain k v where e: "e = (k, v)" by (cases e)
  define pair where "pair = canonical_flow_pair k v"
  have sub: "pairs_agree (set es)" by (rule pairs_agree_mono [OF snoc.prems]) auto
  have IH: "sw_seen_pairs (sw es) = (\<lambda>(k, v). canonical_flow_pair k v) ` set es" "distinct (map fst (sw_loads (sw es)))"
    "map_of (sw_loads (sw es)) lk = load_of_count (card (pairs_of lk (set es)))" for lk
    using snoc.IH [OF sub] by simp_all
  have step: "sw (es @ [e]) = count_pair e (sw es)" by (simp add: sw_def)
  have pairs: "pairs_of lk (set (es @ [e])) = (if lk = load_key v then insert pair (pairs_of lk (set es)) else pairs_of lk (set es))" for lk
    by (auto simp: pairs_of_def e pair_def)
  show ?case
  proof (cases "pair \<in> sw_seen_pairs (sw es)")
    case True
    then obtain k' v' where e': "(k', v') \<in> set es" "canonical_flow_pair k' v' = pair" unfolding IH(1) by auto
    then have "load_key v' = load_key v" using pairs_agreeD [OF snoc.prems, of k' v' k v] by (simp add: e pair_def)
    then have "pair \<in> pairs_of (load_key v) (set es)" using e' by (force simp: pairs_of_def)
    then have "pairs_of lk (set (es @ [e])) = pairs_of lk (set es)" for lk unfolding pairs by auto
    then show ?thesis using True IH step by (auto simp: count_pair_def e pair_def)
  next
    case False
    then have new: "pair \<notin> pairs_of (load_key v) (set es)" unfolding IH(1) pairs_of_def by auto
    have "finite (pairs_of (load_key v) (set es))"
      unfolding pairs_of_def by (rule finite_imageI) (rule finite_subset [of _ "set es"], auto)
    with new have "card (pairs_of (load_key v) (set (es @ [e]))) = Suc (card (pairs_of (load_key v) (set es)))"
      unfolding pairs by simp
    then have counts: "load_of_count (card (pairs_of lk (set (es @ [e])))) =
        (if lk = load_key v then Some (of_nat (min (Suc (card (pairs_of lk (set es)))) (2 ^ 32 - 1)))
         else load_of_count (card (pairs_of lk (set es))))" for lk
      unfolding pairs by (simp add: load_of_count_def)
    have loads: "sw_loads (sw (es @ [e])) = bump_load (load_key v) (sw_loads (sw es))"
      using False unfolding step by (simp add: count_pair_def e pair_def)
    have "map_of (sw_loads (sw (es @ [e]))) lk = load_of_count (card (pairs_of lk (set (es @ [e]))))" for lk
      unfolding counts loads map_of_bump_load IH(3) load_of_count_Suc by simp
    then show ?thesis using False IH(1,2) step
      by (auto simp: count_pair_def e pair_def keys_bump_load)
  qed
qed

lemma replace_active_flows_ok:
  assumes "fe_active env = PinOpen ops" "map_ops_ok ops" "distinct (map fst loads)"
    and "replace_active_flows env loads d = (None, d')"
  shows "d' = d\<lparr>dp_active_flows := map_of loads\<rparr>"
proof -
  obtain a1 where a1: "retain_keys ops (fst ` set loads) (dp_active_flows d) = (None, a1)"
    using assms(1,4) by (auto simp: replace_active_flows_def split: prod.splits option.splits)
  obtain a2 where a2: "insert_steps ops a1 (map Inr loads) = (None, a2)" "d' = d\<lparr>dp_active_flows := a2\<rparr>"
    using assms(1,4) a1 by (auto simp: replace_active_flows_def split: prod.splits)
  obtain kvs where "map Inr loads = (map Inr kvs :: (sync_error + _) list)" "a2 = a1 ++ map_of (rev kvs)"
    using insert_steps_ok [OF assms(2) a2(1)] by blast
  moreover from this(1) have "kvs = loads" by (metis inj_Inr inj_map_eq_map)
  ultimately have "a2 = a1 ++ map_of (rev loads)" by simp
  also have "map_of (rev loads) = map_of loads"
    by (rule map_of_inject_set [THEN iffD2]) (use assms(3) in \<open>simp_all flip: rev_map\<close>)
  also have "a1 ++ map_of loads = map_of loads"
  proof
    fix k
    have "map_of loads k = None \<longleftrightarrow> k \<notin> fst ` set loads" by (simp add: map_of_eq_None_iff)
    then show "(a1 ++ map_of loads) k = map_of loads k"
      using retain_keys_ok [OF assms(2) a1] by (cases "map_of loads k") (simp_all add: map_add_def restrict_map_def)
  qed
  finally show ?thesis using a2(2) by simp
qed

text \<open>A table in which every connection has both of its entries, with one value.  The client's end is
  never the target itself.\<close>

definition at_target :: "NativeFlowKey \<Rightarrow> NativeFlowValue \<Rightarrow> bool" where
  "at_target k v \<longleftrightarrow> fk_src k = fv_target v \<and> fk_sport k = to_be16 (fv_target_port v)"

definition complete_pairs :: "flow_map \<Rightarrow> bool" where
  "complete_pairs m \<longleftrightarrow> (\<forall>k v. m k = Some v \<longrightarrow>
     (if at_target k v then reverse_key k v \<and> \<not> at_target (forward_for k v) v \<and> m (forward_for k v) = Some v
      else forward_key k v \<and> m (reverse_for k v) = Some v))"

definition client_end :: "NativeFlowKey \<Rightarrow> NativeFlowValue \<Rightarrow> NativeFlowKey" where
  "client_end k v = (if at_target k v then forward_for k v else k)"

lemma complete_pairs_ends:
  assumes "complete_pairs m" "m k = Some v"
  shows "m (client_end k v) = Some v" "m (reverse_for (client_end k v) v) = Some v" "\<not> at_target (client_end k v) v"
  using assms by (auto simp: complete_pairs_def client_end_def reverse_forward split: if_splits)

lemma canonical_ends:
  assumes "complete_pairs m" "m k = Some v"
  shows "canonical_flow_pair k v = canonical_flow_pair (client_end k v) v"
    "{fst (canonical_flow_pair k v), snd (canonical_flow_pair k v)} = {client_end k v, reverse_for (client_end k v) v}"
proof -
  have "at_target k v \<Longrightarrow> reverse_for (forward_for k v) v = k"
    using assms by (auto simp: complete_pairs_def reverse_forward split: if_splits)
  then show "canonical_flow_pair k v = canonical_flow_pair (client_end k v) v"
    "{fst (canonical_flow_pair k v), snd (canonical_flow_pair k v)} = {client_end k v, reverse_for (client_end k v) v}"
    using complete_pairs_ends(3) [OF assms]
    by (auto simp: canonical_flow_pair_def client_end_def at_target_def Let_def)
qed

lemma canonical_eq:
  assumes "complete_pairs m" "m k = Some v" "m k' = Some v'" "canonical_flow_pair k v = canonical_flow_pair k' v'"
  shows "v = v'" "client_end k v = client_end k' v'"
proof -
  note e = complete_pairs_ends [OF assms(1,2)] and e' = complete_pairs_ends [OF assms(1,3)]
  have eq: "{client_end k v, reverse_for (client_end k v) v} = {client_end k' v', reverse_for (client_end k' v') v'}"
    using canonical_ends(2) [OF assms(1,2)] canonical_ends(2) [OF assms(1,3)] assms(4) by simp
  then have "client_end k v = client_end k' v' \<or> client_end k v = reverse_for (client_end k' v') v'" by blast
  then show vv: "v = v'" using e(1) e'(1,2) by auto
  have "at_target (reverse_for (client_end k' v') v') v'" by (simp add: at_target_def)
  then show "client_end k v = client_end k' v'" using eq e(3) vv by (auto simp: doubleton_eq_iff)
qed

definition swept :: "u64 \<Rightarrow> flow_map \<Rightarrow> flow_map" where
  "swept now m = (\<lambda>k. case m k of None \<Rightarrow> None | Some v \<Rightarrow> if flow_expired (fv_last_seen_ns v) (fv_timeout_secs v) now then None else Some v)"

lemma swept_eq: "swept now m k = Some v \<longleftrightarrow> m k = Some v \<and> \<not> expired_at now v"
  by (auto simp: swept_def expired_at_def split: option.splits)

lemma complete_pairs_swept: "complete_pairs m \<Longrightarrow> complete_pairs (swept now m)"
  unfolding complete_pairs_def swept_eq by (meson swept_eq)

lemma complete_pairs_agree: "complete_pairs m \<Longrightarrow> pairs_agree {(k, v). m k = Some v}"
  unfolding pairs_agree_def using canonical_eq(1) by blast

definition clients_of :: "NativeTargetLoadKey \<Rightarrow> flow_map \<Rightarrow> NativeFlowKey set" where
  "clients_of lk m = {k. \<exists>v. m k = Some v \<and> \<not> at_target k v \<and> load_key v = lk}"

lemma card_pairs_of:
  assumes "complete_pairs m"
  shows "card (pairs_of lk {(k, v). m k = Some v}) = card (clients_of lk m)"
proof -
  let ?c = "\<lambda>k. canonical_flow_pair k (the (m k))"
  have "pairs_of lk {(k, v). m k = Some v} = ?c ` clients_of lk m"
  proof (intro equalityI subsetI)
    fix p
    assume "p \<in> pairs_of lk {(k, v). m k = Some v}"
    then obtain k v where kv: "m k = Some v" "load_key v = lk" "p = canonical_flow_pair k v" by (auto simp: pairs_of_def)
    then have "p = ?c (client_end k v)" using canonical_ends(1) [OF assms kv(1)] complete_pairs_ends [OF assms kv(1)] by simp
    moreover have "client_end k v \<in> clients_of lk m"
      using complete_pairs_ends [OF assms kv(1)] kv(2) by (auto simp: clients_of_def)
    ultimately show "p \<in> ?c ` clients_of lk m" by blast
  next
    fix p
    assume "p \<in> ?c ` clients_of lk m"
    then show "p \<in> pairs_of lk {(k, v). m k = Some v}" by (force simp: clients_of_def pairs_of_def)
  qed
  moreover have "inj_on ?c (clients_of lk m)"
  proof (rule inj_onI)
    fix k k'
    assume "k \<in> clients_of lk m" "k' \<in> clients_of lk m" "?c k = ?c k'"
    then obtain v v' where v: "m k = Some v" "\<not> at_target k v" "m k' = Some v'" "\<not> at_target k' v'"
      "canonical_flow_pair k v = canonical_flow_pair k' v'" by (auto simp: clients_of_def)
    show "k = k'" using canonical_eq(2) [OF assms v(1,3,5)] v(2,4) by (simp add: client_end_def)
  qed
  ultimately show ?thesis by (simp add: card_image)
qed

text \<open>C24. The sweep.  A sweep of a table with complete pairs that refreshes the loads removes exactly the
  entries that the eBPF programs regard as expired, and so both entries of a connection together, and
  leaves as the load of every target the number of connections, counted at the client's end, that are
  still in the table for it (and no load where there are none).\<close>

theorem sweep_counts_connections:
  assumes flows: "fe_flows env = PinOpen fops" "map_ops_ok fops" and active: "fe_active env = PinOpen aops" "map_ops_ok aops"
    and pairs: "complete_pairs (dp_flows d)" and ok: "sweep_flows_and_refresh_loads env now d = (Inr n, d')"
  shows "dp_flows d' = swept now (dp_flows d) \<and> complete_pairs (dp_flows d') \<and>
    (\<forall>lk. dp_active_flows d' lk = load_of_count (card (clients_of lk (dp_flows d'))))"
proof -
  let ?init = "\<lparr>sw_expired = [], sw_loads = [], sw_seen_pairs = {}\<rparr>"
  obtain es where es: "iter_entries fops (dp_flows d) = Some es"
    using ok flows(1) by (auto simp: sweep_flows_and_refresh_loads_def sweep_flows_inner_def split: option.splits)
  define sw where "sw = foldl (sweep_entry now True) ?init es"
  define d1 where "d1 = d\<lparr>dp_flows := foldl (mo_remove fops) (dp_flows d) (sw_expired sw)\<rparr>"
  define live where "live = filter (Not \<circ> expired_at now \<circ> snd) es"
  have rep: "replace_active_flows env (sw_loads sw) d1 = (None, d')"
    using ok flows(1) es
    by (auto simp: sweep_flows_and_refresh_loads_def sweep_flows_inner_def Let_def sw_def d1_def split: option.splits prod.splits)
  have mem: "set es = {(k, v). dp_flows d k = Some v}" by (rule iter_entries_ok [OF flows(2) es])
  have "mo_remove fops = (\<lambda>m k. m(k := None))" using map_ops_okD(3) [OF flows(2)] by (simp add: fun_eq_iff)
  moreover have "sw_expired sw = map fst (filter (expired_at now \<circ> snd) es)" by (simp add: sw_def sweep_fold(1))
  ultimately have "dp_flows d1 = dp_flows d |` (- (fst ` set (filter (expired_at now \<circ> snd) es)))"
    by (simp add: d1_def foldl_remove_all)
  also have "\<dots> = swept now (dp_flows d)"
    by (rule ext) (auto simp: restrict_map_def swept_def expired_at_def mem image_iff split: option.splits)
  finally have swept: "dp_flows d1 = swept now (dp_flows d)" .
  have complete: "complete_pairs (dp_flows d1)" unfolding swept by (rule complete_pairs_swept [OF pairs])
  have live: "set live = {(k, v). dp_flows d1 k = Some v}" by (auto simp: live_def mem swept swept_eq)
  have "sw_loads sw = sw_loads (fold count_pair live ?init)" unfolding sw_def live_def by (rule sweep_fold(2)) simp
  then have loads: "distinct (map fst (sw_loads sw))"
    "map_of (sw_loads sw) lk = load_of_count (card (clients_of lk (dp_flows d1)))" for lk
    using count_pairs [of live] complete_pairs_agree [OF complete] card_pairs_of [OF complete] by (simp_all add: live)
  then have "d' = d1\<lparr>dp_active_flows := map_of (sw_loads sw)\<rparr>"
    using replace_active_flows_ok [OF active _ rep] by blast
  then show ?thesis using swept complete loads(2) by simp
qed

definition sample_reply_key :: NativeFlowKey where
  "sample_reply_key = reverse_for sample_key (sample_flow 0)"

definition sample_table :: "u64 \<Rightarrow> flow_map" where
  "sample_table seen = [sample_key \<mapsto> sample_flow seen, sample_reply_key \<mapsto> sample_flow seen]"

lemma sample_keys_differ: "sample_key \<noteq> sample_reply_key"
  by (simp add: sample_reply_key_def reverse_for_def sample_key_def sample_flow_def)

lemma sample_table_complete: "complete_pairs (sample_table seen)"
proof -
  have ends: "\<not> at_target sample_key (sample_flow seen)" "at_target sample_reply_key (sample_flow seen)"
    "forward_key sample_key (sample_flow seen)" "reverse_for sample_key (sample_flow seen) = sample_reply_key"
    "reverse_key sample_reply_key (sample_flow seen)" "forward_for sample_reply_key (sample_flow seen) = sample_key"
    by (simp_all add: at_target_def forward_key_def reverse_key_def forward_for_def reverse_for_def sample_reply_key_def
        sample_key_def sample_flow_def)
  have "v = sample_flow seen \<and> (k = sample_key \<or> k = sample_reply_key)" if "sample_table seen k = Some v" for k v
    using that by (auto simp: sample_table_def split: if_splits)
  then show ?thesis unfolding complete_pairs_def using ends sample_keys_differ
    by (metis fun_upd_apply sample_table_def)
qed

theorem sweep_counts_connections_witness:
  "\<exists>d'. sweep_flows_and_refresh_loads (sample_flow_env [sample_key, sample_reply_key]) 2000
        (fresh_dp\<lparr>dp_flows := sample_table 1000\<rparr>) = (Inr 0, d') \<and>
      dp_active_flows d' \<lparr>ld_listener_id = 7, ld_target_id = 0\<rparr> =
        load_of_count (card (clients_of \<lparr>ld_listener_id = 7, ld_target_id = 0\<rparr> (dp_flows d')))"
proof -
  let ?env = "sample_flow_env [sample_key, sample_reply_key]" and ?d = "fresh_dp\<lparr>dp_flows := sample_table 1000\<rparr>"
  have "iter_entries (plain_ops [sample_key, sample_reply_key]) (sample_table 1000) =
      Some [(sample_key, sample_flow 1000), (sample_reply_key, sample_flow 1000)]"
    by (simp add: iter_entries_def sample_table_def List.map_filter_def sample_keys_differ)
  moreover have "canonical_flow_pair sample_reply_key (sample_flow 1000) = canonical_flow_pair sample_key (sample_flow 1000)"
    by (simp add: canonical_flow_pair_def Let_def sample_reply_key_def sample_key_def sample_flow_def reverse_for_def forward_for_def)
  ultimately have "\<exists>d'. sweep_flows_and_refresh_loads ?env 2000 ?d = (Inr 0, d')"
    by (simp add: sweep_flows_and_refresh_loads_def sweep_flows_inner_def sample_flow_env_def sweep_entry_def
        flow_expired_sweep_def sample_flow_def saturating_sub_def count_pair_def load_key_def replace_active_flows_def
        retain_keys_def fresh_dp_def Let_def)
  then obtain d' where run: "sweep_flows_and_refresh_loads ?env 2000 ?d = (Inr 0, d')" by blast
  have pins: "fe_flows ?env = PinOpen (plain_ops [sample_key, sample_reply_key])"
    "fe_active ?env = PinOpen (plain_ops [\<lparr>ld_listener_id = 7, ld_target_id = 0\<rparr>])" by (simp_all add: sample_flow_env_def)
  show ?thesis
    using sweep_counts_connections [OF pins(1) plain_ops_ok pins(2) plain_ops_ok _ run] run sample_table_complete by auto
qed

end
