(* ===== verification/Xsync.thy ===== *)
theory Xsync
  imports Flow_Table Ha_State "HOL-Library.AList" "HOL-Library.Multiset"
begin

text \<open>
  Replication of connections between the gateways of a pair (\<^verbatim>\<open>edge-lb/src/provider/native/xsync.rs\<close>).  The master
  collects flow mutations in a batch keyed by flow, sends the batch, and remembers in its replica index
  what the peer has acknowledged; the backup authorises each request and applies it to its own flow table.
  Timestamps travel as ages, because the monotonic clocks of two machines are unrelated.  Clock readings,
  the iteration order of hash maps, the ring buffer's contents and the gRPC transport are arguments.
\<close>

section \<open>Messages\<close>

record FlowKey =
  pk_src :: u32
  pk_dst :: u32
  pk_sport :: u32
  pk_dport :: u32
  pk_proto :: u32

record FlowValue =
  pv_listener_id :: u32
  pv_target_id :: u32
  pv_vip :: u32
  pv_target :: u32
  pv_vip_port :: u32
  pv_target_port :: u32
  pv_timeout_secs :: u32
  pv_last_seen_age_ns :: u64

record FlowEntry =
  pe_key :: "FlowKey option"
  pe_value :: "FlowValue option"

record FlowSyncRequest =
  fq_source :: string
  fq_token :: string
  fq_entries :: "FlowEntry list"
  fq_deletes :: "FlowKey list"

record FlowSyncResponse =
  fr_applied :: u64

datatype xsync_error =
    SportRange | DportRange | ProtoRange | KeyRequired | ValueRequired | VipPortRange | TargetPortRange
  | PeerAddressMissing | PeerNotConfigured | BadPeerAddress | SourceNotPeer | NameNotPeer | AuthenticationFailed
  | MasterRefuses | HaFailed gateway_error | FlowsFailed flow_error | TokenUnavailable | ConnectFailed | PeerClosed

definition key_to_proto :: "NativeFlowKey \<Rightarrow> FlowKey" where
  "key_to_proto key = \<lparr>pk_src = fk_src key, pk_dst = fk_dst key, pk_sport = ucast (fk_sport key), pk_dport = ucast (fk_dport key),
     pk_proto = ucast (fk_proto key)\<rparr>"

definition key_from_proto :: "FlowKey \<Rightarrow> xsync_error + NativeFlowKey" where
  "key_from_proto key =
     and_then (check (pk_sport key \<le> 65535) SportRange) (\<lambda>_.
     and_then (check (pk_dport key \<le> 65535) DportRange) (\<lambda>_.
     and_then (check (pk_proto key \<le> 255) ProtoRange) (\<lambda>_.
     Inr \<lparr>fk_src = pk_src key, fk_dst = pk_dst key, fk_sport = ucast (pk_sport key), fk_dport = ucast (pk_dport key),
       fk_proto = ucast (pk_proto key), fk_pad = [0, 0, 0]\<rparr>)))"

definition flow_age_ns :: "u64 \<Rightarrow> u64 \<Rightarrow> u64" where
  "flow_age_ns last_seen_ns now_ns = (if last_seen_ns = 0 then 0 else saturating_sub now_ns last_seen_ns)"

definition local_last_seen_ns :: "u64 \<Rightarrow> u64 \<Rightarrow> u64" where
  "local_last_seen_ns age_ns now_ns = (if age_ns = 0 then now_ns else saturating_sub now_ns age_ns)"

definition entry_to_proto :: "u64 \<Rightarrow> NativeFlowKey \<times> NativeFlowValue \<Rightarrow> FlowEntry" where
  "entry_to_proto now_ns e = (case e of (key, val) \<Rightarrow>
     \<lparr>pe_key = Some (key_to_proto key),
      pe_value = Some \<lparr>pv_listener_id = fv_listener_id val, pv_target_id = fv_target_id val, pv_vip = fv_vip val,
        pv_target = fv_target val, pv_vip_port = ucast (fv_vip_port val), pv_target_port = ucast (fv_target_port val),
        pv_timeout_secs = fv_timeout_secs val, pv_last_seen_age_ns = flow_age_ns (fv_last_seen_ns val) now_ns\<rparr>\<rparr>)"

definition entry_from_proto_at :: "FlowEntry \<Rightarrow> u64 \<Rightarrow> xsync_error + NativeFlowKey \<times> NativeFlowValue" where
  "entry_from_proto_at entry now_ns =
     and_then (and_then (ok_or (pe_key entry) KeyRequired) key_from_proto) (\<lambda>key.
     and_then (ok_or (pe_value entry) ValueRequired) (\<lambda>val.
     and_then (check (pv_vip_port val \<le> 65535) VipPortRange) (\<lambda>_.
     and_then (check (pv_target_port val \<le> 65535) TargetPortRange) (\<lambda>_.
     Inr (key, \<lparr>fv_listener_id = pv_listener_id val, fv_target_id = pv_target_id val, fv_vip = pv_vip val, fv_target = pv_target val,
       fv_vip_port = ucast (pv_vip_port val), fv_target_port = ucast (pv_target_port val), fv_timeout_secs = pv_timeout_secs val,
       fv_last_seen_ns = local_last_seen_ns (pv_last_seen_age_ns val) now_ns\<rparr>)))))"

section \<open>The backup's side\<close>

definition authorize_proto_request ::
    "codec \<Rightarrow> FileConfig \<Rightarrow> Repository \<Rightarrow> IpAddr option \<Rightarrow> FlowSyncRequest \<Rightarrow> xsync_error + unit" where
  "authorize_proto_request c cfg repo remote request =
     and_then (ok_or remote PeerAddressMissing) (\<lambda>ip.
     and_then (map_err HaFailed (load_for_state_dir c repo)) (\<lambda>ha_cfg.
     and_then (case hr_peers ha_cfg of [] \<Rightarrow> Inl PeerNotConfigured | peer # _ \<Rightarrow> Inr peer) (\<lambda>peer.
     and_then (ok_or (parse_ip_addr (hp_underlay_ip peer)) BadPeerAddress) (\<lambda>peer_ip.
     and_then (check (ip = peer_ip) SourceNotPeer) (\<lambda>_.
     and_then (check (fq_source request = hp_name peer) NameNotPeer) (\<lambda>_.
     and_then (map_err HaFailed (load_secrets_for_state_dir c repo)) (\<lambda>secrets.
     and_then (check (session_token_matches secrets (fq_token request)) AuthenticationFailed) (\<lambda>_.
     and_then (map_err HaFailed (ha_state c cfg repo)) (\<lambda>st.
     check (nh_state st \<noteq> ''MASTER'') MasterRefuses)))))))))"

text \<open>The clock is read once for each entry.\<close>

definition apply_proto_request ::
    "flow_env \<Rightarrow> (nat \<Rightarrow> u64) \<Rightarrow> FlowSyncRequest \<Rightarrow> dp \<Rightarrow> (xsync_error + nat) \<times> dp" where
  "apply_proto_request env clock request d =
     (case and_then (collect (map (\<lambda>(i, e). entry_from_proto_at e (clock i)) (enumerate 0 (fq_entries request)))) (\<lambda>entries.
           and_then (collect (map key_from_proto (fq_deletes request))) (\<lambda>deletes. Inr (entries, deletes))) of
        Inl e \<Rightarrow> (Inl e, d)
      | Inr (entries, deletes) \<Rightarrow>
          (case upsert_flows env entries d of
             (Inl e, d1) \<Rightarrow> (Inl (FlowsFailed e), d1)
           | (Inr n, d1) \<Rightarrow>
               (case delete_flows env deletes d1 of
                  (Inl e, d2) \<Rightarrow> (Inl (FlowsFailed e), d2)
                | (Inr m, d2) \<Rightarrow> (Inr (n + m), d2))))"

text \<open>The stream of a connection.  Every request finds a repository and a clock of its own time; the first
  refusal or failure ends the stream.\<close>

record inbound =
  in_repo :: Repository
  in_clock :: "nat \<Rightarrow> u64"
  in_request :: FlowSyncRequest

fun serve_requests ::
    "codec \<Rightarrow> FileConfig \<Rightarrow> flow_env \<Rightarrow> IpAddr option \<Rightarrow> inbound list \<Rightarrow> dp \<Rightarrow> (xsync_error + FlowSyncResponse) list \<times> dp" where
  "serve_requests c cfg env remote [] d = ([], d)"
| "serve_requests c cfg env remote (m # rest) d =
     (case authorize_proto_request c cfg (in_repo m) remote (in_request m) of
        Inl e \<Rightarrow> ([Inl e], d)
      | Inr _ \<Rightarrow>
          (case apply_proto_request env (in_clock m) (in_request m) d of
             (Inl e, d1) \<Rightarrow> ([Inl e], d1)
           | (Inr applied, d1) \<Rightarrow>
               (case serve_requests c cfg env remote rest d1 of
                  (responses, d2) \<Rightarrow> (Inr \<lparr>fr_applied = of_nat applied\<rparr> # responses, d2))))"

definition replicate_stream ::
    "codec \<Rightarrow> FileConfig \<Rightarrow> flow_env \<Rightarrow> IpAddr option \<Rightarrow> Repository \<Rightarrow> inbound list \<Rightarrow> dp \<Rightarrow>
     (xsync_error option + (xsync_error + FlowSyncResponse) list) \<times> dp" where
  "replicate_stream c cfg env remote repo messages d =
     (case messages of
        [] \<Rightarrow> (Inl None, d)
      | first # _ \<Rightarrow>
          (case authorize_proto_request c cfg repo remote (in_request first) of
             Inl e \<Rightarrow> (Inl (Some e), d)
           | Inr _ \<Rightarrow> (case serve_requests c cfg env remote messages d of (responses, d') \<Rightarrow> (Inr responses, d'))))"

section \<open>The pending batch\<close>

definition MAX_SYNC_OPS_PER_BATCH :: nat where
  "MAX_SYNC_OPS_PER_BATCH = 4096"

text \<open>Instants and durations are in milliseconds.\<close>

definition PENDING_FLUSH_INTERVAL :: nat where
  "PENDING_FLUSH_INTERVAL = 50"

datatype FlowBatchState = BatchUpsert "NativeFlowKey \<times> NativeFlowValue" | BatchDelete NativeFlowKey

record PendingFlowBatch =
  pb_states :: "(NativeFlowKey \<times> FlowBatchState) list"
  pb_oldest_update_at :: "nat option"

record FlowSyncBatch =
  fb_entries :: "(NativeFlowKey \<times> NativeFlowValue) list"
  fb_deletes :: "NativeFlowKey list"

definition default_pending :: PendingFlowBatch where
  "default_pending = \<lparr>pb_states = [], pb_oldest_update_at = None\<rparr>"

definition operation_count :: "FlowSyncBatch \<Rightarrow> nat" where
  "operation_count batch = length (fb_entries batch) + length (fb_deletes batch)"

definition mark_updated :: "nat \<Rightarrow> PendingFlowBatch \<Rightarrow> PendingFlowBatch" where
  "mark_updated now p = (if pb_oldest_update_at p = None then p\<lparr>pb_oldest_update_at := Some now\<rparr> else p)"

definition apply_upsert :: "NativeFlowKey \<times> NativeFlowValue \<Rightarrow> PendingFlowBatch \<Rightarrow> PendingFlowBatch" where
  "apply_upsert entry p =
     (if (case map_of (pb_states p) (fst entry) of
            None \<Rightarrow> True
          | Some (BatchUpsert (_, val)) \<Rightarrow> fv_last_seen_ns (snd entry) \<ge> fv_last_seen_ns val
          | Some (BatchDelete _) \<Rightarrow> True)
      then p\<lparr>pb_states := AList.update (fst entry) (BatchUpsert entry) (pb_states p)\<rparr>
      else p)"

definition apply_delete :: "NativeFlowKey \<Rightarrow> PendingFlowBatch \<Rightarrow> PendingFlowBatch" where
  "apply_delete key p = p\<lparr>pb_states := AList.update key (BatchDelete key) (pb_states p)\<rparr>"

definition apply_mutations :: "FlowMutation list \<Rightarrow> nat \<Rightarrow> PendingFlowBatch \<Rightarrow> PendingFlowBatch" where
  "apply_mutations mutations now p =
     (if mutations = [] then p
      else foldl (\<lambda>p mutation. case mutation of Upsert entry \<Rightarrow> apply_upsert entry p | Delete key \<Rightarrow> apply_delete key p)
        (mark_updated now p) mutations)"

definition apply_entries :: "(NativeFlowKey \<times> NativeFlowValue) list \<Rightarrow> nat \<Rightarrow> PendingFlowBatch \<Rightarrow> PendingFlowBatch" where
  "apply_entries entries now p =
     (if entries = [] then p else foldl (\<lambda>p entry. apply_upsert entry p) (mark_updated now p) entries)"

definition apply_deletes :: "NativeFlowKey list \<Rightarrow> nat \<Rightarrow> PendingFlowBatch \<Rightarrow> PendingFlowBatch" where
  "apply_deletes keys now p =
     (if keys = [] then p else foldl (\<lambda>p key. apply_delete key p) (mark_updated now p) keys)"

definition requeue_batch :: "FlowSyncBatch \<Rightarrow> nat \<Rightarrow> PendingFlowBatch \<Rightarrow> PendingFlowBatch" where
  "requeue_batch batch now p = apply_entries (fb_entries batch) now (apply_deletes (fb_deletes batch) now p)"

definition should_flush :: "nat \<Rightarrow> bool \<Rightarrow> PendingFlowBatch \<Rightarrow> bool" where
  "should_flush now force p =
     (if pb_states p = [] then False
      else force \<or> length (pb_states p) \<ge> MAX_SYNC_OPS_PER_BATCH \<or>
        (case pb_oldest_update_at p of None \<Rightarrow> False | Some oldest \<Rightarrow> now - oldest \<ge> PENDING_FLUSH_INTERVAL))"

fun is_upsert :: "FlowBatchState \<Rightarrow> bool" where
  "is_upsert (BatchUpsert _) = True"
| "is_upsert (BatchDelete _) = False"

fun push_keys :: "(FlowBatchState \<Rightarrow> bool) \<Rightarrow> NativeFlowKey list \<Rightarrow> (NativeFlowKey \<times> FlowBatchState) list \<Rightarrow> NativeFlowKey list" where
  "push_keys sel keys [] = keys"
| "push_keys sel keys ((key, st) # rest) =
     (if sel st
      then if length (keys @ [key]) \<ge> MAX_SYNC_OPS_PER_BATCH then keys @ [key] else push_keys sel (keys @ [key]) rest
      else push_keys sel keys rest)"

fun take_key :: "(NativeFlowKey \<times> FlowBatchState) list \<times> FlowSyncBatch \<Rightarrow> NativeFlowKey \<Rightarrow>
    (NativeFlowKey \<times> FlowBatchState) list \<times> FlowSyncBatch" where
  "take_key (states, batch) key =
     (AList.delete key states,
      case map_of states key of
        Some (BatchUpsert entry) \<Rightarrow> batch\<lparr>fb_entries := fb_entries batch @ [entry]\<rparr>
      | Some (BatchDelete k) \<Rightarrow> batch\<lparr>fb_deletes := fb_deletes batch @ [k]\<rparr>
      | None \<Rightarrow> batch)"

text \<open>\<open>iter\<close> lists the states in the order in which the hash map is iterated.\<close>

definition take_limited_batch ::
    "(NativeFlowKey \<times> FlowBatchState) list \<Rightarrow> nat \<Rightarrow> PendingFlowBatch \<Rightarrow> FlowSyncBatch \<times> PendingFlowBatch" where
  "take_limited_batch iter now p =
     (let keys1 = push_keys is_upsert [] iter;
          keys = (if length keys1 < MAX_SYNC_OPS_PER_BATCH then push_keys (Not \<circ> is_upsert) keys1 iter else keys1) in
      case foldl take_key (pb_states p, \<lparr>fb_entries = [], fb_deletes = []\<rparr>) keys of
        (states, batch) \<Rightarrow> (batch, \<lparr>pb_states = states, pb_oldest_update_at = (if states = [] then None else Some now)\<rparr>))"

section \<open>The master's session\<close>

definition RECONCILE_RECOVERY_INTERVAL :: nat where
  "RECONCILE_RECOVERY_INTERVAL = 2000"

definition RECONCILE_HEALTHY_INTERVAL :: nat where
  "RECONCILE_HEALTHY_INTERVAL = 10000"

definition RECONCILE_RECOVERY_ROUNDS :: u8 where
  "RECONCILE_RECOVERY_ROUNDS = 3"

record FullReconcileSchedule =
  rc_next_at :: nat
  rc_recovery_rounds :: u8

definition new_schedule :: "nat \<Rightarrow> FullReconcileSchedule" where
  "new_schedule now = \<lparr>rc_next_at = now, rc_recovery_rounds = 0\<rparr>"

definition due :: "nat \<Rightarrow> FullReconcileSchedule \<Rightarrow> bool" where
  "due now r \<longleftrightarrow> now \<ge> rc_next_at r"

definition mark_completed :: "nat \<Rightarrow> FullReconcileSchedule \<Rightarrow> FullReconcileSchedule" where
  "mark_completed now r =
     (if rc_recovery_rounds r > 0
      then \<lparr>rc_next_at = now + RECONCILE_RECOVERY_INTERVAL, rc_recovery_rounds = saturating_sub (rc_recovery_rounds r) 1\<rparr>
      else r\<lparr>rc_next_at := now + RECONCILE_HEALTHY_INTERVAL\<rparr>)"

definition force_recovery :: "nat \<Rightarrow> FullReconcileSchedule \<Rightarrow> FullReconcileSchedule" where
  "force_recovery now r = \<lparr>rc_next_at = now, rc_recovery_rounds = RECONCILE_RECOVERY_ROUNDS\<rparr>"

definition flow_ack_covers_sent :: "nat \<Rightarrow> u64 \<Rightarrow> bool" where
  "flow_ack_covers_sent sent accepted \<longleftrightarrow> unat accepted = sent"

record XsyncStatus =
  xst_state :: string
  xst_peer :: "string option"
  xst_last_error :: "string option"
  xst_last_ack_applied :: nat

definition set_state :: "string \<Rightarrow> string option \<Rightarrow> string option \<Rightarrow> XsyncStatus \<Rightarrow> XsyncStatus" where
  "set_state state_value peer error st =
     st\<lparr>xst_state := state_value, xst_peer := (if peer \<noteq> None then peer else xst_peer st), xst_last_error := error\<rparr>"

definition set_ack :: "nat \<Rightarrow> XsyncStatus \<Rightarrow> XsyncStatus" where
  "set_ack applied st = st\<lparr>xst_last_ack_applied := applied\<rparr>"

record session =
  xs_replica :: "(NativeFlowKey \<times> u64) list"
  xs_pending :: PendingFlowBatch
  xs_reconcile :: FullReconcileSchedule
  xs_status :: XsyncStatus

text \<open>What one round of the loop reads outside the session and the flow table.\<close>

record 'p round =
  rd_shutdown :: bool
  rd_role :: "gateway_error + NativeHaState"
  rd_events :: "NativeFlowEvent option list option"
  rd_now :: nat
  rd_uses_lc :: "model_error + bool"
  rd_flow_env :: flow_env
  rd_sweep_ns :: u64
  rd_completed_at :: nat
  rd_flush_at :: nat
  rd_iter :: "(NativeFlowKey \<times> FlowBatchState) list \<Rightarrow> (NativeFlowKey \<times> FlowBatchState) list"
  rd_taken_at :: nat
  rd_sync_ns :: u64
  rd_send :: "FlowSyncRequest \<Rightarrow> 'p \<Rightarrow> (xsync_error + FlowSyncResponse) \<times> 'p"
  rd_acked_at :: nat

definition native_config_uses_least_connections :: "FileConfig \<Rightarrow> u32 option \<Rightarrow> model_error + bool" where
  "native_config_uses_least_connections cfg shared_vip =
     and_then (listeners_from_config cfg shared_vip) (\<lambda>ls. Inr (\<exists>l\<in>set ls. nl_select l = select_code Lc))"

definition sweep_flows_for_xsync :: "flow_env \<Rightarrow> model_error + bool \<Rightarrow> u64 \<Rightarrow> dp \<Rightarrow> dp" where
  "sweep_flows_for_xsync env uses_lc now d =
     (case uses_lc of
        Inl _ \<Rightarrow> d
      | Inr lc \<Rightarrow> snd (if lc then sweep_flows_and_refresh_loads env now d else sweep_flows env now d))"

text \<open>The flows that are new or fresher than what the peer acknowledged, and the acknowledged ones that are gone.\<close>

definition new_entries ::
    "(NativeFlowKey \<times> u64) list \<Rightarrow> (NativeFlowKey \<times> NativeFlowValue) list \<Rightarrow> (NativeFlowKey \<times> NativeFlowValue) list" where
  "new_entries replica flows =
     filter (\<lambda>(key, val). case map_of replica key of None \<Rightarrow> True | Some seen \<Rightarrow> fv_last_seen_ns val > seen) flows"

definition gone_keys :: "(NativeFlowKey \<times> u64) list \<Rightarrow> (NativeFlowKey \<times> NativeFlowValue) list \<Rightarrow> NativeFlowKey list" where
  "gone_keys replica flows = filter (\<lambda>key. key \<notin> fst ` set flows) (map fst replica)"

definition reconciled ::
    "(NativeFlowKey \<times> u64) list \<Rightarrow> (NativeFlowKey \<times> NativeFlowValue) list \<Rightarrow> nat \<Rightarrow> PendingFlowBatch \<Rightarrow> PendingFlowBatch" where
  "reconciled replica flows now p = apply_entries (new_entries replica flows) now (apply_deletes (gone_keys replica flows) now p)"

definition full_reconcile :: "'p round \<Rightarrow> session \<Rightarrow> dp \<Rightarrow> (xsync_error + session) \<times> dp" where
  "full_reconcile rd s d =
     (let d1 = sweep_flows_for_xsync (rd_flow_env rd) (rd_uses_lc rd) (rd_sweep_ns rd) d in
      case dump_flows (rd_flow_env rd) d1 of
        Inl e \<Rightarrow> (Inl (FlowsFailed e), d1)
      | Inr flows \<Rightarrow>
          (Inr (s\<lparr>xs_pending := reconciled (xs_replica s) flows (rd_now rd) (xs_pending s),
             xs_reconcile := mark_completed (rd_completed_at rd) (xs_reconcile s)\<rparr>), d1))"

definition acknowledged :: "FlowSyncBatch \<Rightarrow> (NativeFlowKey \<times> u64) list \<Rightarrow> (NativeFlowKey \<times> u64) list" where
  "acknowledged batch replica =
     foldl (\<lambda>r key. AList.delete key r)
       (foldl (\<lambda>r (key, val). AList.update key (fv_last_seen_ns val) r) replica (fb_entries batch)) (fb_deletes batch)"

definition batch_request :: "string \<Rightarrow> string \<Rightarrow> u64 \<Rightarrow> FlowSyncBatch \<Rightarrow> FlowSyncRequest" where
  "batch_request node_name token now_ns batch = \<lparr>fq_source = node_name, fq_token = token,
     fq_entries = map (entry_to_proto now_ns) (fb_entries batch), fq_deletes = map key_to_proto (fb_deletes batch)\<rparr>"

definition flush_pending :: "string \<Rightarrow> string \<Rightarrow> 'p round \<Rightarrow> session \<times> 'p \<Rightarrow> (xsync_error + session) \<times> 'p" where
  "flush_pending node_name token rd sp =
     (case sp of (s, p) \<Rightarrow>
      (case take_limited_batch (rd_iter rd (pb_states (xs_pending s))) (rd_taken_at rd) (xs_pending s) of
         (batch, pending) \<Rightarrow>
           let s1 = s\<lparr>xs_pending := pending\<rparr> in
           if fb_entries batch = [] \<and> fb_deletes batch = [] then (Inr s1, p)
           else
             (case rd_send rd (batch_request node_name token (rd_sync_ns rd) batch) p of
                (Inl e, p') \<Rightarrow> (Inl e, p')
              | (Inr ack, p') \<Rightarrow>
                  let s2 = s1\<lparr>xs_status := set_ack (unat (fr_applied ack)) (xs_status s1)\<rparr> in
                  if \<not> flow_ack_covers_sent (operation_count batch) (fr_applied ack)
                  then (Inr (s2\<lparr>xs_pending := requeue_batch batch (rd_acked_at rd) pending,
                    xs_reconcile := force_recovery (rd_acked_at rd) (xs_reconcile s2)\<rparr>), p')
                  else (Inr (s2\<lparr>xs_replica := acknowledged batch (xs_replica s2)\<rparr>), p'))))"

datatype round_result = Again session | Stopped session | Failed xsync_error

definition sync_round ::
    "string \<Rightarrow> string \<Rightarrow> 'p round \<Rightarrow> session \<times> dp \<times> 'p \<Rightarrow> round_result \<times> dp \<times> 'p" where
  "sync_round node_name token rd sdp =
     (case sdp of (s, d, p) \<Rightarrow>
      if rd_shutdown rd then (Stopped s, d, p)
      else case rd_role rd of
          Inl e \<Rightarrow> (Failed (HaFailed e), d, p)
        | Inr st \<Rightarrow>
            if nh_state st \<noteq> ''MASTER'' then (Stopped (s\<lparr>xs_status := set_state ''standby'' None None (xs_status s)\<rparr>), d, p)
            else
              let mutations = (case rd_events rd of None \<Rightarrow> [] | Some items \<Rightarrow> drain_flow_events items);
                  s1 = s\<lparr>xs_pending := apply_mutations mutations (rd_now rd) (xs_pending s)\<rparr>;
                  force = due (rd_now rd) (xs_reconcile s1) in
              (case (if force then full_reconcile rd s1 d else (Inr s1, d)) of
                 (Inl e, d1) \<Rightarrow> (Failed e, d1, p)
               | (Inr s2, d1) \<Rightarrow>
                   if should_flush (rd_flush_at rd) force (xs_pending s2)
                   then case flush_pending node_name token rd (s2, p) of
                       (Inl e, p') \<Rightarrow> (Failed e, d1, p')
                     | (Inr s3, p') \<Rightarrow> (Again s3, d1, p')
                   else (Again s2, d1, p)))"

text \<open>The start of a session: the peer, its endpoint and the token; \<open>None\<close> when this gateway does not replicate.\<close>

definition session_target ::
    "codec \<Rightarrow> FileConfig \<Rightarrow> Repository \<Rightarrow> xsync_error + (GatewayHaPeer \<times> string \<times> string) option" where
  "session_target c cfg repo =
     and_then (map_err HaFailed (load_for_state_dir c repo)) (\<lambda>ha_cfg.
     if \<not> hr_enabled ha_cfg \<or> \<not> hr_connection_sync ha_cfg then Inr None
     else and_then (map_err HaFailed (ha_state c cfg repo)) (\<lambda>st.
       if nh_state st \<noteq> ''MASTER'' then Inr None
       else and_then (case hr_peers ha_cfg of [] \<Rightarrow> Inl PeerNotConfigured | peer # _ \<Rightarrow> Inr peer) (\<lambda>peer.
         and_then (map_err HaFailed (load_secrets_for_state_dir c repo)) (\<lambda>secrets.
         and_then (ok_or secrets TokenUnavailable) (\<lambda>secret.
         let port = (case parse_socket_addr (cpc_listen (fc_control_plane cfg)) of
               Some (_, port) \<Rightarrow> port | None \<Rightarrow> xsc_port (hr_xsync ha_cfg)) in
         Inr (Some (peer, ''http://'' @ hp_underlay_ip peer @ '':'' @ show_nat (unat port), sec_session_token secret)))))))"

definition handshake_request :: "FileConfig \<Rightarrow> string \<Rightarrow> FlowSyncRequest" where
  "handshake_request cfg token = \<lparr>fq_source = fc_node_name cfg, fq_token = token, fq_entries = [], fq_deletes = []\<rparr>"

definition start_session :: "string \<Rightarrow> nat \<Rightarrow> XsyncStatus \<Rightarrow> session" where
  "start_session endpoint now st = \<lparr>xs_replica = [], xs_pending = default_pending, xs_reconcile = new_schedule now,
     xs_status = set_state ''connected'' (Some endpoint) None st\<rparr>"

text \<open>The pause before the next session, in milliseconds.\<close>

definition next_backoff :: "gateway_error + GatewayHaRuntimeConfig \<Rightarrow> nat \<Rightarrow> nat" where
  "next_backoff ha backoff =
     min (backoff * 2) (case ha of Inl _ \<Rightarrow> 5000 | Inr v \<Rightarrow> max (unat (xsc_reconnect_max_ms (hr_xsync v))) 250)"

section \<open>Flows on the wire\<close>

lemma ucast_up_down [simp]: "ucast (ucast w :: u32) = w" for w :: u16
  by (rule bit_word_eqI) (simp add: bit_simps)

lemma ucast_up_down8 [simp]: "ucast (ucast w :: u32) = w" for w :: u8
  by (rule bit_word_eqI) (simp add: bit_simps)

lemma ucast_u16_bound [simp]: "(ucast w :: u32) \<le> 65535" for w :: u16
  using unat_word_lt [of w] by (simp add: word_le_nat_alt unsigned_ucast_eq take_bit_nat_eq_self)

lemma ucast_u8_bound [simp]: "(ucast w :: u32) \<le> 255" for w :: u8
  using unat_word_lt [of w] by (simp add: word_le_nat_alt unsigned_ucast_eq take_bit_nat_eq_self)

definition rebased :: "u64 \<Rightarrow> u64 \<Rightarrow> NativeFlowValue \<Rightarrow> NativeFlowValue" where
  "rebased now_ns now' val = val\<lparr>fv_last_seen_ns := local_last_seen_ns (flow_age_ns (fv_last_seen_ns val) now_ns) now'\<rparr>"

lemma key_proto_round_trip: "fk_pad key = [0, 0, 0] \<Longrightarrow> key_from_proto (key_to_proto key) = Inr key"
  by (cases key) (simp add: key_from_proto_def key_to_proto_def)

lemma entry_proto_round_trip:
  "fk_pad key = [0, 0, 0] \<Longrightarrow> entry_from_proto_at (entry_to_proto now (key, val)) now' = Inr (key, rebased now now' val)"
  by (cases val) (simp add: entry_from_proto_at_def entry_to_proto_def key_proto_round_trip rebased_def)

lemma word_add_of_nat: "unat now + dt < 2 ^ 64 \<Longrightarrow> unat (now + of_nat dt) = unat now + dt" for now :: u64
  by (simp add: unat_add_lt unat_of_nat_lt)

lemma rebased_age:
  assumes "fv_last_seen_ns val \<noteq> 0" "fv_last_seen_ns val \<le> now" "now - fv_last_seen_ns val < now'"
  shows "unat (fv_last_seen_ns (rebased now now' val)) = unat now' - (unat now - unat (fv_last_seen_ns val))"
    "fv_last_seen_ns (rebased now now' val) \<noteq> 0"
proof -
  have age: "unat (now - fv_last_seen_ns val) = unat now - unat (fv_last_seen_ns val)"
    using assms(2) by (simp add: unat_sub_if' word_le_nat_alt)
  then have lt: "unat now - unat (fv_last_seen_ns val) < unat now'"
    using assms(3) by (simp add: word_less_nat_alt)
  show eq: "unat (fv_last_seen_ns (rebased now now' val)) = unat now' - (unat now - unat (fv_last_seen_ns val))"
    using assms(1) by (auto simp: rebased_def local_last_seen_ns_def flow_age_ns_def simp flip: unat_eq_zero)
  have "unat (fv_last_seen_ns (rebased now now' val)) \<noteq> 0" unfolding eq using lt by simp
  then show "fv_last_seen_ns (rebased now now' val) \<noteq> 0" by auto
qed

lemma rebased_expires_alike:
  assumes seen: "fv_last_seen_ns val \<noteq> 0" "fv_last_seen_ns val \<le> now" "now - fv_last_seen_ns val < now'"
    and dt: "unat now + dt < 2 ^ 64" "unat now' + dt < 2 ^ 64"
  shows "flow_expired (fv_last_seen_ns (rebased now now' val)) (fv_timeout_secs val) (now' + of_nat dt) =
    flow_expired (fv_last_seen_ns val) (fv_timeout_secs val) (now + of_nat dt)"
proof -
  let ?v = "rebased now now' val"
  note r = rebased_age [OF seen]
  have age: "unat now - unat (fv_last_seen_ns val) < unat now'"
    using seen by (simp add: word_less_nat_alt word_le_nat_alt unat_sub_if')
  have "unat (saturating_sub (now' + of_nat dt) (fv_last_seen_ns ?v)) = unat (saturating_sub (now + of_nat dt) (fv_last_seen_ns val))"
    unfolding unat_saturating_sub word_add_of_nat [OF dt(1)] word_add_of_nat [OF dt(2)] r(1)
    using age seen(2) unfolding word_le_nat_alt by linarith
  then have "saturating_sub (now' + of_nat dt) (fv_last_seen_ns ?v) = saturating_sub (now + of_nat dt) (fv_last_seen_ns val)"
    by (simp only: unat_eq_iff)
  then show ?thesis using r(2) seen(1) by (simp add: flow_expired_def)
qed

lemma rebased_overaged:
  assumes "fv_last_seen_ns val \<noteq> 0" "fv_last_seen_ns val < now" "now' \<le> now - fv_last_seen_ns val"
  shows "fv_last_seen_ns (rebased now now' val) = 0"
proof -
  have sub: "unat (now - fv_last_seen_ns val) = unat now - unat (fv_last_seen_ns val)"
    using assms(2) by (simp add: unat_sub_if' word_less_nat_alt)
  have "flow_age_ns (fv_last_seen_ns val) now = now - fv_last_seen_ns val"
    using assms(1,2) by (auto simp: flow_age_ns_def saturating_sub_def)
  moreover have "unat (now - fv_last_seen_ns val) \<noteq> 0" using assms(2) unfolding sub by (simp add: word_less_nat_alt)
  then have "now - fv_last_seen_ns val \<noteq> 0" by (metis unat_0)
  ultimately have "unat (fv_last_seen_ns (rebased now now' val)) = 0"
    using assms(3) by (simp add: rebased_def local_last_seen_ns_def word_le_nat_alt)
  then show ?thesis by (simp only: unat_eq_zero)
qed



section \<open>Batches\<close>

fun state_key :: "FlowBatchState \<Rightarrow> NativeFlowKey" where
  "state_key (BatchUpsert entry) = fst entry"
| "state_key (BatchDelete key) = key"

text \<open>Every state is stored under its own key, once.\<close>

definition batch_wf :: "(NativeFlowKey \<times> FlowBatchState) list \<Rightarrow> bool" where
  "batch_wf states \<longleftrightarrow> distinct (map fst states) \<and> (\<forall>(k, st)\<in>set states. state_key st = k)"

definition ops_of :: "FlowSyncBatch \<Rightarrow> (NativeFlowKey \<times> FlowBatchState) multiset" where
  "ops_of batch = mset (map (\<lambda>e. (fst e, BatchUpsert e)) (fb_entries batch)) + mset (map (\<lambda>k. (k, BatchDelete k)) (fb_deletes batch))"

lemma batch_wf_perm: "batch_wf xs \<Longrightarrow> mset ys = mset xs \<Longrightarrow> batch_wf ys"
  unfolding batch_wf_def by (metis mset_eq_imp_distinct_iff mset_eq_setD mset_map)

lemma set_delete_subset: "set (AList.delete k xs) \<subseteq> set xs"
  by (auto simp: AList.delete_eq)

lemma batch_wf_delete: "batch_wf xs \<Longrightarrow> batch_wf (AList.delete k xs)"
  by (auto simp: batch_wf_def distinct_delete dest: set_mp [OF set_delete_subset])

lemma batch_wf_update:
  assumes "batch_wf xs" "state_key st = k"
  shows "batch_wf (AList.update k st xs)"
proof -
  have d: "distinct (map fst (AList.update k st xs))" using assms(1) by (simp add: batch_wf_def distinct_update)
  have "state_key st' = k'" if "(k', st') \<in> set (AList.update k st xs)" for k' st'
  proof -
    have "map_of (AList.update k st xs) k' = Some st'" using d that by simp
    then have "k' = k \<and> st' = st \<or> map_of xs k' = Some st'" by (auto simp: update_conv' split: if_splits)
    then show ?thesis using assms by (auto simp: batch_wf_def dest: map_of_SomeD)
  qed
  then show ?thesis using d by (auto simp: batch_wf_def)
qed

lemma push_keys_eq:
  "length keys < MAX_SYNC_OPS_PER_BATCH \<Longrightarrow>
   push_keys sel keys iter = keys @ take (MAX_SYNC_OPS_PER_BATCH - length keys) (map fst (filter (sel \<circ> snd) iter))"
proof (induction sel keys iter rule: push_keys.induct)
  case (2 sel keys key st rest)
  show ?case
  proof (cases "sel st \<and> length (keys @ [key]) < MAX_SYNC_OPS_PER_BATCH")
    case True
    then have "MAX_SYNC_OPS_PER_BATCH - length keys = Suc (MAX_SYNC_OPS_PER_BATCH - length (keys @ [key]))" by auto
    then show ?thesis using 2 True by simp
  next
    case False
    then have "sel st \<Longrightarrow> MAX_SYNC_OPS_PER_BATCH - length keys = 1" using 2(3) by simp
    then show ?thesis using 2 False by (cases "sel st") simp_all
  qed
qed simp

definition chosen_keys :: "(NativeFlowKey \<times> FlowBatchState) list \<Rightarrow> NativeFlowKey list" where
  "chosen_keys iter = take MAX_SYNC_OPS_PER_BATCH (map fst (filter (is_upsert \<circ> snd) iter @ filter (Not \<circ> is_upsert \<circ> snd) iter))"

lemma chosen_keys_pushed:
  "(let keys1 = push_keys is_upsert [] iter in
    if length keys1 < MAX_SYNC_OPS_PER_BATCH then push_keys (Not \<circ> is_upsert) keys1 iter else keys1) = chosen_keys iter"
proof -
  have max: "0 < MAX_SYNC_OPS_PER_BATCH" by (simp add: MAX_SYNC_OPS_PER_BATCH_def)
  show ?thesis using max by (auto simp: chosen_keys_def push_keys_eq comp_assoc Let_def)
qed

lemma chosen_keys_spec:
  assumes "batch_wf states" "mset iter = mset states"
  shows "distinct (chosen_keys iter)" "set (chosen_keys iter) \<subseteq> fst ` set states"
    "length (chosen_keys iter) = min MAX_SYNC_OPS_PER_BATCH (length states)"
proof -
  let ?all = "filter (is_upsert \<circ> snd) iter @ filter (Not \<circ> is_upsert \<circ> snd) iter"
  have mset: "mset ?all = mset states" using assms(2) by (simp add: comp_def flip: multiset_partition)
  have "distinct (map fst ?all)" using batch_wf_perm [OF assms(1) mset] by (simp only: batch_wf_def)
  then show "distinct (chosen_keys iter)" unfolding chosen_keys_def by (rule distinct_take)
  have "set ?all = set states" using mset by (rule mset_eq_setD)
  then show "set (chosen_keys iter) \<subseteq> fst ` set states" unfolding chosen_keys_def by (metis set_map set_take_subset)
  have "length ?all = length states" using mset by (rule mset_eq_length)
  then show "length (chosen_keys iter) = min MAX_SYNC_OPS_PER_BATCH (length states)"
    by (simp add: chosen_keys_def min.commute)
qed

lemma mset_delete_key:
  assumes "batch_wf states" "map_of states k = Some st"
  shows "mset states = {#(k, st)#} + mset (AList.delete k states)"
  using assms
proof (induction states)
  case (Cons x states)
  obtain a b where x: "x = (a, b)" by (cases x)
  have wf: "batch_wf states" and new: "a \<notin> fst ` set states" using Cons.prems(1) x by (auto simp: batch_wf_def)
  show ?case
  proof (cases "a = k")
    case True
    then have "AList.delete k states = states" using new by (simp add: delete_idem)
    then show ?thesis using True Cons.prems x by simp
  next
    case False
    then show ?thesis using Cons.IH [OF wf] Cons.prems(2) x by simp
  qed
qed simp

lemma take_key_ops:
  assumes "batch_wf states" "map_of states k = Some st"
  shows "ops_of (snd (take_key (states, batch) k)) = ops_of batch + {#(k, st)#}"
proof -
  have "state_key st = k" using assms by (auto simp: batch_wf_def dest: map_of_SomeD)
  then show ?thesis using assms(2) by (cases st) (auto simp: ops_of_def)
qed

lemma take_keys_spec:
  assumes "batch_wf states" "distinct keys" "set keys \<subseteq> fst ` set states" "foldl take_key (states, batch) keys = (states', batch')"
  shows "batch_wf states' \<and> mset states + ops_of batch = mset states' + ops_of batch' \<and> length states' = length states - length keys \<and>
    fst ` set states' = fst ` set states - set keys"
  using assms
proof (induction keys arbitrary: states batch)
  case (Cons k keys)
  obtain st where st: "map_of states k = Some st" using Cons.prems(3) by (metis list.set_intros(1) map_of_eq_None_iff not_None_eq subsetD)
  let ?s = "AList.delete k states" and ?b = "snd (take_key (states, batch) k)"
  have keys: "fst ` set ?s = fst ` set states - {k}" by (force simp: AList.delete_eq)
  have run: "foldl take_key (?s, ?b) keys = (states', batch')" using Cons.prems(4) by simp
  have "set keys \<subseteq> fst ` set ?s" using Cons.prems(2,3) unfolding keys by auto
  note IH = Cons.IH [OF batch_wf_delete [OF Cons.prems(1)] _ this run]
  have m: "mset states = {#(k, st)#} + mset ?s" by (rule mset_delete_key [OF Cons.prems(1) st])
  from arg_cong [OF this, of size] have "length states = Suc (length ?s)" by simp
  then show ?case using IH Cons.prems(2) m take_key_ops [OF Cons.prems(1) st, of batch] keys by auto
qed auto

lemma take_limited_batch_spec:
  assumes "batch_wf (pb_states p)" "mset iter = mset (pb_states p)" "take_limited_batch iter now p = (batch, p')"
  shows "batch_wf (pb_states p')" "mset (pb_states p) = ops_of batch + mset (pb_states p')"
    "length (pb_states p') = length (pb_states p) - MAX_SYNC_OPS_PER_BATCH"
proof -
  obtain states where run: "foldl take_key (pb_states p, \<lparr>fb_entries = [], fb_deletes = []\<rparr>) (chosen_keys iter) = (states, batch)"
      "pb_states p' = states"
    using assms(3) unfolding take_limited_batch_def chosen_keys_pushed [symmetric] Let_def by (auto split: prod.splits)
  note c = chosen_keys_spec [OF assms(1,2)]
  show "batch_wf (pb_states p')" "mset (pb_states p) = ops_of batch + mset (pb_states p')"
    "length (pb_states p') = length (pb_states p) - MAX_SYNC_OPS_PER_BATCH"
    using take_keys_spec [OF assms(1) c(1,2) run(1)] c(3) by (auto simp: run(2) ops_of_def)
qed

lemma mset_update_new: "k \<notin> fst ` set xs \<Longrightarrow> mset (AList.update k v xs) = mset xs + {#(k, v)#}"
  by (induction xs) auto

lemma mset_insert_keys: "mset ys = mset xs + {#(k, v)#} \<Longrightarrow> fst ` set ys = insert k (fst ` set xs)"
proof -
  assume "mset ys = mset xs + {#(k, v)#}"
  then have "mset ys = mset ((k, v) # xs)" by simp
  then have "set ys = set ((k, v) # xs)" by (rule mset_eq_setD)
  then show "fst ` set ys = insert k (fst ` set xs)" by simp
qed

lemma requeue_deletes:
  "distinct ks \<Longrightarrow> set ks \<inter> fst ` set (pb_states p) = {} \<Longrightarrow>
   mset (pb_states (foldl (\<lambda>p key. apply_delete key p) p ks)) = mset (pb_states p) + mset (map (\<lambda>k. (k, BatchDelete k)) ks)"
proof (induction ks arbitrary: p)
  case (Cons k ks)
  have new: "k \<notin> fst ` set (pb_states p)" using Cons.prems by auto
  then have "mset (pb_states (apply_delete k p)) = mset (pb_states p) + {#(k, BatchDelete k)#}"
    by (simp add: apply_delete_def mset_update_new)
  moreover from this have "fst ` set (pb_states (apply_delete k p)) = insert k (fst ` set (pb_states p))"
    by (rule mset_insert_keys)
  ultimately show ?case using Cons by auto
qed simp

lemma requeue_entries:
  "distinct (map fst es) \<Longrightarrow> set (map fst es) \<inter> fst ` set (pb_states p) = {} \<Longrightarrow>
   mset (pb_states (foldl (\<lambda>p e. apply_upsert e p) p es)) = mset (pb_states p) + mset (map (\<lambda>e. (fst e, BatchUpsert e)) es)"
proof (induction es arbitrary: p)
  case (Cons e es)
  have new: "fst e \<notin> fst ` set (pb_states p)" using Cons.prems by auto
  then have "map_of (pb_states p) (fst e) = None" by (simp add: map_of_eq_None_iff)
  then have "mset (pb_states (apply_upsert e p)) = mset (pb_states p) + {#(fst e, BatchUpsert e)#}"
    using new by (simp add: apply_upsert_def mset_update_new)
  moreover from this have "fst ` set (pb_states (apply_upsert e p)) = insert (fst e) (fst ` set (pb_states p))"
    by (rule mset_insert_keys)
  ultimately show ?case using Cons by auto
qed simp

lemma mark_updated_states [simp]: "pb_states (mark_updated now p) = pb_states p"
  by (simp add: mark_updated_def)

lemma requeue_restores:
  assumes "batch_wf (pb_states p)" "mset iter = mset (pb_states p)" "take_limited_batch iter now p = (batch, p')"
  shows "mset (pb_states (requeue_batch batch now' p')) = mset (pb_states p)"
proof -
  note t = take_limited_batch_spec [OF assms]
  let ?es = "map (\<lambda>e. (fst e, BatchUpsert e)) (fb_entries batch)" and ?ks = "map (\<lambda>k. (k, BatchDelete k)) (fb_deletes batch)"
  have "mset (pb_states p) = mset (?es @ ?ks @ pb_states p')" using t(2) by (simp add: ops_of_def)
  from batch_wf_perm [OF assms(1) this [symmetric]]
  have d: "distinct (map fst (fb_entries batch) @ fb_deletes batch @ map fst (pb_states p'))"
    by (simp add: batch_wf_def comp_def)
  let ?p1 = "apply_deletes (fb_deletes batch) now' p'"
  have p1: "mset (pb_states ?p1) = mset (pb_states p') + mset ?ks"
    using requeue_deletes [of "fb_deletes batch" "mark_updated now' p'"] d by (auto simp: apply_deletes_def)
  then have "set (pb_states ?p1) = set (pb_states p') \<union> set ?ks" by (metis mset_append mset_eq_setD set_append)
  then have "fst ` set (pb_states ?p1) = fst ` set (pb_states p') \<union> set (fb_deletes batch)" by (force simp: image_Un)
  then have "set (map fst (fb_entries batch)) \<inter> fst ` set (pb_states ?p1) = {}" using d by auto
  then have "mset (pb_states (requeue_batch batch now' p')) = mset (pb_states ?p1) + mset ?es"
    using requeue_entries [of "fb_entries batch" "mark_updated now' ?p1"] d by (auto simp: requeue_batch_def apply_entries_def)
  then show ?thesis using p1 t(2) by (simp add: ops_of_def)
qed

text \<open>Successive batches, each with its own iteration order.\<close>

fun drain_batches ::
    "(((NativeFlowKey \<times> FlowBatchState) list \<Rightarrow> (NativeFlowKey \<times> FlowBatchState) list) \<times> nat) list \<Rightarrow> PendingFlowBatch \<Rightarrow>
     FlowSyncBatch list \<times> PendingFlowBatch" where
  "drain_batches [] p = ([], p)"
| "drain_batches ((iter, now) # rounds) p =
     (case take_limited_batch (iter (pb_states p)) now p of
        (batch, p1) \<Rightarrow> (case drain_batches rounds p1 of (batches, p2) \<Rightarrow> (batch # batches, p2)))"

lemma operation_count_size: "operation_count batch = size (ops_of batch)"
  by (simp add: operation_count_def ops_of_def)

text \<open>C33. Draining terminates and loses nothing.  Whatever the order in which the hash map is iterated,
  successive batches have at most 4096 operations each and carry every pending operation exactly once;
  after enough batches nothing is pending; and putting a refused batch back restores what was pending.\<close>

theorem batches_drain:
  assumes "batch_wf (pb_states p)" "\<forall>(iter, now)\<in>set rounds. \<forall>xs. mset (iter xs) = mset xs"
    and "drain_batches rounds p = (batches, p')"
  shows "mset (pb_states p) = (\<Sum>b\<leftarrow>batches. ops_of b) + mset (pb_states p') \<and>
    (\<forall>b\<in>set batches. operation_count b \<le> 4096) \<and>
    (length (pb_states p) \<le> 4096 * length rounds \<longrightarrow> pb_states p' = []) \<and>
    (\<forall>iter now now' batch p1. mset iter = mset (pb_states p) \<longrightarrow> take_limited_batch iter now p = (batch, p1) \<longrightarrow>
      mset (pb_states (requeue_batch batch now' p1)) = mset (pb_states p))"
proof -
  have "mset (pb_states p) = (\<Sum>b\<leftarrow>batches. ops_of b) + mset (pb_states p') \<and> (\<forall>b\<in>set batches. operation_count b \<le> 4096) \<and>
      length (pb_states p') = length (pb_states p) - 4096 * length rounds"
    using assms
  proof (induction rounds arbitrary: p batches)
    case (Cons r rounds)
    obtain iter now where r: "r = (iter, now)" by (cases r)
    obtain batch p1 where t: "take_limited_batch (iter (pb_states p)) now p = (batch, p1)" by fastforce
    obtain bs where d: "drain_batches rounds p1 = (bs, p')" "batches = batch # bs"
      using Cons.prems(3) r t by (auto split: prod.splits)
    have "mset (iter (pb_states p)) = mset (pb_states p)" using Cons.prems(2) r by simp
    note spec = take_limited_batch_spec [OF Cons.prems(1) this t]
    have "length (pb_states p) = operation_count batch + length (pb_states p1)"
      using arg_cong [OF spec(2), of size] by (simp add: operation_count_size)
    then have "operation_count batch \<le> 4096" using spec(3) by (simp add: MAX_SYNC_OPS_PER_BATCH_def)
    then show ?case using Cons.IH [OF spec(1) _ d(1)] Cons.prems(2) spec(2,3) d(2) by (auto simp: MAX_SYNC_OPS_PER_BATCH_def)
  qed simp
  then show ?thesis using requeue_restores [OF assms(1)] by auto
qed

theorem batches_drain_witness:
  "\<exists>batches p'. drain_batches [(rev, 5)] (apply_delete sample_reply_key (apply_upsert (sample_key, sample_flow 3) default_pending)) = (batches, p') \<and>
     pb_states p' = []"
proof -
  let ?p = "apply_delete sample_reply_key (apply_upsert (sample_key, sample_flow 3) default_pending)"
  have states: "pb_states ?p = [(sample_key, BatchUpsert (sample_key, sample_flow 3)), (sample_reply_key, BatchDelete sample_reply_key)]"
    using sample_keys_differ by (simp add: apply_delete_def apply_upsert_def default_pending_def)
  obtain batches p' where run: "drain_batches [(rev, 5)] ?p = (batches, p')" by fastforce
  have "batch_wf (pb_states ?p)" unfolding states using sample_keys_differ by (simp add: batch_wf_def)
  from batches_drain [OF this _ run] run show ?thesis by (auto simp: states)
qed

section \<open>One round mirrors the table\<close>

text \<open>The peer of a round is the backup's datapath, and sending a request applies it there.\<close>

definition peer_applies :: "flow_env \<Rightarrow> (nat \<Rightarrow> u64) \<Rightarrow> FlowSyncRequest \<Rightarrow> dp \<Rightarrow> (xsync_error + FlowSyncResponse) \<times> dp" where
  "peer_applies env clock request d =
     (case apply_proto_request env clock request d of
        (Inl e, d') \<Rightarrow> (Inl e, d')
      | (Inr applied, d') \<Rightarrow> (Inr \<lparr>fr_applied = of_nat applied\<rparr>, d'))"

definition same_flow :: "NativeFlowValue \<Rightarrow> NativeFlowValue \<Rightarrow> bool" where
  "same_flow v w \<longleftrightarrow> v\<lparr>fv_last_seen_ns := 0\<rparr> = w\<lparr>fv_last_seen_ns := 0\<rparr>"

definition flows_agree :: "flow_map \<Rightarrow> flow_map \<Rightarrow> bool" where
  "flows_agree m m' \<longleftrightarrow> (\<forall>k v w. m k = Some v \<longrightarrow> m' k = Some w \<longrightarrow> same_flow v w)"

definition pads_ok :: "flow_map \<Rightarrow> bool" where
  "pads_ok m \<longleftrightarrow> (\<forall>k\<in>dom m. fk_pad k = [0, 0, 0])"

lemma same_flow_rebased: "same_flow v (rebased now now' v)"
  by (simp add: same_flow_def rebased_def)

lemma collect_map: "(\<And>x. x \<in> set xs \<Longrightarrow> f x = Inr (g x)) \<Longrightarrow> collect (map f xs) = Inr (map g xs)"
  by (induction xs) simp_all

lemma upserted_dom: "dom (foldl (\<lambda>m (k, v). m(k \<mapsto> fresher (m k) v)) m entries) = dom m \<union> fst ` set entries"
  by (induction entries arbitrary: m) auto

lemma enumerate_mem: "(i, e) \<in> set (enumerate n xs) \<Longrightarrow> e \<in> set xs"
  by (simp add: enumerate_eq_zip set_zip_rightD)

lemma enumerate_map: "enumerate n (map f xs) = map (\<lambda>(i, e). (i, f e)) (enumerate n xs)"
  by (simp add: enumerate_eq_zip zip_map2)

text \<open>What a batch does to the backup's table.\<close>

lemma peer_applies_batch:
  assumes env: "fe_flows env = PinOpen ops" "map_ops_ok ops"
    and pads: "\<forall>k\<in>fst ` set (fb_entries batch) \<union> set (fb_deletes batch). fk_pad k = [0, 0, 0]"
    and ok: "peer_applies env clock (batch_request node token now batch) d = (Inr ack, d')"
  shows "fr_applied ack = of_nat (operation_count batch)"
    "dom (dp_flows d') = (dom (dp_flows d) \<union> fst ` set (fb_entries batch)) - set (fb_deletes batch)"
    "dp_flows d' k = Some w \<Longrightarrow> dp_flows d k = Some w \<or> (\<exists>v now'. (k, v) \<in> set (fb_entries batch) \<and> w = rebased now now' v)"
proof -
  let ?es = "fb_entries batch" and ?ks = "fb_deletes batch"
  define es' where "es' = map (\<lambda>(i, k, v). (k, rebased now (clock i) v)) (enumerate 0 ?es)"
  have keys: "fst ` set es' = fst ` set ?es"
    by (simp add: es'_def image_image case_prod_beta) (metis image_image map_snd_enumerate set_map)
  have mem: "\<exists>v now'. (k, v) \<in> set ?es \<and> w = rebased now now' v" if "(k, w) \<in> set es'" for k w
    using that by (auto simp: es'_def dest: enumerate_mem)
  have "collect (map (\<lambda>(i, e). entry_from_proto_at e (clock i)) (enumerate 0 (map (entry_to_proto now) ?es))) = Inr es'"
  proof -
    have "entry_from_proto_at (entry_to_proto now e) (clock i) = Inr (fst e, rebased now (clock i) (snd e))"
      if "(i, e) \<in> set (enumerate 0 ?es)" for i e
    proof -
      obtain k v where e: "e = (k, v)" by (cases e)
      have "fk_pad k = [0, 0, 0]" using pads enumerate_mem [OF that] e by (metis UnI1 fst_conv image_eqI)
      then show ?thesis using entry_proto_round_trip by (simp add: e)
    qed
    then show ?thesis unfolding es'_def enumerate_map map_map by (intro collect_map) auto
  qed
  moreover have "collect (map key_from_proto (map key_to_proto ?ks)) = Inr ?ks"
    using collect_map [of ?ks "\<lambda>k. key_from_proto (key_to_proto k)" "\<lambda>k. k"] key_proto_round_trip pads by (simp add: comp_def)
  ultimately obtain n d1 where up: "upsert_flows env es' d = (Inr n, d1)" and
      d': "d' = d1\<lparr>dp_flows := dp_flows d1 |` (- set ?ks)\<rparr>" and ack: "fr_applied ack = of_nat (n + length ?ks)"
    using ok delete_flows_ok [OF env] by (auto simp: peer_applies_def apply_proto_request_def batch_request_def split: prod.splits sum.splits)
  then obtain m where "upsert_entries ops 0 es' (dp_flows d) = (Inr n, m)" "d1 = d\<lparr>dp_flows := m\<rparr>"
    using env(1) by (auto simp: upsert_flows_def split: prod.splits)
  with upsert_entries_ok [OF env(2) this(1)] have m: "n = length es'" "dp_flows d1 = foldl (\<lambda>m (k, v). m(k \<mapsto> fresher (m k) v)) (dp_flows d) es'"
    by simp_all
  show "fr_applied ack = of_nat (operation_count batch)" by (simp add: ack m(1) es'_def operation_count_def)
  show "dom (dp_flows d') = (dom (dp_flows d) \<union> fst ` set ?es) - set ?ks" by (auto simp: d' m(2) upserted_dom keys)
  assume "dp_flows d' k = Some w"
  then have "dp_flows d1 k = Some w" by (simp add: d' restrict_map_def split: if_splits)
  from upserted_from [OF this [unfolded m(2)]] have "dp_flows d k = Some w \<or> (k, w) \<in> set es'" by auto
  then show "dp_flows d k = Some w \<or> (\<exists>v now'. (k, v) \<in> set ?es \<and> w = rebased now now' v)" using mem by blast
qed

lemma pending_entries:
  assumes "\<forall>(k, v)\<in>set es. f k = Some v" "\<forall>k\<in>fst ` set es. map_of (pb_states p) k \<in> {None, Some (BatchUpsert (k, the (f k)))}"
  shows "map_of (pb_states (foldl (\<lambda>p e. apply_upsert e p) p es)) k =
    (if k \<in> fst ` set es then Some (BatchUpsert (k, the (f k))) else map_of (pb_states p) k)"
  using assms
proof (induction es arbitrary: p)
  case (Cons e es)
  obtain a v where e: "e = (a, v)" "f a = Some v" using Cons.prems(1) by (cases e) auto
  then have up: "map_of (pb_states (apply_upsert e p)) = (map_of (pb_states p))(a \<mapsto> BatchUpsert (a, v))"
    using Cons.prems(2) by (auto simp: apply_upsert_def update_conv')
  have "\<forall>k\<in>fst ` set es. map_of (pb_states (apply_upsert e p)) k \<in> {None, Some (BatchUpsert (k, the (f k)))}"
    using Cons.prems(2) e(2) unfolding up by auto
  with Cons.IH [of "apply_upsert e p"] Cons.prems(1) show ?case unfolding up using e by auto
qed simp

lemma pending_deletes:
  "map_of (pb_states (foldl (\<lambda>p key. apply_delete key p) p ks)) k = (if k \<in> set ks then Some (BatchDelete k) else map_of (pb_states p) k)"
  by (induction ks arbitrary: p) (auto simp: apply_delete_def update_conv')

lemma pending_wf:
  "batch_wf (pb_states p) \<Longrightarrow> batch_wf (pb_states (foldl (\<lambda>p e. apply_upsert e p) p es))"
  "batch_wf (pb_states p) \<Longrightarrow> batch_wf (pb_states (foldl (\<lambda>p key. apply_delete key p) p ks))"
proof -
  show "batch_wf (pb_states p) \<Longrightarrow> batch_wf (pb_states (foldl (\<lambda>p e. apply_upsert e p) p es))"
    by (induction es arbitrary: p) (auto simp: apply_upsert_def batch_wf_update)
  show "batch_wf (pb_states p) \<Longrightarrow> batch_wf (pb_states (foldl (\<lambda>p key. apply_delete key p) p ks))"
    by (induction ks arbitrary: p) (auto simp: apply_delete_def batch_wf_update)
qed

text \<open>The pending operations after a reconciliation that starts with none.\<close>

lemma reconcile_pending:
  assumes flows: "set flows = {(k, v). m k = Some v}" and empty: "pb_states p = []"
  shows "batch_wf (pb_states (reconciled replica flows now p))"
    "map_of (pb_states (reconciled replica flows now p)) k =
      (if k \<in> set (gone_keys replica flows) then Some (BatchDelete k)
       else if k \<in> fst ` set (new_entries replica flows) then Some (BatchUpsert (k, the (m k))) else None)"
    "set (gone_keys replica flows) = dom (map_of replica) - dom m" "fst ` set (new_entries replica flows) \<subseteq> dom m"
    "dom m - dom (map_of replica) \<subseteq> fst ` set (new_entries replica flows)"
proof -
  let ?deletes = "gone_keys replica flows" and ?entries = "new_entries replica flows"
  let ?p1 = "apply_deletes ?deletes now p" and ?p' = "reconciled replica flows now p"
  have cur: "fst ` set flows = dom m" unfolding flows by (force simp: dom_def)
  show dels: "set ?deletes = dom (map_of replica) - dom m" by (auto simp: gone_keys_def cur dom_map_of_conv_image_fst)
  show ents: "fst ` set ?entries \<subseteq> dom m" unfolding new_entries_def using cur by force
  show "dom m - dom (map_of replica) \<subseteq> fst ` set ?entries"
  proof
    fix k assume k: "k \<in> dom m - dom (map_of replica)"
    then obtain v where "(k, v) \<in> set flows" "map_of replica k = None" using flows by auto
    then have "(k, v) \<in> set ?entries" by (simp add: new_entries_def)
    then show "k \<in> fst ` set ?entries" by force
  qed
  have p1: "map_of (pb_states ?p1) k = (if k \<in> set ?deletes then Some (BatchDelete k) else None)" for k
    using empty by (simp add: apply_deletes_def pending_deletes)
  have wf1: "batch_wf (pb_states ?p1)" using empty pending_wf(2) [of "mark_updated now p" ?deletes] by (simp add: apply_deletes_def batch_wf_def)
  show "batch_wf (pb_states ?p')" using wf1 pending_wf(1) [of "mark_updated now ?p1" ?entries] by (simp add: reconciled_def apply_entries_def)
  have "\<forall>(k, v)\<in>set ?entries. m k = Some v" using flows by (auto simp: new_entries_def)
  moreover have "\<forall>k\<in>fst ` set ?entries. map_of (pb_states (mark_updated now ?p1)) k \<in> {None, Some (BatchUpsert (k, the (m k)))}"
    using ents dels by (auto simp: p1)
  ultimately have "map_of (pb_states ?p') k = (if k \<in> fst ` set ?entries then Some (BatchUpsert (k, the (m k))) else map_of (pb_states ?p1) k)"
    using pending_entries [of ?entries m "mark_updated now ?p1" k] by (auto simp: reconciled_def apply_entries_def)
  then show "map_of (pb_states ?p') k = (if k \<in> set ?deletes then Some (BatchDelete k) else if k \<in> fst ` set ?entries then Some (BatchUpsert (k, the (m k))) else None)"
    using ents dels by (auto simp: p1)
qed

lemma replace_active_flows_frame: "dp_flows (snd (replace_active_flows env loads d)) = dp_flows d"
  by (auto simp: replace_active_flows_def split: pin.splits prod.splits option.splits)

lemma sweep_submap:
  assumes "fe_flows env = PinOpen ops" "map_ops_ok ops"
  shows "dp_flows (sweep_flows_for_xsync env uses_lc now d) \<subseteq>\<^sub>m dp_flows d"
proof -
  have rm: "mo_remove ops = (\<lambda>m k. m(k := None))" using map_ops_okD(3) [OF assms(2)] by (simp add: fun_eq_iff)
  have "dp_flows (snd (sweep_flows_inner env now r d)) \<subseteq>\<^sub>m dp_flows d" for r
  proof (cases "iter_entries ops (dp_flows d)")
    case (Some es)
    define sw where "sw = foldl (sweep_entry now r) \<lparr>sw_expired = [], sw_loads = [], sw_seen_pairs = {}\<rparr> es"
    define d1 where "d1 = d\<lparr>dp_flows := dp_flows d |` (- set (sw_expired sw))\<rparr>"
    have "dp_flows (snd (sweep_flows_inner env now r d)) = dp_flows d1"
      using replace_active_flows_frame [of env "sw_loads sw" d1] Some assms(1)
      by (auto simp: sweep_flows_inner_def sw_def [symmetric] d1_def [symmetric] rm foldl_remove_all Let_def split: prod.splits option.splits)
    then show ?thesis by (auto simp: d1_def map_le_def restrict_map_def)
  qed (use assms(1) in \<open>simp add: sweep_flows_inner_def\<close>)
  then show ?thesis
    by (auto simp: sweep_flows_for_xsync_def sweep_flows_def sweep_flows_and_refresh_loads_def split: sum.splits)
qed

lemma acknowledged_dom:
  "dom (map_of (acknowledged batch replica)) = (dom (map_of replica) \<union> fst ` set (fb_entries batch)) - set (fb_deletes batch)"
proof -
  have "dom (map_of (foldl (\<lambda>r (key, val). AList.update key (fv_last_seen_ns val) r) replica es)) = dom (map_of replica) \<union> fst ` set es"
    for es :: "(NativeFlowKey \<times> NativeFlowValue) list"
    by (induction es arbitrary: replica) (auto simp: update_conv' split: if_splits)
  moreover have "dom (map_of (foldl (\<lambda>r key. AList.delete key r) r ks)) = dom (map_of r) - set ks" for r :: "(NativeFlowKey \<times> u64) list" and ks
    by (induction ks arbitrary: r) (auto simp: delete_conv' split: if_splits)
  ultimately show ?thesis by (simp add: acknowledged_def)
qed

lemma ops_of_states:
  assumes "batch_wf states" "mset states = ops_of batch"
  shows "(k, v) \<in> set (fb_entries batch) \<longleftrightarrow> map_of states k = Some (BatchUpsert (k, v))"
    "k \<in> set (fb_deletes batch) \<longleftrightarrow> map_of states k = Some (BatchDelete k)"
proof -
  have "set states = set_mset (ops_of batch)" using assms(2) by (metis set_mset_mset)
  then have set: "set states = (\<lambda>e. (fst e, BatchUpsert e)) ` set (fb_entries batch) \<union> (\<lambda>k. (k, BatchDelete k)) ` set (fb_deletes batch)"
    by (simp add: ops_of_def)
  have of_set: "map_of states k = Some st \<longleftrightarrow> (k, st) \<in> set states" for k st
    using assms(1) by (simp add: batch_wf_def map_of_eq_Some_iff)
  show "(k, v) \<in> set (fb_entries batch) \<longleftrightarrow> map_of states k = Some (BatchUpsert (k, v))"
    "k \<in> set (fb_deletes batch) \<longleftrightarrow> map_of states k = Some (BatchDelete k)" unfolding of_set set by force+
qed

text \<open>A flush that takes everything.\<close>

lemma flush_all:
  assumes wf: "batch_wf (pb_states (xs_pending s))" "length (pb_states (xs_pending s)) \<le> 4096" "pb_states (xs_pending s) \<noteq> []"
    and iter: "\<forall>xs. mset (rd_iter rd xs) = mset xs" and peer: "rd_send rd = peer_applies env clock" "fe_flows env = PinOpen ops" "map_ops_ok ops"
    and pads: "\<forall>k\<in>fst ` set (pb_states (xs_pending s)). fk_pad k = [0, 0, 0]"
    and run: "flush_pending node token rd (s, p) = (Inr s', p')"
  shows "\<exists>batch. mset (pb_states (xs_pending s)) = ops_of batch \<and> pb_states (xs_pending s') = [] \<and> xs_replica s' = acknowledged batch (xs_replica s) \<and>
    dom (dp_flows p') = (dom (dp_flows p) \<union> fst ` set (fb_entries batch)) - set (fb_deletes batch) \<and>
    (\<forall>k w. dp_flows p' k = Some w \<longrightarrow> dp_flows p k = Some w \<or> (\<exists>v now now'. (k, v) \<in> set (fb_entries batch) \<and> w = rebased now now' v))"
proof -
  obtain batch p1 where t: "take_limited_batch (rd_iter rd (pb_states (xs_pending s))) (rd_taken_at rd) (xs_pending s) = (batch, p1)" by fastforce
  note spec = take_limited_batch_spec [OF wf(1) iter [rule_format] t]
  have p1: "pb_states p1 = []" using spec(3) wf(2) by (simp add: MAX_SYNC_OPS_PER_BATCH_def)
  then have ops: "mset (pb_states (xs_pending s)) = ops_of batch" using spec(2) by simp
  have nonempty: "\<not> (fb_entries batch = [] \<and> fb_deletes batch = [])" using ops wf(3) by (auto simp: ops_of_def)
  have small: "operation_count batch \<le> 4096" using wf(2) arg_cong [OF ops, of size] by (simp add: operation_count_size)
  obtain ack where send: "peer_applies env clock (batch_request node token (rd_sync_ns rd) batch) p = (Inr ack, p')"
    using run t nonempty by (auto simp: flush_pending_def Let_def peer(1) split: prod.splits sum.splits if_splits)
  have keys: "fst ` set (fb_entries batch) \<union> set (fb_deletes batch) \<subseteq> fst ` set (pb_states (xs_pending s))"
  proof -
    have "set (pb_states (xs_pending s)) = set_mset (ops_of batch)" using ops by (metis set_mset_mset)
    then show ?thesis by (auto simp: ops_of_def image_Un image_image)
  qed
  note applied = peer_applies_batch [OF peer(2,3) _ send]
  have pads': "\<forall>k\<in>fst ` set (fb_entries batch) \<union> set (fb_deletes batch). fk_pad k = [0, 0, 0]" using pads keys by blast
  have "flow_ack_covers_sent (operation_count batch) (fr_applied ack)"
    using applied(1) [OF pads'] small by (simp add: flow_ack_covers_sent_def unat_of_nat_lt)
  then have "xs_replica s' = acknowledged batch (xs_replica s)" "xs_pending s' = p1"
    using run t nonempty send by (auto simp: flush_pending_def Let_def peer(1))
  then show ?thesis using ops p1 applied(2,3) [OF pads'] by (intro exI [of _ batch]) blast
qed

lemma reconcile_keys:
  assumes "set flows = {(k, v). m k = Some v}" "pb_states p = []"
  shows "fst ` set (pb_states (reconciled replica flows now p)) \<subseteq> dom m \<union> dom (map_of replica)"
proof
  fix k assume "k \<in> fst ` set (pb_states (reconciled replica flows now p))"
  then have "map_of (pb_states (reconciled replica flows now p)) k \<noteq> None" by (simp add: map_of_eq_None_iff)
  then have "k \<in> set (gone_keys replica flows) \<or> k \<in> fst ` set (new_entries replica flows)"
    unfolding reconcile_pending(2) [OF assms] by (auto split: if_splits)
  then show "k \<in> dom m \<union> dom (map_of replica)"
    using reconcile_pending(3,4) [OF assms] by blast
qed

lemma reconcile_nothing:
  assumes flows: "set flows = {(k, v). m k = Some v}" "pb_states p = []" and none: "pb_states (reconciled replica flows now p) = []"
  shows "dom (map_of replica) = dom m"
proof -
  have none: "k \<notin> set (gone_keys replica flows)" "k \<notin> fst ` set (new_entries replica flows)" for k
    using reconcile_pending(2) [OF flows, of replica now k] none by (simp_all split: if_splits)
  have "set (gone_keys replica flows) = {}" using none(1) by (simp only: set_eq_iff empty_iff simp_thms)
  moreover have "fst ` set (new_entries replica flows) = {}" using none(2) by (simp only: set_eq_iff empty_iff simp_thms)
  ultimately show ?thesis
    using reconcile_pending(3,5) [OF flows, of replica] by (metis Diff_eq_empty_iff subset_antisym subset_empty)
qed

lemma reconcile_batch:
  assumes flows: "set flows = {(k, v). m k = Some v}" "pb_states p = []" and ops: "mset (pb_states (reconciled replica flows now p)) = ops_of batch"
  shows "set (fb_deletes batch) = dom (map_of replica) - dom m" "fst ` set (fb_entries batch) = fst ` set (new_entries replica flows)"
    "(k, v) \<in> set (fb_entries batch) \<Longrightarrow> m k = Some v"
proof -
  note pend = reconcile_pending [OF flows, of replica]
  note states = ops_of_states [OF pend(1) ops, unfolded pend(2)]
  show "set (fb_deletes batch) = dom (map_of replica) - dom m"
    using states(2) pend(3) by (auto split: if_splits)
  define new where "new = fst ` set (new_entries replica flows)"
  have sub: "new \<subseteq> dom m" unfolding new_def by (rule pend(4))
  have entry: "(k, v) \<in> set (fb_entries batch) \<longleftrightarrow> k \<in> new \<and> v = the (m k)" for k v
    unfolding states(1) new_def [symmetric] using pend(3) sub by auto
  then have "set (fb_entries batch) = (\<lambda>k. (k, the (m k))) ` new" by auto
  then have "fst ` set (fb_entries batch) = new" by (simp add: image_image)
  then show "fst ` set (fb_entries batch) = fst ` set (new_entries replica flows)" by (simp only: new_def)
  show "(k, v) \<in> set (fb_entries batch) \<Longrightarrow> m k = Some v"
  proof -
    assume "(k, v) \<in> set (fb_entries batch)"
    then have "k \<in> dom m" "v = the (m k)" using entry sub by blast+
    then show "m k = Some v" by auto
  qed
qed

lemma reconcile_length:
  assumes "set flows = {(k, v). m k = Some v}" "pb_states p = []" "finite A" "dom m \<union> dom (map_of replica) \<subseteq> A"
  shows "length (pb_states (reconciled replica flows now p)) \<le> card A"
proof -
  let ?st = "pb_states (reconciled replica flows now p)"
  have "distinct (map fst ?st)" using reconcile_pending(1) [OF assms(1,2)] unfolding batch_wf_def by blast
  then have "length ?st = card (fst ` set ?st)" by (metis distinct_card length_map set_map)
  also have "\<dots> \<le> card A" using reconcile_keys [OF assms(1,2)] assms(4) by (intro card_mono [OF assms(3)]) blast
  finally show ?thesis .
qed

lemma reconcile_round:
  assumes role: "\<not> rd_shutdown rd" "rd_role rd = Inr st" "nh_state st = ''MASTER''" "rd_events rd \<in> {None, Some []}"
      "due (rd_now rd) (xs_reconcile s)" "pb_states (xs_pending s) = []"
    and flows: "fe_flows (rd_flow_env rd) = PinOpen ops" "map_ops_ok ops"
    and run: "sync_round node token rd (s, d, p) = (Again s', d', p')"
  shows "\<exists>fl s2. set fl = {(k, v). dp_flows d' k = Some v} \<and> dp_flows d' \<subseteq>\<^sub>m dp_flows d \<and> xs_replica s2 = xs_replica s \<and>
    xs_pending s2 = reconciled (xs_replica s) fl (rd_now rd) (xs_pending s) \<and>
    (if pb_states (xs_pending s2) = [] then s' = s2 \<and> p' = p else flush_pending node token rd (s2, p) = (Inr s', p'))"
proof -
  define d1 where "d1 = sweep_flows_for_xsync (rd_flow_env rd) (rd_uses_lc rd) (rd_sweep_ns rd) d"
  have mut: "s\<lparr>xs_pending := apply_mutations (case rd_events rd of None \<Rightarrow> [] | Some items \<Rightarrow> drain_flow_events items) (rd_now rd) (xs_pending s)\<rparr> = s"
    using role(4) by (auto simp: apply_mutations_def)
  obtain fl where dump: "iter_entries ops (dp_flows d1) = Some fl"
    using run role(1-3) mut role(5) flows(1)
    by (auto simp: sync_round_def full_reconcile_def dump_flows_def Let_def d1_def [symmetric] split: option.splits)
  define s2 where "s2 = s\<lparr>xs_pending := reconciled (xs_replica s) fl (rd_now rd) (xs_pending s),
    xs_reconcile := mark_completed (rd_completed_at rd) (xs_reconcile s)\<rparr>"
  have "full_reconcile rd s d = (Inr s2, d1)"
    using dump flows(1) by (simp add: full_reconcile_def dump_flows_def Let_def d1_def [symmetric] s2_def)
  then have "d' = d1" "if pb_states (xs_pending s2) = [] then s' = s2 \<and> p' = p else flush_pending node token rd (s2, p) = (Inr s', p')"
    using run role(1-3) mut role(5) by (auto simp: sync_round_def Let_def should_flush_def split: if_splits prod.splits sum.splits)
  moreover have "dp_flows d1 \<subseteq>\<^sub>m dp_flows d" unfolding d1_def by (rule sweep_submap [OF flows])
  ultimately show ?thesis using iter_entries_ok [OF flows(2) dump] by (intro exI [of _ fl] exI [of _ s2]) (simp add: s2_def)
qed


definition sample_round :: "dp round" where
  "sample_round = \<lparr>rd_shutdown = False,
     rd_role = Inr \<lparr>nh_node = ''gw-a'', nh_active_gateway = Some ''gw-a'', nh_active_revision = None, nh_state = ''MASTER'', nh_enabled = True, nh_peer_count = 1\<rparr>,
     rd_events = None, rd_now = 0, rd_uses_lc = Inl AddressUnspecified, rd_flow_env = sample_flow_env [sample_key, sample_reply_key],
     rd_sweep_ns = 2000, rd_completed_at = 1, rd_flush_at = 1, rd_iter = id, rd_taken_at = 1, rd_sync_ns = 2000,
     rd_send = peer_applies (sample_flow_env []) (\<lambda>_. 5000), rd_acked_at = 2\<rparr>"

definition sample_session :: session where
  "sample_session = start_session ''http://192.0.2.11:50051'' 0 \<lparr>xst_state = ''disabled'', xst_peer = None, xst_last_error = None, xst_last_ack_applied = 0\<rparr>"

lemma sample_round_runs:
  "\<exists>s' d' p'. sync_round ''gw-a'' ''token'' sample_round (sample_session, fresh_dp\<lparr>dp_flows := sample_table 1000\<rparr>, fresh_dp) = (Again s', d', p')"
proof -
  let ?v = "sample_flow 1000" and ?env = "sample_flow_env [sample_key, sample_reply_key]"
  let ?es = "[(sample_key, ?v), (sample_reply_key, ?v)]"
  have pads: "fk_pad sample_key = [0, 0, 0]" "fk_pad sample_reply_key = [0, 0, 0]"
    by (simp_all add: sample_key_def sample_reply_key_def reverse_for_def)
  have dump: "dump_flows ?env (fresh_dp\<lparr>dp_flows := sample_table 1000\<rparr>) = Inr ?es"
    by (simp add: dump_flows_def sample_flow_env_def iter_entries_def sample_table_def List.map_filter_def sample_keys_differ)
  have pend: "pb_states (reconciled [] ?es now default_pending) = map (\<lambda>e. (fst e, BatchUpsert e)) ?es" for now
    using sample_keys_differ
    by (simp add: reconciled_def new_entries_def gone_keys_def apply_entries_def apply_deletes_def apply_upsert_def default_pending_def)
  have take: "\<exists>p. take_limited_batch (map (\<lambda>e. (fst e, BatchUpsert e)) ?es) t (reconciled [] ?es now default_pending) =
      (\<lparr>fb_entries = ?es, fb_deletes = []\<rparr>, p)" for t now
    unfolding take_limited_batch_def pend using sample_keys_differ by (simp add: MAX_SYNC_OPS_PER_BATCH_def)
  have send: "\<exists>p. peer_applies (sample_flow_env []) (\<lambda>_. 5000) (batch_request ''gw-a'' ''token'' 2000 \<lparr>fb_entries = ?es, fb_deletes = []\<rparr>) fresh_dp =
      (Inr \<lparr>fr_applied = 2\<rparr>, p)"
    using pads sample_keys_differ
    by (simp add: peer_applies_def apply_proto_request_def batch_request_def entry_proto_round_trip upsert_flows_def delete_flows_def
        sample_flow_env_def fresh_dp_def flow_apply_applies_def)
  have "full_reconcile sample_round sample_session (fresh_dp\<lparr>dp_flows := sample_table 1000\<rparr>) =
      (Inr (sample_session\<lparr>xs_pending := reconciled [] ?es 0 default_pending, xs_reconcile := mark_completed 1 (new_schedule 0)\<rparr>),
       fresh_dp\<lparr>dp_flows := sample_table 1000\<rparr>)"
    using dump by (simp add: full_reconcile_def sample_round_def sweep_flows_for_xsync_def sample_session_def start_session_def)
  then show ?thesis
    using take [of 1 0] send
    by (auto simp: sync_round_def sample_round_def sample_session_def start_session_def apply_mutations_def due_def new_schedule_def
        should_flush_def flush_pending_def pend Let_def flow_ack_covers_sent_def operation_count_def)
qed


end
