(* ===== verification/Flow_Persistence.thy ===== *)
theory Flow_Persistence
  imports Flow_Table Ha_Config Rust_Result
begin

text \<open>
  Snapshots of the flow table (\<^verbatim>\<open>edge-lb/src/provider/native/flow_persistence.rs\<close>): the binary format with
  its checksum, the choice of the flow pairs that are saved, the index of the current listeners by
  which a saved flow is remapped, and the two entry points \<open>write_snapshot\<close> and \<open>restore_on_start\<close>.
  SHA-256 is a parameter; the format relies on its digest of 32 bytes.  The order in which a hash map
  is iterated is a parameter too, and so are the clocks.  A string is the list of its bytes.
\<close>

section \<open>The format\<close>

record SnapshotEntry =
  se_key :: NativeFlowKey
  se_value :: NativeFlowValue
  se_last_seen_age_ns :: u64

record Snapshot =
  ss_saved_at_unix_ns :: u64
  ss_node_name :: string
  ss_config_digest :: bytes
  ss_entries :: "SnapshotEntry list"

record SnapshotPair =
  sp_forward_key :: NativeFlowKey
  sp_reverse_key :: NativeFlowKey
  sp_value :: NativeFlowValue
  sp_last_seen_age_ns :: u64

datatype snapshot_error =
    NodeNameTooLong | TooManyEntries | SnapshotTooShort | ChecksumMismatch | BadMagic
  | UnsupportedVersion u32 | UnsupportedAbi u32 | NodeNameNotUtf8 | OffsetOverflow | Truncated | TrailingBytes

definition MAGIC :: bytes where
  "MAGIC = as_bytes ''ELBFLOW1''"

definition FORMAT_VERSION :: u32 where "FORMAT_VERSION = 1"

definition FLOW_MAP_ABI_VERSION :: u32 where "FLOW_MAP_ABI_VERSION = 1"

definition CHECKSUM_LEN :: nat where "CHECKSUM_LEN = 32"

definition put_u16 :: "bytes \<Rightarrow> u16 \<Rightarrow> bytes" where
  "put_u16 out x = out @ le_enc 2 (unat x)"

definition put_u32 :: "bytes \<Rightarrow> u32 \<Rightarrow> bytes" where
  "put_u32 out x = out @ le_enc 4 (unat x)"

definition put_u64 :: "bytes \<Rightarrow> u64 \<Rightarrow> bytes" where
  "put_u64 out x = out @ le_enc 8 (unat x)"

definition encode_entry :: "bytes \<Rightarrow> SnapshotEntry \<Rightarrow> bytes" where
  "encode_entry out0 entry =
     (let k = se_key entry; v = se_value entry;
          out1 = put_u32 out0 (fk_src k);
          out2 = put_u32 out1 (fk_dst k);
          out3 = put_u16 out2 (fk_sport k);
          out4 = put_u16 out3 (fk_dport k);
          out5 = out4 @ [fk_proto k];
          out6 = put_u32 out5 (fv_listener_id v);
          out7 = put_u32 out6 (fv_target_id v);
          out8 = put_u32 out7 (fv_vip v);
          out9 = put_u32 out8 (fv_target v);
          out10 = put_u16 out9 (fv_vip_port v);
          out11 = put_u16 out10 (fv_target_port v);
          out12 = put_u32 out11 (fv_timeout_secs v) in
      put_u64 out12 (se_last_seen_age_ns entry))"

text \<open>\<^verbatim>\<open>sha256\<close> is \<^verbatim>\<open>Sha256::digest\<close> of the crate \<^verbatim>\<open>sha2\<close>.\<close>

definition encode_snapshot :: "(bytes \<Rightarrow> bytes) \<Rightarrow> Snapshot \<Rightarrow> snapshot_error + bytes" where
  "encode_snapshot sha256 snapshot =
     (if length (ss_node_name snapshot) > 0xFFFF then Inl NodeNameTooLong
      else if length (ss_entries snapshot) > 0xFFFFFFFF then Inl TooManyEntries
      else
        let out1 = put_u32 MAGIC FORMAT_VERSION;
            out2 = put_u32 out1 FLOW_MAP_ABI_VERSION;
            out3 = put_u64 out2 (ss_saved_at_unix_ns snapshot);
            out4 = put_u16 out3 (of_nat (length (ss_node_name snapshot)));
            out5 = out4 @ as_bytes (ss_node_name snapshot);
            out6 = out5 @ ss_config_digest snapshot;
            out7 = put_u32 out6 (of_nat (length (ss_entries snapshot)));
            out8 = foldl encode_entry out7 (ss_entries snapshot) in
        Inr (out8 @ sha256 out8))"

section \<open>The cursor\<close>

record cursor =
  cu_bytes :: bytes
  cu_offset :: nat

definition cursor_bytes :: "cursor \<Rightarrow> nat \<Rightarrow> snapshot_error + bytes \<times> cursor" where
  "cursor_bytes c len =
     (let end_offset = cu_offset c + len in
      if end_offset \<ge> 2 ^ 64 then Inl OffsetOverflow
      else if end_offset > length (cu_bytes c) then Inl Truncated
      else Inr (take len (drop (cu_offset c) (cu_bytes c)), c\<lparr>cu_offset := end_offset\<rparr>))"

definition cursor_expect :: "cursor \<Rightarrow> bytes \<Rightarrow> snapshot_error + cursor" where
  "cursor_expect c wanted =
     and_then (cursor_bytes c (length wanted)) (\<lambda>(actual, c). if actual \<noteq> wanted then Inl BadMagic else Inr c)"

definition cursor_u8 :: "cursor \<Rightarrow> snapshot_error + u8 \<times> cursor" where
  "cursor_u8 c = and_then (cursor_bytes c 1) (\<lambda>(b, c). case b of [] \<Rightarrow> Inl Truncated | x # _ \<Rightarrow> Inr (x, c))"

definition cursor_u16 :: "cursor \<Rightarrow> snapshot_error + u16 \<times> cursor" where
  "cursor_u16 c = and_then (cursor_bytes c 2) (\<lambda>(b, c). Inr (of_nat (le_dec b), c))"

definition cursor_u32 :: "cursor \<Rightarrow> snapshot_error + u32 \<times> cursor" where
  "cursor_u32 c = and_then (cursor_bytes c 4) (\<lambda>(b, c). Inr (of_nat (le_dec b), c))"

definition cursor_u64 :: "cursor \<Rightarrow> snapshot_error + u64 \<times> cursor" where
  "cursor_u64 c = and_then (cursor_bytes c 8) (\<lambda>(b, c). Inr (of_nat (le_dec b), c))"

definition cursor_finish :: "cursor \<Rightarrow> snapshot_error + unit" where
  "cursor_finish c = check (cu_offset c = length (cu_bytes c)) TrailingBytes"

definition decode_entry :: "cursor \<Rightarrow> snapshot_error + SnapshotEntry \<times> cursor" where
  "decode_entry c =
     and_then (cursor_u32 c) (\<lambda>(src, c).
     and_then (cursor_u32 c) (\<lambda>(dst, c).
     and_then (cursor_u16 c) (\<lambda>(sport, c).
     and_then (cursor_u16 c) (\<lambda>(dport, c).
     and_then (cursor_u8 c) (\<lambda>(proto, c).
     and_then (cursor_u32 c) (\<lambda>(listener_id, c).
     and_then (cursor_u32 c) (\<lambda>(target_id, c).
     and_then (cursor_u32 c) (\<lambda>(vip, c).
     and_then (cursor_u32 c) (\<lambda>(target, c).
     and_then (cursor_u16 c) (\<lambda>(vip_port, c).
     and_then (cursor_u16 c) (\<lambda>(target_port, c).
     and_then (cursor_u32 c) (\<lambda>(timeout_secs, c).
     and_then (cursor_u64 c) (\<lambda>(age, c).
       Inr (\<lparr>se_key = \<lparr>fk_src = src, fk_dst = dst, fk_sport = sport, fk_dport = dport, fk_proto = proto, fk_pad = [0, 0, 0]\<rparr>,
             se_value = \<lparr>fv_listener_id = listener_id, fv_target_id = target_id, fv_vip = vip, fv_target = target,
               fv_vip_port = vip_port, fv_target_port = target_port, fv_timeout_secs = timeout_secs, fv_last_seen_ns = 0\<rparr>,
             se_last_seen_age_ns = age\<rparr>, c))))))))))))))"

primrec decode_entries :: "nat \<Rightarrow> cursor \<Rightarrow> snapshot_error + SnapshotEntry list \<times> cursor" where
  "decode_entries 0 c = Inr ([], c)"
| "decode_entries (Suc left) c =
     and_then (decode_entry c) (\<lambda>(entry, c).
     and_then (decode_entries left c) (\<lambda>(entries, c). Inr (entry # entries, c)))"

text \<open>\<^verbatim>\<open>String::from_utf8\<close> accepts the well-formed sequences of the Unicode standard.\<close>

abbreviation byte_in :: "u8 \<Rightarrow> u8 \<Rightarrow> u8 \<Rightarrow> bool" where
  "byte_in low high b \<equiv> low \<le> b \<and> b \<le> high"

fun valid_utf8 :: "bytes \<Rightarrow> bool" where
  "valid_utf8 [] = True"
| "valid_utf8 (a # rest) =
     (if a < 0x80 then valid_utf8 rest
      else case rest of
        [] \<Rightarrow> False
      | b # rest2 \<Rightarrow>
          if byte_in 0xC2 0xDF a then byte_in 0x80 0xBF b \<and> valid_utf8 rest2
          else case rest2 of
            [] \<Rightarrow> False
          | c # rest3 \<Rightarrow>
              if byte_in 0xE0 0xEF a
              then byte_in (if a = 0xE0 then 0xA0 else 0x80) (if a = 0xED then 0x9F else 0xBF) b \<and>
                byte_in 0x80 0xBF c \<and> valid_utf8 rest3
              else case rest3 of
                [] \<Rightarrow> False
              | d # rest4 \<Rightarrow> byte_in 0xF0 0xF4 a \<and>
                  byte_in (if a = 0xF0 then 0x90 else 0x80) (if a = 0xF4 then 0x8F else 0xBF) b \<and>
                  byte_in 0x80 0xBF c \<and> byte_in 0x80 0xBF d \<and> valid_utf8 rest4)"

definition from_utf8 :: "bytes \<Rightarrow> string option" where
  "from_utf8 bytes = (if valid_utf8 bytes then Some (map (\<lambda>b. char_of (unat b)) bytes) else None)"

definition decode_payload :: "cursor \<Rightarrow> snapshot_error + Snapshot" where
  "decode_payload c =
     and_then (cursor_expect c MAGIC) (\<lambda>c.
     and_then (cursor_u32 c) (\<lambda>(version, c).
     and_then (check (version = FORMAT_VERSION) (UnsupportedVersion version)) (\<lambda>_.
     and_then (cursor_u32 c) (\<lambda>(abi, c).
     and_then (check (abi = FLOW_MAP_ABI_VERSION) (UnsupportedAbi abi)) (\<lambda>_.
     and_then (cursor_u64 c) (\<lambda>(saved_at_unix_ns, c).
     and_then (cursor_u16 c) (\<lambda>(node_len, c).
     and_then (cursor_bytes c (unat node_len)) (\<lambda>(name, c).
     and_then (ok_or (from_utf8 name) NodeNameNotUtf8) (\<lambda>node_name.
     and_then (cursor_bytes c 32) (\<lambda>(config_digest, c).
     and_then (cursor_u32 c) (\<lambda>(entry_count, c).
     and_then (decode_entries (unat entry_count) c) (\<lambda>(entries, c).
     and_then (cursor_finish c) (\<lambda>_.
       Inr \<lparr>ss_saved_at_unix_ns = saved_at_unix_ns, ss_node_name = node_name,
         ss_config_digest = config_digest, ss_entries = entries\<rparr>)))))))))))))"

definition decode_snapshot :: "(bytes \<Rightarrow> bytes) \<Rightarrow> bytes \<Rightarrow> snapshot_error + Snapshot" where
  "decode_snapshot sha256 bytes =
     (if length bytes < length MAGIC + CHECKSUM_LEN then Inl SnapshotTooShort
      else
        let payload_len = length bytes - CHECKSUM_LEN in
        if sha256 (take payload_len bytes) \<noteq> drop payload_len bytes then Inl ChecksumMismatch
        else decode_payload \<lparr>cu_bytes = take payload_len bytes, cu_offset = 0\<rparr>)"

section \<open>The flows that are saved\<close>

definition flow_age :: "u64 \<Rightarrow> u64 \<Rightarrow> u64" where
  "flow_age last_seen_ns now_ns = (if last_seen_ns = 0 then 0 else saturating_sub now_ns last_seen_ns)"

definition remaining_ttl_ns :: "u64 \<Rightarrow> u32 \<Rightarrow> u64 option" where
  "remaining_ttl_ns age_ns timeout_secs =
     (if timeout_secs = 0 then None
      else Some (saturating_sub (saturating_mul (ucast timeout_secs) 1000000000) age_ns))"

definition flow_age_expired :: "u64 \<Rightarrow> u32 \<Rightarrow> bool" where
  "flow_age_expired age_ns timeout_secs \<longleftrightarrow>
     timeout_secs \<noteq> 0 \<and> age_ns \<ge> saturating_mul (ucast timeout_secs) 1000000000"

definition unix_elapsed_ns :: "u64 \<Rightarrow> u64 \<Rightarrow> u64" where
  "unix_elapsed_ns saved_at now = saturating_sub now saved_at"

definition forward_reverse_keys :: "NativeFlowKey \<Rightarrow> NativeFlowValue \<Rightarrow> NativeFlowKey \<times> NativeFlowKey" where
  "forward_reverse_keys key val =
     (if fk_src key = fv_target val \<and> fk_sport key = to_be16 (fv_target_port val)
      then (forward_for key val, key) else (key, reverse_for key val))"

text \<open>A hash map of vectors, as the association list of its entries.\<close>

type_synonym pair_groups = "((NativeFlowKey \<times> NativeFlowKey) \<times> SnapshotEntry list) list"

fun push_group :: "NativeFlowKey \<times> NativeFlowKey \<Rightarrow> SnapshotEntry \<Rightarrow> pair_groups \<Rightarrow> pair_groups" where
  "push_group pair entry [] = [(pair, [entry])]"
| "push_group pair entry ((p, entries) # groups) =
     (if p = pair then (p, entries @ [entry]) # groups else (p, entries) # push_group pair entry groups)"

definition group_entries :: "SnapshotEntry list \<Rightarrow> pair_groups" where
  "group_entries entries =
     foldl (\<lambda>groups entry. push_group (canonical_flow_pair (se_key entry) (se_value entry)) entry groups) [] entries"

text \<open>\<^verbatim>\<open>Iterator::min_by_key\<close>: the first of the minimal elements.\<close>

fun min_by_age :: "SnapshotEntry list \<Rightarrow> SnapshotEntry option" where
  "min_by_age [] = None"
| "min_by_age (entry # entries) =
     (case min_by_age entries of
        None \<Rightarrow> Some entry
      | Some best \<Rightarrow> Some (if se_last_seen_age_ns best < se_last_seen_age_ns entry then best else entry))"

definition pair_from_entries :: "NativeFlowKey \<Rightarrow> NativeFlowKey \<Rightarrow> SnapshotEntry list \<Rightarrow> SnapshotPair option" where
  "pair_from_entries left right entries =
     (if left = right then None
      else if \<not> (\<exists>entry\<in>set entries. se_key entry = left) \<or> \<not> (\<exists>entry\<in>set entries. se_key entry = right) then None
      else case min_by_age entries of
        None \<Rightarrow> None
      | Some entry \<Rightarrow>
          (case forward_reverse_keys (se_key entry) (se_value entry) of
             (forward, reverse) \<Rightarrow> Some \<lparr>sp_forward_key = forward, sp_reverse_key = reverse, sp_value = se_value entry,
               sp_last_seen_age_ns = se_last_seen_age_ns entry\<rparr>))"

definition snapshot_candidate :: "u64 \<Rightarrow> u64 \<Rightarrow> NativeFlowKey \<times> NativeFlowValue \<Rightarrow> SnapshotEntry option" where
  "snapshot_candidate min_remaining_ns now_ns flow =
     (let age = flow_age (fv_last_seen_ns (snd flow)) now_ns in
      case remaining_ttl_ns age (fv_timeout_secs (snd flow)) of
        Some ttl \<Rightarrow>
          if ttl < min_remaining_ns then None
          else Some \<lparr>se_key = fst flow, se_value = snd flow, se_last_seen_age_ns = age\<rparr>
      | None \<Rightarrow> Some \<lparr>se_key = fst flow, se_value = snd flow, se_last_seen_age_ns = age\<rparr>)"

text \<open>\<open>order\<close> is the order in which the hash map is iterated.\<close>

definition collect_snapshot_pairs ::
    "(pair_groups \<Rightarrow> pair_groups) \<Rightarrow> (NativeFlowKey \<times> NativeFlowValue) list \<Rightarrow> u64 \<Rightarrow> GatewayFlowPersistenceConfig \<Rightarrow>
     SnapshotPair list" where
  "collect_snapshot_pairs order flows now_ns settings =
     (let min_remaining_ns = saturating_mul (gfp_min_remaining_ttl_secs settings) 1000000000;
          groups = group_entries (List.map_filter (snapshot_candidate min_remaining_ns now_ns) flows);
          pairs = List.map_filter (\<lambda>((left, right), entries). pair_from_entries left right entries) (order groups) in
      take (gfp_max_records settings) (sort_key sp_last_seen_age_ns pairs))"

definition snapshot_entries_from_pairs :: "SnapshotPair list \<Rightarrow> SnapshotEntry list" where
  "snapshot_entries_from_pairs pairs =
     concat (map (\<lambda>pair.
       [\<lparr>se_key = sp_forward_key pair, se_value = sp_value pair, se_last_seen_age_ns = sp_last_seen_age_ns pair\<rparr>,
        \<lparr>se_key = sp_reverse_key pair, se_value = sp_value pair, se_last_seen_age_ns = sp_last_seen_age_ns pair\<rparr>]) pairs)"

definition collect_restore_pairs :: "(pair_groups \<Rightarrow> pair_groups) \<Rightarrow> SnapshotEntry list \<Rightarrow> SnapshotPair option list" where
  "collect_restore_pairs order entries =
     map (\<lambda>((left, right), entries). pair_from_entries left right entries) (order (group_entries entries))"

section \<open>Remapping to the current listeners\<close>

record ListenerRuntimeRef =
  lr_listener_id :: u32
  lr_listener :: NativeListener

record ListenerRestoreIndex =
  li_by_id :: "u32 \<rightharpoonup> ListenerRuntimeRef"
  li_by_socket :: "u32 \<times> u16 \<times> u8 \<rightharpoonup> ListenerRuntimeRef"

definition index_listener :: "ListenerRestoreIndex \<Rightarrow> u32 \<times> NativeListener \<Rightarrow> ListenerRestoreIndex" where
  "index_listener index a =
     (let entry = \<lparr>lr_listener_id = fst a, lr_listener = snd a\<rparr>; key = nl_key (snd a) in
      \<lparr>li_by_id = (li_by_id index)(fst a \<mapsto> entry),
       li_by_socket = (li_by_socket index)
         ((key_vip_ip key, to_be16 (key_vip_port key), ip_proto (key_protocol key)) \<mapsto> entry)\<rparr>)"

definition ListenerRestoreIndex_new :: "NativeListener list \<Rightarrow> id_error + ListenerRestoreIndex" where
  "ListenerRestoreIndex_new listeners =
     and_then (stable_listener_assignments listeners) (\<lambda>assigned.
       Inr (foldl index_listener \<lparr>li_by_id = Map.empty, li_by_socket = Map.empty\<rparr> assigned))"

definition listener_matches :: "NativeListener \<Rightarrow> NativeFlowKey \<Rightarrow> NativeFlowValue \<Rightarrow> bool" where
  "listener_matches listener forward val \<longleftrightarrow>
     key_vip_ip (nl_key listener) = fv_vip val \<and> to_be16 (key_vip_port (nl_key listener)) = fv_vip_port val \<and>
     fk_dst forward = fv_vip val \<and> fk_dport forward = fv_vip_port val \<and>
     fk_proto forward = ip_proto (key_protocol (nl_key listener))"

definition ListenerRestoreIndex_get ::
    "ListenerRestoreIndex \<Rightarrow> u32 \<Rightarrow> NativeFlowKey \<Rightarrow> NativeFlowValue \<Rightarrow> ListenerRuntimeRef option" where
  "ListenerRestoreIndex_get index old_listener_id forward val =
     (let by_socket = (case li_by_socket index (fv_vip val, fv_vip_port val, fk_proto forward) of
            Some entry \<Rightarrow> if listener_matches (lr_listener entry) forward val then Some entry else None
          | None \<Rightarrow> None) in
      case li_by_id index old_listener_id of
        Some entry \<Rightarrow> if listener_matches (lr_listener entry) forward val then Some entry else by_socket
      | None \<Rightarrow> by_socket)"

fun target_position :: "NativeTarget list \<Rightarrow> NativeFlowValue \<Rightarrow> nat option" where
  "target_position [] val = None"
| "target_position (target # targets) val =
     (if nt_address target = fv_target val \<and> nt_port target = fv_target_port val then Some 0
      else map_option Suc (target_position targets val))"

definition remap_value ::
    "u64 \<Rightarrow> NativeFlowValue \<Rightarrow> u64 \<Rightarrow> NativeFlowKey \<Rightarrow> ListenerRestoreIndex \<Rightarrow> NativeFlowValue option" where
  "remap_value mono_now val restored_age_ns forward listeners =
     (case ListenerRestoreIndex_get listeners (fv_listener_id val) forward val of
        None \<Rightarrow> None
      | Some listener \<Rightarrow>
          (case target_position (nl_targets (lr_listener listener)) val of
             None \<Rightarrow> None
           | Some target_id \<Rightarrow>
               let target = nl_targets (lr_listener listener) ! target_id in
               Some (val\<lparr>fv_listener_id := lr_listener_id listener, fv_target_id := of_nat target_id,
                 fv_target := nt_address target, fv_target_port := nt_port target,
                 fv_last_seen_ns := saturating_sub mono_now restored_age_ns\<rparr>)))"

section \<open>Restoring\<close>

record RestoreSummary =
  rs_restored_pairs :: nat
  rs_skipped_expired :: nat
  rs_skipped_config :: nat
  rs_skipped_incomplete :: nat
  rs_duration_ns :: nat

definition empty_restore_summary :: RestoreSummary where
  "empty_restore_summary = \<lparr>rs_restored_pairs = 0, rs_skipped_expired = 0, rs_skipped_config = 0,
     rs_skipped_incomplete = 0, rs_duration_ns = 0\<rparr>"

text \<open>The body of the loop over the pairs.  \<open>clock n\<close> is what the monotonic clock shows when it is read
  after \<open>n\<close> pairs have been restored.\<close>

definition restore_pair ::
    "(nat \<Rightarrow> u64) \<Rightarrow> ListenerRestoreIndex \<Rightarrow> u64 \<Rightarrow> RestoreSummary \<times> (NativeFlowKey \<times> NativeFlowValue) list \<Rightarrow>
     SnapshotPair option \<Rightarrow> RestoreSummary \<times> (NativeFlowKey \<times> NativeFlowValue) list" where
  "restore_pair clock listener_index elapsed_ns acc pair =
     (case acc of (summary, restore_entries) \<Rightarrow>
      case pair of
        None \<Rightarrow> (summary\<lparr>rs_skipped_incomplete := rs_skipped_incomplete summary + 1\<rparr>, restore_entries)
      | Some pair \<Rightarrow>
          let restored_age = saturating_add (sp_last_seen_age_ns pair) elapsed_ns in
          if flow_age_expired restored_age (fv_timeout_secs (sp_value pair))
          then (summary\<lparr>rs_skipped_expired := rs_skipped_expired summary + 1\<rparr>, restore_entries)
          else case remap_value (clock (rs_restored_pairs summary)) (sp_value pair) restored_age (sp_forward_key pair) listener_index of
            None \<Rightarrow> (summary\<lparr>rs_skipped_config := rs_skipped_config summary + 1\<rparr>, restore_entries)
          | Some val \<Rightarrow>
              (summary\<lparr>rs_restored_pairs := rs_restored_pairs summary + 1\<rparr>,
               restore_entries @ [(sp_forward_key pair, val), (reverse_for (sp_forward_key pair) val, val)]))"

definition restore_entries_from_snapshot ::
    "(pair_groups \<Rightarrow> pair_groups) \<Rightarrow> (nat \<Rightarrow> u64) \<Rightarrow> Snapshot \<Rightarrow> ListenerRestoreIndex \<Rightarrow> u64 \<Rightarrow>
     RestoreSummary \<times> (NativeFlowKey \<times> NativeFlowValue) list" where
  "restore_entries_from_snapshot order clock snapshot listener_index elapsed_ns =
     foldl (restore_pair clock listener_index elapsed_ns) (empty_restore_summary, [])
       (collect_restore_pairs order (ss_entries snapshot))"

section \<open>The entry points\<close>

datatype persist_error =
    ConfigFailed | IdsFailed id_error | FlowsFailed flow_error | FormatFailed snapshot_error | ReadFailed | WriteFailed

record FlowPersistenceStatus =
  fps_enabled :: bool
  fps_snapshot_records :: nat
  fps_snapshot_bytes :: u64
  fps_snapshot_duration_ms :: u64
  fps_snapshot_errors_total :: u64
  fps_restore_records_total :: u64
  fps_restore_skipped_expired_total :: u64
  fps_restore_skipped_config_total :: u64
  fps_restore_skipped_incomplete_total :: u64
  fps_restore_duration_ms :: u64
  fps_restore_errors_total :: u64

record SnapshotSummary =
  su_records :: nat
  su_bytes :: u64
  su_duration_ns :: nat

text \<open>The state: the snapshot file, the status cell and the maps of the datapath.\<close>

record persistence =
  ps_file :: "bytes option"
  ps_status :: FlowPersistenceStatus
  ps_dp :: dp

text \<open>What one call works with: the configuration (the listeners are those of the hydrated configuration, or
  the error of loading it), the library functions, the readings of the clocks, and whether the file
  system lets the call read, inspect and replace the file.\<close>

record persist_call =
  pc_flow_persistence :: "GatewayFlowPersistenceConfig option"
  pc_node_name :: string
  pc_underlay_ip :: IpAddr
  pc_active_gateway :: "GatewayNode option"
  pc_listeners :: "NativeListener list option"
  pc_flow_env :: flow_env
  pc_sha256 :: "bytes \<Rightarrow> bytes"
  pc_order :: "pair_groups \<Rightarrow> pair_groups"
  pc_mono_now :: "nat \<Rightarrow> u64"
  pc_sweep_now :: u64
  pc_unix_now :: u64
  pc_elapsed_ns :: nat
  pc_readable :: bool
  pc_metadata :: bool
  pc_writable :: bool

definition settings :: "persist_call \<Rightarrow> GatewayFlowPersistenceConfig" where
  "settings c = (case pc_flow_persistence c of None \<Rightarrow> default_flow_persistence_config | Some s \<Rightarrow> s)"

definition is_active_gateway :: "persist_call \<Rightarrow> bool" where
  "is_active_gateway c =
     (case pc_active_gateway c of
        Some gateway \<Rightarrow> gn_name gateway = pc_node_name c \<or> gn_underlay_ip gateway = pc_underlay_ip c
      | None \<Rightarrow> True)"

definition config_digest :: "(bytes \<Rightarrow> bytes) \<Rightarrow> NativeListener list \<Rightarrow> id_error + bytes" where
  "config_digest sha256 listeners =
     and_then (stable_listener_assignments listeners) (\<lambda>assigned. Inr (sha256 (concat (map (\<lambda>(listener_id, listener).
       le_enc 4 (unat listener_id) @ le_enc 4 (unat (key_vip_ip (nl_key listener))) @
       le_enc 2 (unat (key_vip_port (nl_key listener))) @ [ip_proto (key_protocol (nl_key listener))] @
       le_enc 4 (unat (of_nat (length (nl_targets listener)) :: u32)) @
       concat (map (\<lambda>target. le_enc 4 (unat (nt_address target)) @ le_enc 2 (unat (nt_port target))) (nl_targets listener)))
       assigned))))"

definition millis :: "nat \<Rightarrow> u64" where
  "millis duration_ns = (let ms = duration_ns div 1000000 in if ms < 2 ^ 64 then of_nat ms else - 1)"

definition read_snapshot :: "persist_call \<Rightarrow> bytes \<Rightarrow> persist_error + Snapshot" where
  "read_snapshot c file =
     (if pc_readable c then map_err FormatFailed (decode_snapshot (pc_sha256 c) file) else Inl ReadFailed)"

definition set_snapshot_status :: "SnapshotSummary \<Rightarrow> persistence \<Rightarrow> persistence" where
  "set_snapshot_status summary p =
     p\<lparr>ps_status := (ps_status p)\<lparr>fps_snapshot_records := su_records summary, fps_snapshot_bytes := su_bytes summary,
       fps_snapshot_duration_ms := millis (su_duration_ns summary)\<rparr>\<rparr>"

definition write_snapshot :: "persist_call \<Rightarrow> persistence \<Rightarrow> (persist_error + SnapshotSummary option) \<times> persistence" where
  "write_snapshot c p0 =
     (let p = p0\<lparr>ps_status := (ps_status p0)\<lparr>fps_enabled := gfp_enabled (settings c)\<rparr>\<rparr> in
      if \<not> gfp_enabled (settings c) then (Inr None, p)
      else case pc_listeners c of
        None \<Rightarrow> (Inl ConfigFailed, p)
      | Some listeners \<Rightarrow>
      (case dump_flows (pc_flow_env c) (ps_dp p) of
        Inl e \<Rightarrow> (Inl (FlowsFailed e), p)
      | Inr flows \<Rightarrow>
          let pairs = collect_snapshot_pairs (pc_order c) flows (pc_mono_now c 0) (settings c) in
          (case config_digest (pc_sha256 c) listeners of
            Inl e \<Rightarrow> (Inl (IdsFailed e), p)
          | Inr digest \<Rightarrow>
              let snapshot = \<lparr>ss_saved_at_unix_ns = pc_unix_now c, ss_node_name = pc_node_name c,
                    ss_config_digest = digest, ss_entries = snapshot_entries_from_pairs pairs\<rparr> in
              (case (pairs, ps_file p) of
                 ([], Some file) \<Rightarrow>
                   let summary = \<lparr>su_records = (case read_snapshot c file of Inr old \<Rightarrow> length (ss_entries old) div 2 | Inl _ \<Rightarrow> 0),
                         su_bytes = (if pc_metadata c then of_nat (length file) else 0), su_duration_ns = pc_elapsed_ns c\<rparr> in
                   (Inr (Some summary), set_snapshot_status summary p)
               | _ \<Rightarrow>
                   (case encode_snapshot (pc_sha256 c) snapshot of
                      Inl e \<Rightarrow> (Inl (FormatFailed e), p)
                    | Inr file \<Rightarrow>
                        if \<not> pc_writable c then (Inl WriteFailed, p)
                        else
                          let summary = \<lparr>su_records = length pairs, su_bytes = of_nat (length file), su_duration_ns = pc_elapsed_ns c\<rparr> in
                          (Inr (Some summary), set_snapshot_status summary (p\<lparr>ps_file := Some file\<rparr>)))))))"

definition snapshot_failed :: "persistence \<Rightarrow> persistence" where
  "snapshot_failed p =
     p\<lparr>ps_status := (ps_status p)\<lparr>fps_snapshot_errors_total := saturating_add (fps_snapshot_errors_total (ps_status p)) 1\<rparr>\<rparr>"

text \<open>One round of the worker, and the flush on shutdown.\<close>

definition snapshot_round :: "persist_call \<Rightarrow> persistence \<Rightarrow> persistence" where
  "snapshot_round c p = (case write_snapshot c p of (Inl _, p) \<Rightarrow> snapshot_failed p | (Inr _, p) \<Rightarrow> p)"

definition flush_on_shutdown :: "persist_call \<Rightarrow> persistence \<Rightarrow> persistence" where
  "flush_on_shutdown c p =
     (if \<not> gfp_enabled (settings c) \<or> \<not> gfp_flush_on_shutdown (settings c) then p else snapshot_round c p)"

definition RESTORE_BATCH_SIZE :: nat where "RESTORE_BATCH_SIZE = 4096"

function chunks :: "nat \<Rightarrow> 'a list \<Rightarrow> 'a list list" where
  "chunks n xs = (if n = 0 \<or> xs = [] then [] else take n xs # chunks n (drop n xs))"
  by pat_completeness auto
termination
  by (relation "measure (length \<circ> snd)") (auto simp: length_greater_0_conv [symmetric] simp del: length_greater_0_conv)

declare chunks.simps [simp del]

primrec upsert_chunks ::
    "flow_env \<Rightarrow> (NativeFlowKey \<times> NativeFlowValue) list list \<Rightarrow> dp \<Rightarrow> (persist_error + unit) \<times> dp" where
  "upsert_chunks env [] d = (Inr (), d)"
| "upsert_chunks env (entries # rest) d =
     (case upsert_flows env entries d of
        (Inl e, d) \<Rightarrow> (Inl (FlowsFailed e), d)
      | (Inr _, d) \<Rightarrow> upsert_chunks env rest d)"

definition restore_from_path :: "persist_call \<Rightarrow> bytes \<Rightarrow> dp \<Rightarrow> (persist_error + RestoreSummary) \<times> dp" where
  "restore_from_path c file d =
     (case read_snapshot c file of
        Inl e \<Rightarrow> (Inl e, d)
      | Inr snapshot \<Rightarrow>
      (case pc_listeners c of
        None \<Rightarrow> (Inl ConfigFailed, d)
      | Some listeners \<Rightarrow>
      (case config_digest (pc_sha256 c) listeners of
        Inl e \<Rightarrow> (Inl (IdsFailed e), d)
      | Inr _ \<Rightarrow>
      (case ListenerRestoreIndex_new listeners of
        Inl e \<Rightarrow> (Inl (IdsFailed e), d)
      | Inr listener_index \<Rightarrow>
          let elapsed_ns = unix_elapsed_ns (ss_saved_at_unix_ns snapshot) (pc_unix_now c) in
          (case restore_entries_from_snapshot (pc_order c) (pc_mono_now c) snapshot listener_index elapsed_ns of
             (summary, restore_entries) \<Rightarrow>
               (case upsert_chunks (pc_flow_env c) (chunks RESTORE_BATCH_SIZE restore_entries) d of
                  (Inl e, d) \<Rightarrow> (Inl e, d)
                | (Inr _, d) \<Rightarrow>
                    (case sweep_flows_and_refresh_loads (pc_flow_env c) (pc_sweep_now c) d of
                       (Inl e, d) \<Rightarrow> (Inl (FlowsFailed e), d)
                     | (Inr _, d) \<Rightarrow> (Inr (summary\<lparr>rs_duration_ns := pc_elapsed_ns c\<rparr>), d))))))))"

definition add_restored :: "RestoreSummary \<Rightarrow> FlowPersistenceStatus \<Rightarrow> FlowPersistenceStatus" where
  "add_restored summary st = st\<lparr>
     fps_restore_records_total := saturating_add (fps_restore_records_total st) (of_nat (rs_restored_pairs summary)),
     fps_restore_skipped_expired_total := saturating_add (fps_restore_skipped_expired_total st) (of_nat (rs_skipped_expired summary)),
     fps_restore_skipped_config_total := saturating_add (fps_restore_skipped_config_total st) (of_nat (rs_skipped_config summary)),
     fps_restore_skipped_incomplete_total := saturating_add (fps_restore_skipped_incomplete_total st) (of_nat (rs_skipped_incomplete summary)),
     fps_restore_duration_ms := millis (rs_duration_ns summary)\<rparr>"

definition restore_on_start :: "persist_call \<Rightarrow> persistence \<Rightarrow> (persist_error + RestoreSummary option) \<times> persistence" where
  "restore_on_start c p0 =
     (let p = p0\<lparr>ps_status := (ps_status p0)\<lparr>fps_enabled := gfp_enabled (settings c)\<rparr>\<rparr> in
      if \<not> gfp_enabled (settings c) \<or> \<not> gfp_restore_on_start (settings c) then (Inr None, p)
      else if \<not> is_active_gateway c then (Inr None, p)
      else case ps_file p of
        None \<Rightarrow> (Inr None, p)
      | Some file \<Rightarrow>
      (case pc_listeners c of
        None \<Rightarrow> (Inl ConfigFailed, p)
      | Some listeners \<Rightarrow>
          if listeners = [] then (Inr None, p)
          else case restore_from_path c file (ps_dp p) of
              (Inr summary, d) \<Rightarrow>
                (Inr (Some summary), p\<lparr>ps_dp := d, ps_status := add_restored summary (ps_status p)\<rparr>)
            | (Inl e, d) \<Rightarrow>
                (Inl e, p\<lparr>ps_dp := d, ps_status := (ps_status p)
                   \<lparr>fps_restore_errors_total := saturating_add (fps_restore_errors_total (ps_status p)) 1\<rparr>\<rparr>)))"

section \<open>The format is one-to-one\<close>

lemma le_enc_dec: "le_enc (length bs) (le_dec bs) = bs"
proof (induction bs)
  case (Cons b bs)
  have "unat b < 256" using unat_word_lt [of b] by simp
  then show ?case using Cons by simp
qed simp

lemma le_dec_lt: "le_dec bs < 256 ^ length bs"
proof (induction bs)
  case (Cons b bs)
  have "unat b < 256" using unat_word_lt [of b] by simp
  then show ?case using Cons by simp
qed simp

text \<open>What is left to read.\<close>

definition remaining :: "cursor \<Rightarrow> bytes" where
  "remaining c = drop (cu_offset c) (cu_bytes c)"

definition advance :: "nat \<Rightarrow> cursor \<Rightarrow> cursor" where
  "advance n c = c\<lparr>cu_offset := cu_offset c + n\<rparr>"

definition cursor_wf :: "cursor \<Rightarrow> bool" where
  "cursor_wf c \<longleftrightarrow> cu_offset c \<le> length (cu_bytes c) \<and> length (cu_bytes c) < 2 ^ 64"

lemma remaining_advance [simp]: "remaining (advance n c) = drop n (remaining c)"
  by (simp add: remaining_def advance_def add.commute)

lemma cursor_wf_advance [simp]: "cursor_wf c \<Longrightarrow> n \<le> length (remaining c) \<Longrightarrow> cursor_wf (advance n c)"
  by (auto simp: cursor_wf_def remaining_def advance_def)

lemma cursor_bytes_eval:
  "cursor_wf c \<Longrightarrow> n \<le> length (remaining c) \<Longrightarrow> cursor_bytes c n = Inr (take n (remaining c), advance n c)"
  by (auto simp: cursor_wf_def remaining_def advance_def cursor_bytes_def Let_def)

lemma cursor_u8_eval: "cursor_wf c \<Longrightarrow> remaining c \<noteq> [] \<Longrightarrow> cursor_u8 c = Inr (hd (remaining c), advance 1 c)"
  by (cases "remaining c") (simp_all add: cursor_u8_def cursor_bytes_eval)

lemma cursor_int_eval:
  "cursor_wf c \<Longrightarrow> 2 \<le> length (remaining c) \<Longrightarrow> cursor_u16 c = Inr (of_nat (le_dec (take 2 (remaining c))), advance 2 c)"
  "cursor_wf c \<Longrightarrow> 4 \<le> length (remaining c) \<Longrightarrow> cursor_u32 c = Inr (of_nat (le_dec (take 4 (remaining c))), advance 4 c)"
  "cursor_wf c \<Longrightarrow> 8 \<le> length (remaining c) \<Longrightarrow> cursor_u64 c = Inr (of_nat (le_dec (take 8 (remaining c))), advance 8 c)"
  by (simp_all add: cursor_u16_def cursor_u32_def cursor_u64_def cursor_bytes_eval)

lemmas cursor_eval = cursor_bytes_eval cursor_u8_eval cursor_int_eval

lemma unat_mod_width [simp]: "unat x mod 65536 = unat x" "unat y mod 4294967296 = unat y" "unat z mod 18446744073709551616 = unat z"
  for x :: u16 and y :: u32 and z :: u64
  using unat_word_lt [of x] unat_word_lt [of y] unat_word_lt [of z] by simp_all

text \<open>The bytes of an entry, apart from where they are appended.\<close>

definition entry_bytes :: "SnapshotEntry \<Rightarrow> bytes" where
  "entry_bytes entry = encode_entry [] entry"

lemma encode_entry_append: "encode_entry out entry = out @ entry_bytes entry"
  by (simp add: entry_bytes_def encode_entry_def Let_def put_u16_def put_u32_def put_u64_def)

lemma encode_entries_append: "foldl encode_entry out entries = out @ concat (map entry_bytes entries)"
  by (induction entries arbitrary: out) (simp_all add: encode_entry_append)

lemma length_entry_bytes [simp]: "length (entry_bytes entry) = 45"
  by (simp add: entry_bytes_def encode_entry_def Let_def put_u16_def put_u32_def put_u64_def)

text \<open>The format does not store the time stamp, which means nothing after a restart, nor the padding of a key.\<close>

definition storable_entry :: "SnapshotEntry \<Rightarrow> bool" where
  "storable_entry entry \<longleftrightarrow> fv_last_seen_ns (se_value entry) = 0 \<and> fk_pad (se_key entry) = [0, 0, 0]"

definition stored_entry :: "SnapshotEntry \<Rightarrow> SnapshotEntry" where
  "stored_entry entry = entry\<lparr>se_value := (se_value entry)\<lparr>fv_last_seen_ns := 0\<rparr>, se_key := (se_key entry)\<lparr>fk_pad := [0, 0, 0]\<rparr>\<rparr>"

lemma stored_entry_id: "storable_entry entry \<Longrightarrow> stored_entry entry = entry"
  by (cases entry) (auto simp: storable_entry_def stored_entry_def)

lemma decode_entry_eval:
  assumes "cursor_wf c" "remaining c = entry_bytes entry @ rest"
  shows "decode_entry c = Inr (stored_entry entry, advance 45 c)"
proof -
  have adv: "advance n (advance m c) = advance (m + n) c" for n m c by (simp add: advance_def)
  show ?thesis
    using assms
    by (cases entry, cases "se_key entry", cases "se_value entry")
      (simp add: decode_entry_def cursor_eval entry_bytes_def encode_entry_def Let_def put_u16_def put_u32_def put_u64_def
        adv stored_entry_def)
qed

lemma advance_advance [simp]: "advance n (advance m c) = advance (m + n) c"
  by (simp add: advance_def)

lemma decode_entries_eval:
  assumes "cursor_wf c" "remaining c = concat (map entry_bytes entries) @ rest"
  shows "decode_entries (length entries) c = Inr (map stored_entry entries, advance (45 * length entries) c)"
  using assms
proof (induction entries arbitrary: c)
  case Nil
  show ?case by (simp add: advance_def)
next
  case (Cons entry entries)
  have "decode_entries (length entries) (advance 45 c) = Inr (map stored_entry entries, advance (45 * length entries) (advance 45 c))"
    using Cons.prems by (intro Cons.IH) simp_all
  then show ?case using decode_entry_eval [of c entry] Cons.prems by simp
qed

text \<open>What a read returns are the bytes it consumes.\<close>

lemma cursor_bytes_consumes: "cursor_bytes c n = Inr (w, c') \<Longrightarrow> remaining c = w @ remaining c' \<and> length w = n"
  by (auto simp: cursor_bytes_def Let_def remaining_def add.commute split: if_splits)
    (metis append_take_drop_id drop_drop)

lemma cursor_expect_consumes: "cursor_expect c w = Inr c' \<Longrightarrow> remaining c = w @ remaining c'"
  by (auto simp: cursor_expect_def and_then_Inr dest!: cursor_bytes_consumes split: if_splits)

lemma cursor_u8_consumes:
  assumes "cursor_u8 c = Inr (x, c')"
  shows "remaining c = x # remaining c'"
proof -
  obtain b c1 where b: "cursor_bytes c 1 = Inr (b, c1)" using assms by (auto simp: cursor_u8_def and_then_Inr)
  show ?thesis using cursor_bytes_consumes [OF b] assms b by (cases b) (simp_all add: cursor_u8_def)
qed

lemma le_enc_read:
  "length b = 2 \<Longrightarrow> le_enc 2 (unat (of_nat (le_dec b) :: u16)) = b" "length b = 4 \<Longrightarrow> le_enc 4 (unat (of_nat (le_dec b) :: u32)) = b"
  "length b = 8 \<Longrightarrow> le_enc 8 (unat (of_nat (le_dec b) :: u64)) = b"
  using le_dec_lt [of b] le_enc_dec [of b] by (simp_all add: unat_of_nat)

lemma cursor_int_consumes:
  "cursor_u16 c = Inr (x, c') \<Longrightarrow> remaining c = le_enc 2 (unat x) @ remaining c'"
  "cursor_u32 c = Inr (y, c') \<Longrightarrow> remaining c = le_enc 4 (unat y) @ remaining c'"
  "cursor_u64 c = Inr (z, c') \<Longrightarrow> remaining c = le_enc 8 (unat z) @ remaining c'"
  by (auto simp: cursor_u16_def cursor_u32_def cursor_u64_def and_then_Inr le_enc_read dest!: cursor_bytes_consumes)

lemma decode_entry_consumes:
  "decode_entry c = Inr (entry, c') \<Longrightarrow> remaining c = entry_bytes entry @ remaining c' \<and> stored_entry entry = entry"
  by (auto simp: decode_entry_def and_then_Inr entry_bytes_def encode_entry_def put_u16_def put_u32_def put_u64_def
      stored_entry_def dest!: cursor_int_consumes cursor_u8_consumes)

lemma decode_entries_consumes:
  "decode_entries n c = Inr (entries, c') \<Longrightarrow>
   remaining c = concat (map entry_bytes entries) @ remaining c' \<and> map stored_entry entries = entries \<and> length entries = n"
proof (induction n arbitrary: c entries)
  case (Suc n)
  obtain entry c1 es where step: "decode_entry c = Inr (entry, c1)" "decode_entries n c1 = Inr (es, c')" "entries = entry # es"
    using Suc.prems by (auto simp: and_then_Inr)
  show ?case using Suc.IH [OF step(2)] decode_entry_consumes [OF step(1)] step(3) by simp
qed simp

lemma from_utf8_as_bytes: "valid_utf8 (as_bytes name) \<Longrightarrow> from_utf8 (as_bytes name) = Some name"
proof -
  have "char_of (unat (of_nat (of_char c) :: u8)) = c" for c :: char
    by (simp add: unat_of_nat char_of_mod_256)
  then show "valid_utf8 (as_bytes name) \<Longrightarrow> from_utf8 (as_bytes name) = Some name"
    by (simp add: from_utf8_def as_bytes_def o_def)
qed

lemma as_bytes_from_utf8: "from_utf8 bytes = Some name \<Longrightarrow> as_bytes name = bytes \<and> valid_utf8 bytes"
proof -
  have "of_nat (of_char (char_of (unat b))) = b" for b :: u8
    using unat_word_lt [of b] by (simp add: of_char_of)
  then show "from_utf8 bytes = Some name \<Longrightarrow> as_bytes name = bytes \<and> valid_utf8 bytes"
    by (auto simp: from_utf8_def as_bytes_def o_def split: if_splits)
qed

text \<open>A snapshot as the program builds it: the digest has its 32 bytes and the name is a string.\<close>

definition snapshot_typed :: "Snapshot \<Rightarrow> bool" where
  "snapshot_typed s \<longleftrightarrow> length (ss_config_digest s) = 32 \<and> valid_utf8 (as_bytes (ss_node_name s))"

definition stored_snapshot :: "Snapshot \<Rightarrow> Snapshot" where
  "stored_snapshot s = s\<lparr>ss_entries := map stored_entry (ss_entries s)\<rparr>"

definition snapshot_payload :: "Snapshot \<Rightarrow> bytes" where
  "snapshot_payload s = MAGIC @ le_enc 4 1 @ le_enc 4 1 @ le_enc 8 (unat (ss_saved_at_unix_ns s)) @
     le_enc 2 (unat (of_nat (length (ss_node_name s)) :: u16)) @ as_bytes (ss_node_name s) @ ss_config_digest s @
     le_enc 4 (unat (of_nat (length (ss_entries s)) :: u32)) @ concat (map entry_bytes (ss_entries s))"

lemma encode_snapshot_payload:
  "encode_snapshot sha256 s = Inr b \<longleftrightarrow> length (ss_node_name s) \<le> 0xFFFF \<and> length (ss_entries s) \<le> 0xFFFFFFFF \<and>
     b = snapshot_payload s @ sha256 (snapshot_payload s)"
  by (auto simp: encode_snapshot_def Let_def snapshot_payload_def encode_entries_append put_u16_def put_u32_def put_u64_def
      FORMAT_VERSION_def FLOW_MAP_ABI_VERSION_def)

lemma length_as_bytes [simp]: "length (as_bytes s) = length s"
  by (simp add: as_bytes_def)

lemma length_MAGIC [simp]: "length MAGIC = 8"
  by (simp add: MAGIC_def)

lemma length_entries_bytes [simp]: "length (concat (map entry_bytes entries)) = 45 * length entries"
  by (induction entries) simp_all

lemma length_snapshot_payload:
  "length (ss_config_digest s) = 32 \<Longrightarrow>
   length (snapshot_payload s) = 62 + length (ss_node_name s) + 45 * length (ss_entries s)"
  by (simp add: snapshot_payload_def)

lemma decode_payload_eval:
  assumes typed: "snapshot_typed s" and small: "length (ss_node_name s) \<le> 0xFFFF" "length (ss_entries s) \<le> 0xFFFFFFFF"
  shows "decode_payload \<lparr>cu_bytes = snapshot_payload s, cu_offset = 0\<rparr> = Inr (stored_snapshot s)"
proof -
  define c where "c = \<lparr>cu_bytes = snapshot_payload s, cu_offset = 0\<rparr>"
  have len: "length (snapshot_payload s) = 62 + length (ss_node_name s) + 45 * length (ss_entries s)"
    using typed length_snapshot_payload by (simp add: snapshot_typed_def)
  have wf: "cursor_wf c" using small by (simp add: c_def cursor_wf_def len)
  have rem: "remaining c = snapshot_payload s" by (simp add: c_def remaining_def)
  have "unat (of_nat (length (ss_node_name s)) :: u16) = length (ss_node_name s)"
    "unat (of_nat (length (ss_entries s)) :: u32) = length (ss_entries s)"
    using small by (simp_all add: unat_of_nat)
  moreover let ?c = "advance (62 + length (ss_node_name s)) c"
  have "decode_entries (length (ss_entries s)) ?c = Inr (map stored_entry (ss_entries s), advance (45 * length (ss_entries s)) ?c)"
    by (rule decode_entries_eval [where rest = "[]"])
      (use wf len rem typed in \<open>simp_all add: snapshot_payload_def snapshot_typed_def\<close>)
  moreover have "cursor_finish (advance (45 * length (ss_entries s)) ?c) = Inr ()"
    by (simp add: cursor_finish_def advance_def c_def len)
  ultimately have "decode_payload c = Inr (stored_snapshot s)"
    using wf rem typed small
    by (simp add: decode_payload_def cursor_expect_def cursor_eval snapshot_payload_def
        snapshot_typed_def FORMAT_VERSION_def FLOW_MAP_ABI_VERSION_def from_utf8_as_bytes stored_snapshot_def)
  then show ?thesis by (simp only: c_def)
qed

lemma decode_payload_consumes:
  assumes "decode_payload c = Inr s"
  shows "remaining c = snapshot_payload s \<and> snapshot_typed s \<and> stored_snapshot s = s \<and>
    length (ss_node_name s) \<le> 0xFFFF \<and> length (ss_entries s) \<le> 0xFFFFFFFF"
proof -
  obtain c1 c2 c3 c4 c5 c6 c7 c8 c9 saved node_len name node_name digest count entries where reads:
    "cursor_expect c MAGIC = Inr c1" "cursor_u32 c1 = Inr (FORMAT_VERSION, c2)" "cursor_u32 c2 = Inr (FLOW_MAP_ABI_VERSION, c3)"
    "cursor_u64 c3 = Inr (saved, c4)" "cursor_u16 c4 = Inr (node_len, c5)" "cursor_bytes c5 (unat node_len) = Inr (name, c6)"
    "from_utf8 name = Some node_name" "cursor_bytes c6 32 = Inr (digest, c7)" "cursor_u32 c7 = Inr (count, c8)"
    "decode_entries (unat count) c8 = Inr (entries, c9)" "cursor_finish c9 = Inr ()"
    and s: "s = \<lparr>ss_saved_at_unix_ns = saved, ss_node_name = node_name, ss_config_digest = digest, ss_entries = entries\<rparr>"
    using assms by (auto simp: decode_payload_def and_then_Inr)
  note consumed = cursor_expect_consumes [OF reads(1)] cursor_int_consumes(2) [OF reads(2)] cursor_int_consumes(2) [OF reads(3)]
    cursor_int_consumes(3) [OF reads(4)] cursor_int_consumes(1) [OF reads(5)] cursor_bytes_consumes [OF reads(6)]
    as_bytes_from_utf8 [OF reads(7)] cursor_bytes_consumes [OF reads(8)] cursor_int_consumes(2) [OF reads(9)]
    decode_entries_consumes [OF reads(10)]
  have "remaining c9 = []" using reads(11) by (simp add: cursor_finish_def remaining_def)
  moreover have "length node_name = unat node_len" using consumed by (metis length_as_bytes)
  moreover have "unat node_len \<le> 0xFFFF" "unat count \<le> 0xFFFFFFFF"
    using unat_word_lt [of node_len] unat_word_lt [of count] by simp_all
  ultimately show ?thesis
    using consumed by (simp add: s snapshot_payload_def snapshot_typed_def stored_snapshot_def FORMAT_VERSION_def FLOW_MAP_ABI_VERSION_def)
qed

lemma decode_encoded:
  assumes "\<And>bytes. length (sha256 bytes) = 32" "snapshot_typed s" "encode_snapshot sha256 s = Inr b"
  shows "decode_snapshot sha256 b = Inr (stored_snapshot s)"
  using decode_payload_eval [of s] assms length_snapshot_payload [of s]
  by (simp add: encode_snapshot_payload decode_snapshot_def Let_def CHECKSUM_LEN_def snapshot_typed_def)

text \<open>C37. The snapshot file.  Whatever a gateway writes it reads back, without the time stamps, for which the file has
  ages; and conversely the reader accepts only the bytes that the writer produces for the snapshot it
  returns, so that a file that is truncated, extended, of another version or whose checksum does not
  match is refused.\<close>

theorem snapshot_file_round_trip:
  assumes "\<And>bytes. length (sha256 bytes) = 32"
  shows "(snapshot_typed s \<and> encode_snapshot sha256 s = Inr b \<longrightarrow> decode_snapshot sha256 b = Inr (stored_snapshot s)) \<and>
    (decode_snapshot sha256 b = Inr s \<longrightarrow> encode_snapshot sha256 s = Inr b \<and> snapshot_typed s \<and> stored_snapshot s = s)"
proof (intro conjI impI; (elim conjE)?)
  assume "snapshot_typed s" "encode_snapshot sha256 s = Inr b"
  then show "decode_snapshot sha256 b = Inr (stored_snapshot s)" by (rule decode_encoded [OF assms])
next
  assume "decode_snapshot sha256 b = Inr s"
  then have read: "sha256 (take (length b - 32) b) = drop (length b - 32) b"
    "decode_payload \<lparr>cu_bytes = take (length b - 32) b, cu_offset = 0\<rparr> = Inr s"
    by (simp_all add: decode_snapshot_def Let_def CHECKSUM_LEN_def split: if_splits)
  note spec = decode_payload_consumes [OF read(2)]
  then have "snapshot_payload s = take (length b - 32) b" by (simp add: remaining_def)
  then have "b = snapshot_payload s @ sha256 (snapshot_payload s)" using read(1) by simp
  then show "encode_snapshot sha256 s = Inr b" "snapshot_typed s" "stored_snapshot s = s"
    using spec by (simp_all add: encode_snapshot_payload)
qed

definition sample_sha :: "bytes \<Rightarrow> bytes" where
  "sample_sha bytes = replicate 32 0"

theorem snapshot_file_round_trip_witness:
  "\<exists>b. encode_snapshot sample_sha \<lparr>ss_saved_at_unix_ns = 9, ss_node_name = ''gw'', ss_config_digest = replicate 32 1,
      ss_entries = [\<lparr>se_key = sample_key, se_value = sample_flow 0, se_last_seen_age_ns = 5\<rparr>]\<rparr> = Inr b \<and>
    decode_snapshot sample_sha b = Inr \<lparr>ss_saved_at_unix_ns = 9, ss_node_name = ''gw'', ss_config_digest = replicate 32 1,
      ss_entries = [\<lparr>se_key = sample_key, se_value = sample_flow 0, se_last_seen_age_ns = 5\<rparr>]\<rparr>"
proof -
  define s where "s = \<lparr>ss_saved_at_unix_ns = 9, ss_node_name = ''gw'', ss_config_digest = replicate 32 1,
      ss_entries = [\<lparr>se_key = sample_key, se_value = sample_flow 0, se_last_seen_age_ns = 5\<rparr>]\<rparr>"
  have sha: "length (sample_sha bytes) = 32" for bytes by (simp add: sample_sha_def)
  obtain b where b: "encode_snapshot sample_sha s = Inr b" unfolding encode_snapshot_payload by (simp add: s_def)
  have typed: "snapshot_typed s" by (simp add: s_def snapshot_typed_def as_bytes_def)
  have "stored_snapshot s = s" by (simp add: s_def stored_snapshot_def stored_entry_def sample_flow_def sample_key_def)
  then have "decode_snapshot sample_sha b = Inr s"
    using snapshot_file_round_trip [OF sha, THEN conjunct1, THEN mp, OF conjI, OF typed b] by (simp only:)
  with b show ?thesis unfolding s_def by (intro exI conjI)
qed

section \<open>Groups of entries\<close>

abbreviation canon :: "SnapshotEntry \<Rightarrow> NativeFlowKey \<times> NativeFlowKey" where
  "canon e \<equiv> canonical_flow_pair (se_key e) (se_value e)"

lemma push_group_keys: "fst ` set (push_group p e gs) = insert p (fst ` set gs)"
  by (induction p e gs rule: push_group.induct) auto

lemma distinct_push_group: "distinct (map fst gs) \<Longrightarrow> distinct (map fst (push_group p e gs))"
  by (induction p e gs rule: push_group.induct) (auto simp: push_group_keys simp del: split_paired_All)

lemma map_of_push_group:
  "map_of (push_group p e gs) q =
   (if q = p then Some ((case map_of gs p of None \<Rightarrow> [] | Some es \<Rightarrow> es) @ [e]) else map_of gs q)"
  by (induction p e gs rule: push_group.induct) auto

lemma group_entries_snoc: "group_entries (es @ [e]) = push_group (canon e) e (group_entries es)"
  by (simp add: group_entries_def)

lemma map_of_group_entries:
  "distinct (map fst (group_entries es)) \<and>
   map_of (group_entries es) p = (let g = filter (\<lambda>e. canon e = p) es in if g = [] then None else Some g)"
proof (induction es rule: rev_induct)
  case Nil
  show ?case by (simp add: group_entries_def)
next
  case (snoc e es)
  then show ?case
    using distinct_push_group [of "group_entries es" "canon e" e]
    by (auto simp: group_entries_snoc map_of_push_group Let_def)
qed

lemma group_mem: "(p, g) \<in> set (group_entries es) \<longleftrightarrow> g \<noteq> [] \<and> g = filter (\<lambda>e. canon e = p) es"
  using map_of_group_entries [of es p] by (auto simp: Let_def map_of_eq_Some_iff split: if_splits)

lemma canonical_keys: "canonical_flow_pair k v = (l, r) \<Longrightarrow> forward_reverse_keys k v \<in> {(l, r), (r, l)} \<and> k \<in> {l, r}"
  by (auto simp: canonical_flow_pair_def forward_reverse_keys_def Let_def split: if_splits)

lemma min_by_age_mem: "min_by_age es = Some e \<Longrightarrow> e \<in> set es"
  by (induction es arbitrary: e) (auto split: option.splits if_splits)

lemma min_by_age_None: "min_by_age es = None \<longleftrightarrow> es = []"
  by (cases es) (auto split: option.splits)

text \<open>A pair comes from a group with both keys, and has the value and the age of one of its entries.\<close>

lemma pair_from_group:
  assumes "pair_from_entries l r g = Some sp" "\<forall>e\<in>set g. canon e = (l, r)"
  obtains e where "e \<in> set g" "sp_value sp = se_value e" "sp_last_seen_age_ns sp = se_last_seen_age_ns e"
    "(sp_forward_key sp, sp_reverse_key sp) = forward_reverse_keys (se_key e) (se_value e)"
    "{sp_forward_key sp, sp_reverse_key sp} = {l, r}" "{l, r} \<subseteq> se_key ` set g"
proof -
  obtain e where e: "min_by_age g = Some e" "{l, r} \<subseteq> se_key ` set g"
    "(sp_forward_key sp, sp_reverse_key sp) = forward_reverse_keys (se_key e) (se_value e)"
    "sp_value sp = se_value e" "sp_last_seen_age_ns sp = se_last_seen_age_ns e"
    using assms(1) by (auto simp: pair_from_entries_def split: if_splits option.splits prod.splits)
  have mem: "e \<in> set g" by (rule min_by_age_mem [OF e(1)])
  have "{sp_forward_key sp, sp_reverse_key sp} = {l, r}"
    using canonical_keys [of "se_key e" "se_value e" l r] assms(2) mem e(3) by auto
  then show thesis using that [OF mem e(4,5,3)] e(2) by simp
qed

text \<open>The two entries of one connection make its pair.\<close>

abbreviation entry_of :: "NativeFlowValue \<Rightarrow> u64 \<Rightarrow> NativeFlowKey \<Rightarrow> SnapshotEntry" where
  "entry_of v age k \<equiv> \<lparr>se_key = k, se_value = v, se_last_seen_age_ns = age\<rparr>"

abbreviation pair_of :: "NativeFlowValue \<Rightarrow> u64 \<Rightarrow> NativeFlowKey \<Rightarrow> SnapshotPair" where
  "pair_of v age k \<equiv> \<lparr>sp_forward_key = k, sp_reverse_key = reverse_for k v, sp_value = v, sp_last_seen_age_ns = age\<rparr>"

definition client_flow :: "NativeFlowKey \<Rightarrow> NativeFlowValue \<Rightarrow> bool" where
  "client_flow k v \<longleftrightarrow> forward_key k v \<and> \<not> at_target k v"

lemma client_flow_keys:
  assumes "client_flow k v"
  shows "forward_reverse_keys k v = (k, reverse_for k v)" "forward_reverse_keys (reverse_for k v) v = (k, reverse_for k v)"
    "canonical_flow_pair (reverse_for k v) v = canonical_flow_pair k v" "k \<noteq> reverse_for k v"
    "canonical_flow_pair k v \<in> {(k, reverse_for k v), (reverse_for k v, k)}"
proof -
  have [simp]: "forward_for (reverse_for k v) v = k" using assms by (simp add: client_flow_def forward_reverse)
  show "forward_reverse_keys k v = (k, reverse_for k v)" "forward_reverse_keys (reverse_for k v) v = (k, reverse_for k v)"
    "canonical_flow_pair (reverse_for k v) v = canonical_flow_pair k v"
    "canonical_flow_pair k v \<in> {(k, reverse_for k v), (reverse_for k v, k)}"
    using assms by (auto simp: client_flow_def at_target_def forward_reverse_keys_def canonical_flow_pair_def Let_def)
  have "at_target (reverse_for k v) v" by (simp add: at_target_def)
  then show "k \<noteq> reverse_for k v" using assms by (auto simp: client_flow_def)
qed

lemma pair_from_flow:
  assumes "client_flow k v" "canonical_flow_pair k v = (l, r)"
    and g: "set g = {entry_of v age k, entry_of v age (reverse_for k v)}"
  shows "pair_from_entries l r g = Some (pair_of v age k)"
proof -
  note keys = client_flow_keys [OF assms(1)]
  obtain e where e: "min_by_age g = Some e" using g min_by_age_None [of g] by force
  then have "e \<in> {entry_of v age k, entry_of v age (reverse_for k v)}" using min_by_age_mem g by blast
  then show ?thesis using keys assms(2) g e by (auto simp: pair_from_entries_def)
qed

text \<open>Entries whose keys are those of one connection are its entries.\<close>

definition owns :: "SnapshotEntry list \<Rightarrow> NativeFlowValue \<Rightarrow> u64 \<Rightarrow> NativeFlowKey \<Rightarrow> bool" where
  "owns es v age k \<longleftrightarrow> entry_of v age k \<in> set es \<and> entry_of v age (reverse_for k v) \<in> set es \<and>
     (\<forall>e\<in>set es. se_key e \<in> {k, reverse_for k v} \<longrightarrow> e = entry_of v age (se_key e))"

lemma owns_group:
  assumes "client_flow k v" "owns es v age k" "canonical_flow_pair k v = p"
  shows "set (filter (\<lambda>e. canon e = p) es) = {entry_of v age k, entry_of v age (reverse_for k v)}"
proof -
  note keys = client_flow_keys [OF assms(1)]
  have own: "se_key e \<in> {k, reverse_for k v} \<Longrightarrow> e = entry_of v age (se_key e)" if "e \<in> set es" for e
    using assms(2) that by (simp only: owns_def)
  have "e \<in> {entry_of v age k, entry_of v age (reverse_for k v)}" if "e \<in> set es" "canon e = p" for e
  proof -
    have "se_key e \<in> {k, reverse_for k v}"
      using canonical_keys [of "se_key e" "se_value e" "fst p" "snd p"] that(2) keys(5) assms(3) by auto
    then show ?thesis using own [OF that(1)] by (metis insertE insertI1 insertI2 singletonD)
  qed
  then have "set (filter (\<lambda>e. canon e = p) es) \<subseteq> {entry_of v age k, entry_of v age (reverse_for k v)}"
    by (intro subsetI) simp
  moreover have "canon (entry_of v age k) = p" "canon (entry_of v age (reverse_for k v)) = p" using keys(3) assms(3) by simp_all
  ultimately show ?thesis using assms(2) unfolding owns_def by (intro equalityI) simp_all
qed

text \<open>So the groups have exactly one pair with a key of the connection.\<close>

lemma owns_pair:
  assumes "client_flow k v" "owns es v age k"
  shows "\<exists>p g. (p, g) \<in> set (group_entries es) \<and> pair_from_entries (fst p) (snd p) g = Some (pair_of v age k) \<and>
    (\<forall>q h sp. (q, h) \<in> set (group_entries es) \<longrightarrow> pair_from_entries (fst q) (snd q) h = Some sp \<longrightarrow>
       {sp_forward_key sp, sp_reverse_key sp} \<inter> {k, reverse_for k v} \<noteq> {} \<longrightarrow> q = p)"
proof (intro exI conjI allI impI)
  let ?p = "canonical_flow_pair k v"
  let ?g = "filter (\<lambda>e. canon e = ?p) es"
  have g: "set ?g = {entry_of v age k, entry_of v age (reverse_for k v)}" by (rule owns_group [OF assms refl])
  then have "?g \<noteq> []" by (metis empty_not_insert list.set(1))
  then show "(?p, ?g) \<in> set (group_entries es)" unfolding group_mem by (rule conjI) (rule refl)
  show "pair_from_entries (fst ?p) (snd ?p) ?g = Some (pair_of v age k)" by (rule pair_from_flow [OF assms(1) _ g]) simp
  fix q h sp
  assume qh: "(q, h) \<in> set (group_entries es)" "pair_from_entries (fst q) (snd q) h = Some sp"
    "{sp_forward_key sp, sp_reverse_key sp} \<inter> {k, reverse_for k v} \<noteq> {}"
  have h: "set h \<subseteq> set es" "\<forall>e\<in>set h. canon e = (fst q, snd q)" using qh(1) by (auto simp: group_mem)
  have "{sp_forward_key sp, sp_reverse_key sp} \<subseteq> se_key ` set h"
    by (rule pair_from_group [OF qh(2) h(2)]) simp
  then obtain e where e: "e \<in> set h" "se_key e \<in> {k, reverse_for k v}" using qh(3) by auto
  have "e = entry_of v age (se_key e)" using assms(2) h(1) e unfolding owns_def by blast
  then have "se_value e = v" by (metis SnapshotEntry.select_convs(2))
  then have "canon e = ?p" using e(2) client_flow_keys(3) [OF assms(1)] by auto
  moreover have "canon e = q" using bspec [OF h(2) e(1)] by (simp only: prod.collapse)
  ultimately show "q = ?p" by (simp only:)
qed

section \<open>Saving and restoring a connection\<close>

text \<open>The iteration of a hash map visits every entry once.\<close>

definition iterates :: "(pair_groups \<Rightarrow> pair_groups) \<Rightarrow> bool" where
  "iterates order \<longleftrightarrow> (\<forall>groups. mset (order groups) = mset groups)"

lemma iteratesD: "iterates order \<Longrightarrow> set (order gs) = set gs" "iterates order \<Longrightarrow> distinct (map fst gs) \<Longrightarrow> distinct (map fst (order gs))"
  unfolding iterates_def by (metis set_mset_mset, metis mset_eq_imp_distinct_iff mset_map)

lemma map_filter_mem: "y \<in> set (List.map_filter f xs) \<longleftrightarrow> (\<exists>x\<in>set xs. f x = Some y)"
  by (force simp: List.map_filter_def)

text \<open>The saved entries belong to the connections of the table.\<close>

lemma candidate_spec:
  "snapshot_candidate min_ns now flow = Some e \<Longrightarrow> e = entry_of (snd flow) (flow_age (fv_last_seen_ns (snd flow)) now) (fst flow)"
  by (auto simp: snapshot_candidate_def Let_def split: option.splits if_splits)

lemma candidates_own:
  assumes "\<And>k v. (k, v) \<in> set flows \<Longrightarrow> m k = Some v" "(k, v) \<in> set flows" "(reverse_for k v, v) \<in> set flows"
    and "snapshot_candidate min_ns now (k, v) \<noteq> None"
  shows "owns (List.map_filter (snapshot_candidate min_ns now) flows) v (flow_age (fv_last_seen_ns v) now) k"
proof -
  have both: "snapshot_candidate min_ns now (key, v) = Some (entry_of v (flow_age (fv_last_seen_ns v) now) key)" for key
    using assms(4) by (auto simp: snapshot_candidate_def Let_def split: option.splits if_splits)
  have "e = entry_of v (flow_age (fv_last_seen_ns v) now) (se_key e)"
    if "flow \<in> set flows" "snapshot_candidate min_ns now flow = Some e" "se_key e \<in> {k, reverse_for k v}" for flow e
  proof -
    have e: "e = entry_of (snd flow) (flow_age (fv_last_seen_ns (snd flow)) now) (fst flow)" by (rule candidate_spec [OF that(2)])
    have "m (fst flow) = Some (snd flow)" using assms(1) that(1) by (cases flow) simp
    then have "snd flow = v" using assms(1) [OF assms(2)] assms(1) [OF assms(3)] that(3) e by auto
    then show ?thesis using e by simp
  qed
  then have "\<forall>e\<in>set (List.map_filter (snapshot_candidate min_ns now) flows).
      se_key e \<in> {k, reverse_for k v} \<longrightarrow> e = entry_of v (flow_age (fv_last_seen_ns v) now) (se_key e)"
    unfolding Ball_def map_filter_mem by (intro allI impI) (elim bexE)
  moreover have "\<exists>flow\<in>set flows. snapshot_candidate min_ns now flow = Some (entry_of v (flow_age (fv_last_seen_ns v) now) key)"
    if "(key, v) \<in> set flows" for key
    using both [of key] that by (rule bexI)
  ultimately show ?thesis unfolding owns_def map_filter_mem using assms(2,3) by (intro conjI) simp_all
qed

lemma snapshot_pairs_mem:
  assumes "iterates order" "length (collect_snapshot_pairs order flows now st) < gfp_max_records st"
  defines "groups \<equiv> group_entries (List.map_filter
    (snapshot_candidate (saturating_mul (gfp_min_remaining_ttl_secs st) 1000000000) now) flows)"
  shows "sp \<in> set (collect_snapshot_pairs order flows now st) \<longleftrightarrow>
    (\<exists>p g. (p, g) \<in> set groups \<and> pair_from_entries (fst p) (snd p) g = Some sp)"
proof -
  define pairs where "pairs = List.map_filter (\<lambda>((left, right), entries). pair_from_entries left right entries) (order groups)"
  have "collect_snapshot_pairs order flows now st = take (gfp_max_records st) (sort_key sp_last_seen_age_ns pairs)"
    by (simp add: collect_snapshot_pairs_def groups_def pairs_def Let_def)
  moreover from this assms(2) have "length pairs < gfp_max_records st" by simp
  ultimately have "set (collect_snapshot_pairs order flows now st) = set pairs" by simp
  then show ?thesis
    unfolding pairs_def by (auto simp: map_filter_mem iteratesD(1) [OF assms(1)] split: prod.splits) force+
qed

lemma snapshot_entries_mem:
  "e \<in> set (snapshot_entries_from_pairs pairs) \<longleftrightarrow>
   (\<exists>sp\<in>set pairs. e = entry_of (sp_value sp) (sp_last_seen_age_ns sp) (sp_forward_key sp) \<or>
      e = entry_of (sp_value sp) (sp_last_seen_age_ns sp) (sp_reverse_key sp))"
  by (auto simp: snapshot_entries_from_pairs_def)

lemma saved_own:
  assumes "iterates order" "length (collect_snapshot_pairs order flows now st) < gfp_max_records st"
    and flow: "client_flow k v"
    and own: "owns (List.map_filter (snapshot_candidate (saturating_mul (gfp_min_remaining_ttl_secs st) 1000000000) now) flows) v age k"
  shows "owns (snapshot_entries_from_pairs (collect_snapshot_pairs order flows now st)) v age k"
proof -
  define es where "es = List.map_filter (snapshot_candidate (saturating_mul (gfp_min_remaining_ttl_secs st) 1000000000) now) flows"
  note mem = snapshot_pairs_mem [OF assms(1,2), folded es_def]
  obtain p g where pg: "(p, g) \<in> set (group_entries es)" "pair_from_entries (fst p) (snd p) g = Some (pair_of v age k)"
    and unique: "\<And>q h sp. (q, h) \<in> set (group_entries es) \<Longrightarrow> pair_from_entries (fst q) (snd q) h = Some sp \<Longrightarrow>
       {sp_forward_key sp, sp_reverse_key sp} \<inter> {k, reverse_for k v} \<noteq> {} \<Longrightarrow> q = p"
    using owns_pair [OF flow own [folded es_def]] by blast
  have only: "sp = pair_of v age k" if "sp \<in> set (collect_snapshot_pairs order flows now st)"
    "sp_forward_key sp \<in> {k, reverse_for k v} \<or> sp_reverse_key sp \<in> {k, reverse_for k v}" for sp
  proof -
    obtain q h where qh: "(q, h) \<in> set (group_entries es)" "pair_from_entries (fst q) (snd q) h = Some sp"
      using mem [THEN iffD1, OF \<open>sp \<in> _\<close>] by (elim exE conjE)
    have "q = p" using unique [OF qh] that(2) by blast
    then have "h = g" using qh(1) pg(1) by (simp add: group_mem)
    then show ?thesis using qh(2) pg(2) \<open>q = p\<close> by simp
  qed
  have here: "pair_of v age k \<in> set (collect_snapshot_pairs order flows now st)"
    by (intro mem [THEN iffD2] exI conjI) (fact pg)+
  show ?thesis
    unfolding owns_def snapshot_entries_mem
  proof (intro conjI ballI impI)
    show "\<exists>sp\<in>set (collect_snapshot_pairs order flows now st).
        entry_of v age k = entry_of (sp_value sp) (sp_last_seen_age_ns sp) (sp_forward_key sp) \<or>
        entry_of v age k = entry_of (sp_value sp) (sp_last_seen_age_ns sp) (sp_reverse_key sp)"
      "\<exists>sp\<in>set (collect_snapshot_pairs order flows now st).
        entry_of v age (reverse_for k v) = entry_of (sp_value sp) (sp_last_seen_age_ns sp) (sp_forward_key sp) \<or>
        entry_of v age (reverse_for k v) = entry_of (sp_value sp) (sp_last_seen_age_ns sp) (sp_reverse_key sp)"
      by (rule bexI [OF _ here], simp)+
    fix e
    assume "e \<in> set (snapshot_entries_from_pairs (collect_snapshot_pairs order flows now st))" "se_key e \<in> {k, reverse_for k v}"
    then obtain sp where sp: "sp \<in> set (collect_snapshot_pairs order flows now st)"
      "se_key e = sp_forward_key sp \<or> se_key e = sp_reverse_key sp" "e = entry_of (sp_value sp) (sp_last_seen_age_ns sp) (se_key e)"
      unfolding snapshot_entries_mem by (elim bexE disjE) simp_all
    have "sp = pair_of v age k" by (rule only [OF sp(1)]) (use sp(2) \<open>se_key e \<in> _\<close> in auto)
    then show "e = entry_of v age (se_key e)" using sp(3) by simp
  qed
qed

lemma saved_keys:
  assumes "iterates order" "length (collect_snapshot_pairs order flows now st) < gfp_max_records st"
    and "e \<in> set (snapshot_entries_from_pairs (collect_snapshot_pairs order flows now st))"
  shows "se_key e \<in> fst ` set flows"
proof -
  obtain sp where sp: "sp \<in> set (collect_snapshot_pairs order flows now st)" "se_key e \<in> {sp_forward_key sp, sp_reverse_key sp}"
    using assms(3) unfolding snapshot_entries_mem by (elim bexE disjE) simp_all
  obtain p g where pg: "pair_from_entries (fst p) (snd p) g = Some sp"
    and g: "g = filter (\<lambda>e. canon e = p) (List.map_filter (snapshot_candidate (saturating_mul (gfp_min_remaining_ttl_secs st) 1000000000) now) flows)"
    using snapshot_pairs_mem [OF assms(1,2), THEN iffD1, OF sp(1)] unfolding group_mem by (elim exE conjE)
  have "\<forall>e\<in>set g. canon e = (fst p, snd p)" unfolding g by simp
  with pg have "{sp_forward_key sp, sp_reverse_key sp} \<subseteq> se_key ` set g" by (rule pair_from_group) simp
  then obtain e' where "e' \<in> set g" "se_key e' = se_key e" using sp(2) by auto
  then obtain flow where "flow \<in> set flows" "fst flow = se_key e"
    unfolding g by (auto simp: map_filter_mem dest!: candidate_spec)
  then show ?thesis by force
qed

lemma stored_own:
  assumes "owns es v age k" "\<And>e. e \<in> set es \<Longrightarrow> fk_pad (se_key e) = [0, 0, 0]"
  shows "owns (map stored_entry es) (v\<lparr>fv_last_seen_ns := 0\<rparr>) age k"
proof -
  have key: "se_key (stored_entry e) = se_key e" if "e \<in> set es" for e
    using assms(2) [OF that] by (cases "se_key e") (simp add: stored_entry_def)
  have val: "stored_entry e = entry_of (v\<lparr>fv_last_seen_ns := 0\<rparr>) age (se_key e)" if "e \<in> set es" "e = entry_of v age (se_key e)" for e
  proof -
    have "se_value e = v" "se_last_seen_age_ns e = age" using that(2) by (metis SnapshotEntry.select_convs)+
    then show ?thesis using key [OF that(1)] by (cases e) (simp add: stored_entry_def)
  qed
  have ends: "entry_of v age k \<in> set es" "entry_of v age (reverse_for k v) \<in> set es" using assms(1) by (simp_all add: owns_def)
  show ?thesis
    unfolding owns_def reverse_for_last_seen
  proof (intro conjI ballI impI)
    show "entry_of (v\<lparr>fv_last_seen_ns := 0\<rparr>) age k \<in> set (map stored_entry es)"
      "entry_of (v\<lparr>fv_last_seen_ns := 0\<rparr>) age (reverse_for k v) \<in> set (map stored_entry es)"
      using val [OF ends(1)] val [OF ends(2)] ends by (simp_all add: image_iff) (metis ends)+
    fix e
    assume "e \<in> set (map stored_entry es)" "se_key e \<in> {k, reverse_for k v}"
    then obtain e0 where e0: "e0 \<in> set es" "e = stored_entry e0" "se_key e0 \<in> {k, reverse_for k v}" using key by auto
    then have "e0 = entry_of v age (se_key e0)" using assms(1) unfolding owns_def by (elim conjE) (drule (1) bspec, simp)
    then show "e = entry_of (v\<lparr>fv_last_seen_ns := 0\<rparr>) age (se_key e)" using val [OF e0(1)] key [OF e0(1)] e0(2) by simp
  qed
qed

lemma target_position_Some:
  "target_position ts v = Some i \<Longrightarrow> i < length ts \<and> nt_address (ts ! i) = fv_target v \<and> nt_port (ts ! i) = fv_target_port v"
  by (induction ts arbitrary: i) (auto split: if_splits)

text \<open>The remapped value is the saved one up to the identifiers and the time.\<close>

lemma remap_value_Some:
  assumes "remap_value now v age k idx = Some v'"
  shows "\<exists>lid tid. v' = v\<lparr>fv_listener_id := lid, fv_target_id := tid, fv_last_seen_ns := saturating_sub now age\<rparr>"
proof -
  obtain l where l: "ListenerRestoreIndex_get idx (fv_listener_id v) k v = Some l"
    using assms by (cases "ListenerRestoreIndex_get idx (fv_listener_id v) k v") (simp_all add: remap_value_def)
  obtain i where i: "target_position (nl_targets (lr_listener l)) v = Some i"
    using assms l by (cases "target_position (nl_targets (lr_listener l)) v") (simp_all add: remap_value_def)
  show ?thesis
    using assms l i target_position_Some [OF i] by (cases v) (auto simp: remap_value_def Let_def)
qed

lemma remap_reverse: "remap_value now v age k idx = Some v' \<Longrightarrow> reverse_for key v' = reverse_for key v"
  by (drule remap_value_Some) (auto simp: reverse_for_def)

text \<open>The keys a pair is restored with.\<close>

definition pair_keys :: "SnapshotPair \<Rightarrow> NativeFlowKey set" where
  "pair_keys sp = {sp_forward_key sp, reverse_for (sp_forward_key sp) (sp_value sp)}"

lemma restore_pair_step:
  "\<exists>es. snd (restore_pair clock idx elapsed acc p) = snd acc @ es \<and> (\<forall>key\<in>fst ` set es. \<exists>sp. p = Some sp \<and> key \<in> pair_keys sp)"
  by (cases acc; cases p) (auto simp: restore_pair_def Let_def remap_reverse pair_keys_def split: option.split)

lemma restore_fold:
  "\<exists>es. snd (foldl (restore_pair clock idx elapsed) acc ps) = snd acc @ es \<and>
    (\<forall>key\<in>fst ` set es. \<exists>sp. Some sp \<in> set ps \<and> key \<in> pair_keys sp)"
proof (induction ps arbitrary: acc)
  case (Cons p ps)
  let ?acc = "restore_pair clock idx elapsed acc p"
  obtain es1 where es1: "snd ?acc = snd acc @ es1" "\<forall>key\<in>fst ` set es1. \<exists>sp. p = Some sp \<and> key \<in> pair_keys sp"
    using restore_pair_step [of clock idx elapsed acc p] by (elim exE conjE)
  obtain es2 where es2: "snd (foldl (restore_pair clock idx elapsed) ?acc ps) = snd ?acc @ es2"
    "\<forall>key\<in>fst ` set es2. \<exists>sp. Some sp \<in> set ps \<and> key \<in> pair_keys sp"
    using Cons.IH [of ?acc] by (elim exE conjE)
  have "\<forall>key\<in>fst ` set (es1 @ es2). \<exists>sp. Some sp \<in> set (p # ps) \<and> key \<in> pair_keys sp"
    unfolding set_append image_Un ball_Un using es1(2) es2(2) by (metis list.set_intros)
  then show ?case using es1(1) es2(1) by (intro exI [of _ "es1 @ es2"]) simp
qed simp

text \<open>A connection whose entries are in the snapshot is restored once, and no other pair has its keys.\<close>

lemma pair_keys_zero_pad:
  assumes "pair_from_entries l r g = Some sp" "\<forall>e\<in>set g. canon e = (l, r)" "\<forall>e\<in>set g. fk_pad (se_key e) = [0, 0, 0]"
  shows "pair_keys sp = {sp_forward_key sp, sp_reverse_key sp}"
proof (rule pair_from_group [OF assms(1,2)])
  fix e
  assume e: "e \<in> set g" "sp_value sp = se_value e" "(sp_forward_key sp, sp_reverse_key sp) = forward_reverse_keys (se_key e) (se_value e)"
  have "fk_pad (se_key e) = [0, 0, 0]" using assms(3) e(1) by simp
  then have "reverse_for (sp_forward_key sp) (sp_value sp) = sp_reverse_key sp"
    using e(2,3) reverse_forward [of "se_key e" "se_value e"]
    by (auto simp: forward_reverse_keys_def reverse_key_def split: if_splits)
  then show ?thesis by (simp add: pair_keys_def)
qed

lemma restore_pair_Some:
  assumes "\<not> flow_age_expired (saturating_add age elapsed) (fv_timeout_secs v)"
    and "\<And>now. remap_value now v (saturating_add age elapsed) k idx = Some (val now)"
  shows "snd (restore_pair clock idx elapsed acc (Some (pair_of v age k))) =
    snd acc @ [(k, val (clock (rs_restored_pairs (fst acc)))), (reverse_for k v, val (clock (rs_restored_pairs (fst acc))))]"
  using assms remap_reverse [OF assms(2)] by (cases acc) (simp add: restore_pair_def Let_def)

lemma restored_once:
  assumes "iterates order" and flow: "client_flow k v" and own: "owns (ss_entries s) v age k"
    and pads: "\<And>e. e \<in> set (ss_entries s) \<Longrightarrow> fk_pad (se_key e) = [0, 0, 0]"
    and live: "\<not> flow_age_expired (saturating_add age elapsed) (fv_timeout_secs v)"
    and remap: "\<And>now. remap_value now v (saturating_add age elapsed) k idx = Some (val now)"
  shows "\<exists>n es1 es2. snd (restore_entries_from_snapshot order clock s idx elapsed) =
      es1 @ [(k, val (clock n)), (reverse_for k v, val (clock n))] @ es2 \<and>
    {k, reverse_for k v} \<inter> fst ` set (es1 @ es2) = {}"
proof -
  define gs where "gs = order (group_entries (ss_entries s))"
  define f where "f = (\<lambda>((left, right), entries). pair_from_entries left right entries)"
  have gs: "set gs = set (group_entries (ss_entries s))" "distinct (map fst gs)"
    using iteratesD [OF assms(1)] map_of_group_entries by (simp_all add: gs_def)
  obtain p g where pg: "(p, g) \<in> set gs" "f (p, g) = Some (pair_of v age k)"
    and unique: "\<And>q h sp. (q, h) \<in> set gs \<Longrightarrow> f (q, h) = Some sp \<Longrightarrow>
       {sp_forward_key sp, sp_reverse_key sp} \<inter> {k, reverse_for k v} \<noteq> {} \<Longrightarrow> q = p"
    using owns_pair [OF flow own] unfolding gs(1) f_def case_prod_unfold fst_conv snd_conv by (elim exE conjE) metis
  obtain xs ys where split: "gs = xs @ (p, g) # ys" using split_list [OF pg(1)] by blast
  have other: "{k, reverse_for k v} \<inter> pair_keys sp = {}" if sp: "Some sp \<in> set (map f xs) \<union> set (map f ys)" for sp
  proof -
    have "Some sp \<in> f ` (set xs \<union> set ys)" using sp by (simp add: image_Un)
    then obtain q h where qh: "(q, h) \<in> set xs \<union> set ys" "f (q, h) = Some sp" by (metis imageE surj_pair)
    have mem: "(q, h) \<in> set gs" "q \<noteq> p" using qh(1) split gs(2) by (auto simp: image_iff)
    have h: "set h \<subseteq> set (ss_entries s)" "\<forall>e\<in>set h. canon e = (fst q, snd q)" using mem(1) by (auto simp: gs(1) group_mem)
    have "pair_keys sp = {sp_forward_key sp, sp_reverse_key sp}"
      using qh(2) h pads by (intro pair_keys_zero_pad [of "fst q" "snd q" h]) (auto simp: f_def case_prod_unfold)
    then show ?thesis using unique [OF mem(1) qh(2)] mem(2) by (metis inf_commute)
  qed
  let ?step = "restore_pair clock idx elapsed"
  define acc where "acc = foldl ?step (empty_restore_summary, []) (map f xs)"
  obtain es1 where es1: "snd acc = es1" "\<forall>key\<in>fst ` set es1. \<exists>sp. Some sp \<in> set (map f xs) \<and> key \<in> pair_keys sp"
    using restore_fold [of clock idx elapsed "(empty_restore_summary, [])" "map f xs"] by (auto simp: acc_def)
  obtain es2 where es2: "snd (foldl ?step (?step acc (Some (pair_of v age k))) (map f ys)) = snd (?step acc (Some (pair_of v age k))) @ es2"
    "\<forall>key\<in>fst ` set es2. \<exists>sp. Some sp \<in> set (map f ys) \<and> key \<in> pair_keys sp"
    using restore_fold [of clock idx elapsed "?step acc (Some (pair_of v age k))" "map f ys"] by (elim exE conjE)
  have "restore_entries_from_snapshot order clock s idx elapsed = foldl ?step (?step acc (Some (pair_of v age k))) (map f ys)"
    using pg(2) by (simp add: restore_entries_from_snapshot_def collect_restore_pairs_def split acc_def flip: gs_def f_def)
  then have "snd (restore_entries_from_snapshot order clock s idx elapsed) =
      es1 @ [(k, val (clock (rs_restored_pairs (fst acc)))), (reverse_for k v, val (clock (rs_restored_pairs (fst acc))))] @ es2"
    using es1(1) es2(1) restore_pair_Some [OF live remap, of clock acc] by simp
  moreover have "{k, reverse_for k v} \<inter> fst ` set (es1 @ es2) = {}"
    using es1(2) es2(2) other by (auto simp: image_Un)
  ultimately show ?thesis by (intro exI conjI)
qed

section \<open>The table after a restart\<close>

lemma concat_chunks: "n \<noteq> 0 \<Longrightarrow> concat (chunks n xs) = xs"
  by (induction n xs rule: chunks.induct) (subst chunks.simps, auto)

abbreviation upserted :: "flow_map \<Rightarrow> (NativeFlowKey \<times> NativeFlowValue) list \<Rightarrow> flow_map" where
  "upserted m es \<equiv> foldl (\<lambda>m (k, v). m(k \<mapsto> fresher (m k) v)) m es"

lemma upsert_chunks_ok:
  assumes "fe_flows env = PinOpen ops" "map_ops_ok ops" "upsert_chunks env css d = (Inr u, d')"
  shows "dp_flows d' = upserted (dp_flows d) (concat css)"
  using assms(3)
proof (induction css arbitrary: d)
  case (Cons es css)
  obtain n m where m: "upsert_entries ops 0 es (dp_flows d) = (Inr n, m)" "upsert_chunks env css (d\<lparr>dp_flows := m\<rparr>) = (Inr u, d')"
    using Cons.prems assms(1) by (auto simp: upsert_flows_def split: prod.splits sum.splits)
  have "m = upserted (dp_flows d) es" using upsert_entries_ok [OF assms(2) m(1)] by (rule conjunct1)
  moreover have "dp_flows (d\<lparr>dp_flows := m\<rparr>) = m" by simp
  ultimately show ?case using Cons.IH [OF m(2)] by (simp only: concat.simps foldl_append)
qed simp

lemma upserted_other: "k \<notin> fst ` set es \<Longrightarrow> upserted m es k = m k"
  by (induction es arbitrary: m) auto

lemma fresher_None [simp]: "fresher None v = v"
  by (simp add: fresher_def flow_apply_applies_def)

lemma upserted_pair:
  assumes "m k = None" "m r = None" "k \<noteq> r" "{k, r} \<inter> fst ` set (es1 @ es2) = {}"
  shows "upserted m (es1 @ [(k, v), (r, v)] @ es2) k = Some v" "upserted m (es1 @ [(k, v), (r, v)] @ es2) r = Some v"
  using assms upserted_other [of k] upserted_other [of r] by (auto simp: image_Un)

lemma replace_active_keeps_flows: "dp_flows (snd (replace_active_flows env loads d)) = dp_flows d"
  by (simp add: replace_active_flows_def split: pin.split prod.split option.split)

lemma sweep_keeps_live:
  assumes "fe_flows env = PinOpen ops" "map_ops_ok ops" "sweep_flows_and_refresh_loads env now d = (Inr n, d')"
  shows "dp_flows d' = swept now (dp_flows d)"
proof -
  let ?init = "\<lparr>sw_expired = [], sw_loads = [], sw_seen_pairs = {}\<rparr>"
  obtain es where es: "iter_entries ops (dp_flows d) = Some es"
    using assms by (auto simp: sweep_flows_and_refresh_loads_def sweep_flows_inner_def split: option.splits)
  define d1 where "d1 = d\<lparr>dp_flows := foldl (mo_remove ops) (dp_flows d) (sw_expired (foldl (sweep_entry now True) ?init es))\<rparr>"
  have "\<exists>loads. snd (replace_active_flows env loads d1) = d'"
    using assms(1,3) es
    by (auto simp: sweep_flows_and_refresh_loads_def sweep_flows_inner_def Let_def d1_def split: option.splits prod.splits)
      (metis snd_conv)
  then have "dp_flows d' = dp_flows d1" using replace_active_keeps_flows by metis
  moreover have "mo_remove ops = (\<lambda>m k. m(k := None))" using map_ops_okD(3) [OF assms(2)] by (simp add: fun_eq_iff)
  ultimately have "dp_flows d' = dp_flows d |` (- set (map fst (filter (expired_at now \<circ> snd) es)))"
    by (simp add: d1_def foldl_remove_all sweep_fold(1))
  moreover have "set es = {(k, v). dp_flows d k = Some v}" by (rule iter_entries_ok [OF assms(2) es])
  ultimately show ?thesis
    by (intro ext) (force simp: restrict_map_def swept_def expired_at_def image_iff split: option.splits)
qed

lemma index_by_id:
  "distinct (map fst as) \<Longrightarrow> (i, l) \<in> set as \<Longrightarrow>
   li_by_id (foldl index_listener idx as) i = Some \<lparr>lr_listener_id = i, lr_listener = l\<rparr>"
proof (induction as rule: rev_induct)
  case (snoc a as)
  then show ?case by (cases a) (auto simp: index_listener_def Let_def image_iff)
qed simp

text \<open>The listener and the target of a flow are still configured, under the same identifiers.\<close>

definition still_configured :: "NativeListener list \<Rightarrow> NativeFlowKey \<Rightarrow> NativeFlowValue \<Rightarrow> bool" where
  "still_configured listeners k v \<longleftrightarrow> (\<exists>assigned l. stable_listener_assignments listeners = Inr assigned \<and>
     (fv_listener_id v, l) \<in> set assigned \<and> listener_matches l k v \<and>
     target_position (nl_targets l) v = Some (unat (fv_target_id v)))"

lemma remap_configured:
  assumes "still_configured listeners k v" "ListenerRestoreIndex_new listeners = Inr idx"
  shows "remap_value now (v\<lparr>fv_last_seen_ns := 0\<rparr>) age k idx = Some (v\<lparr>fv_last_seen_ns := saturating_sub now age\<rparr>)"
proof -
  let ?v = "v\<lparr>fv_last_seen_ns := 0\<rparr>"
  obtain as l where l: "stable_listener_assignments listeners = Inr as" "(fv_listener_id v, l) \<in> set as" "listener_matches l k v"
    "target_position (nl_targets l) v = Some (unat (fv_target_id v))"
    using assms(1) by (auto simp: still_configured_def)
  have "length listeners \<le> 4096" using l(1) by (simp add: stable_listener_assignments_def split: if_splits)
  then have "distinct (map fst as)" by (rule stable_assignments_spec) (use l(1) in simp)
  then have "li_by_id idx (fv_listener_id v) = Some \<lparr>lr_listener_id = fv_listener_id v, lr_listener = l\<rparr>"
    using assms(2) l(1,2) by (auto simp: ListenerRestoreIndex_new_def index_by_id)
  moreover have "listener_matches l k ?v" using l(3) by (simp add: listener_matches_def)
  moreover have "target_position ts ?v = target_position ts v" for ts by (induction ts) simp_all
  ultimately show ?thesis
    using l(4) target_position_Some [OF l(4)] by (cases v) (simp add: remap_value_def ListenerRestoreIndex_get_def Let_def)
qed

text \<open>What a successful call did.\<close>

lemma write_snapshot_file:
  assumes "write_snapshot c p = (Inr (Some summary), p')" "dump_flows (pc_flow_env c) (ps_dp p) = Inr flows"
    and "collect_snapshot_pairs (pc_order c) flows (pc_mono_now c 0) (settings c) \<noteq> []"
  shows "\<exists>listeners digest file. config_digest (pc_sha256 c) listeners = Inr digest \<and> ps_file p' = Some file \<and>
    su_records summary = length (collect_snapshot_pairs (pc_order c) flows (pc_mono_now c 0) (settings c)) \<and>
    encode_snapshot (pc_sha256 c) \<lparr>ss_saved_at_unix_ns = pc_unix_now c, ss_node_name = pc_node_name c, ss_config_digest = digest,
      ss_entries = snapshot_entries_from_pairs (collect_snapshot_pairs (pc_order c) flows (pc_mono_now c 0) (settings c))\<rparr> = Inr file"
  using assms
  by (cases "collect_snapshot_pairs (pc_order c) flows (pc_mono_now c 0) (settings c)")
    (auto simp: write_snapshot_def Let_def set_snapshot_status_def split: if_splits option.splits sum.splits, blast)

lemma restore_on_start_table:
  assumes "restore_on_start c p = (Inr (Some summary), p')" "ps_file p = Some file"
    and env: "fe_flows (pc_flow_env c) = PinOpen ops" "map_ops_ok ops"
  shows "\<exists>s listeners idx. decode_snapshot (pc_sha256 c) file = Inr s \<and> pc_listeners c = Some listeners \<and>
    ListenerRestoreIndex_new listeners = Inr idx \<and>
    dp_flows (ps_dp p') = swept (pc_sweep_now c) (upserted (dp_flows (ps_dp p)) (snd (restore_entries_from_snapshot (pc_order c)
      (pc_mono_now c) s idx (unix_elapsed_ns (ss_saved_at_unix_ns s) (pc_unix_now c)))))"
proof -
  obtain d where rest: "restore_from_path c file (ps_dp p) = (Inr summary, d)" and d: "ps_dp p' = d"
    using assms(1,2) by (auto simp: restore_on_start_def Let_def split: if_splits option.splits prod.splits sum.splits)
  obtain s listeners idx rs entries d1 n where steps: "decode_snapshot (pc_sha256 c) file = Inr s" "pc_listeners c = Some listeners"
    "ListenerRestoreIndex_new listeners = Inr idx"
    "restore_entries_from_snapshot (pc_order c) (pc_mono_now c) s idx (unix_elapsed_ns (ss_saved_at_unix_ns s) (pc_unix_now c)) = (rs, entries)"
    "upsert_chunks (pc_flow_env c) (chunks RESTORE_BATCH_SIZE entries) (ps_dp p) = (Inr (), d1)"
    "sweep_flows_and_refresh_loads (pc_flow_env c) (pc_sweep_now c) d1 = (Inr n, d)"
    using rest by (auto simp: restore_from_path_def read_snapshot_def Let_def map_err_def
        split: if_splits option.splits prod.splits sum.splits)
  have "concat (chunks RESTORE_BATCH_SIZE entries) = entries" by (rule concat_chunks) (simp add: RESTORE_BATCH_SIZE_def)
  then have "dp_flows d1 = upserted (dp_flows (ps_dp p)) entries" using upsert_chunks_ok [OF env steps(5)] by (simp only:)
  then have "dp_flows d = swept (pc_sweep_now c) (upserted (dp_flows (ps_dp p)) entries)"
    using sweep_keeps_live [OF env steps(6)] by (simp only:)
  then show ?thesis using steps(1-4) d by (intro exI [of _ s] exI [of _ listeners] exI [of _ idx]) (simp only: snd_conv simp_thms)
qed

definition call_ok :: "persist_call \<Rightarrow> bool" where
  "call_ok c \<longleftrightarrow> (\<forall>bytes. length (pc_sha256 c bytes) = 32) \<and> iterates (pc_order c) \<and> valid_utf8 (as_bytes (pc_node_name c)) \<and>
     (\<exists>ops. fe_flows (pc_flow_env c) = PinOpen ops \<and> map_ops_ok ops)"

text \<open>A connection in the flow table: both of its entries are there.\<close>

definition tracked :: "flow_map \<Rightarrow> NativeFlowKey \<Rightarrow> NativeFlowValue \<Rightarrow> bool" where
  "tracked m k v \<longleftrightarrow> flows_paired m \<and> client_flow k v \<and> m k = Some v \<and> m (reverse_for k v) = Some v"

definition worth_saving :: "persist_call \<Rightarrow> NativeFlowValue \<Rightarrow> bool" where
  "worth_saving c v \<longleftrightarrow> (\<forall>ttl. remaining_ttl_ns (flow_age (fv_last_seen_ns v) (pc_mono_now c 0)) (fv_timeout_secs v) = Some ttl \<longrightarrow>
     saturating_mul (gfp_min_remaining_ttl_secs (settings c)) 1000000000 \<le> ttl)"

lemma saved_snapshot:
  assumes ok: "call_ok c" and "tracked (dp_flows (ps_dp p)) k v" "worth_saving c v"
    and w: "write_snapshot c p = (Inr (Some summary), p')" "su_records summary < gfp_max_records (settings c)"
  shows "\<exists>file s. ps_file p' = Some file \<and> decode_snapshot (pc_sha256 c) file = Inr s \<and> ss_saved_at_unix_ns s = pc_unix_now c \<and>
    owns (ss_entries s) (v\<lparr>fv_last_seen_ns := 0\<rparr>) (flow_age (fv_last_seen_ns v) (pc_mono_now c 0)) k \<and>
    (\<forall>e\<in>set (ss_entries s). fk_pad (se_key e) = [0, 0, 0])"
proof -
  let ?age = "flow_age (fv_last_seen_ns v) (pc_mono_now c 0)" and ?m = "dp_flows (ps_dp p)"
  obtain ops where env: "fe_flows (pc_flow_env c) = PinOpen ops" "map_ops_ok ops" using ok by (auto simp: call_ok_def)
  obtain flows where flows: "dump_flows (pc_flow_env c) (ps_dp p) = Inr flows"
    using w(1) by (cases "dump_flows (pc_flow_env c) (ps_dp p)") (auto simp: write_snapshot_def Let_def split: if_splits option.splits)
  then have "iter_entries ops ?m = Some flows" using env by (simp add: dump_flows_def split: option.splits)
  then have graph: "set flows = {(k, v). ?m k = Some v}" by (rule iter_entries_ok [OF env(2)])
  define pairs where "pairs = collect_snapshot_pairs (pc_order c) flows (pc_mono_now c 0) (settings c)"
  have few: "length pairs < gfp_max_records (settings c)"
    using write_snapshot_file [OF w(1) flows] w(2) by (cases "pairs = []") (auto simp: pairs_def)
  have flow: "client_flow k v" and iter: "iterates (pc_order c)" using assms(2) ok by (simp_all add: tracked_def call_ok_def)
  have "owns (List.map_filter (snapshot_candidate (saturating_mul (gfp_min_remaining_ttl_secs (settings c)) 1000000000)
      (pc_mono_now c 0)) flows) v ?age k"
    by (rule candidates_own [where m = ?m])
      (use assms(2,3) graph in \<open>auto simp: tracked_def worth_saving_def snapshot_candidate_def Let_def not_less split: option.splits\<close>)
  then have own: "owns (snapshot_entries_from_pairs pairs) v ?age k" using saved_own [OF iter _ flow] few by (simp add: pairs_def)
  have pads: "fk_pad (se_key e) = [0, 0, 0]" if "e \<in> set (snapshot_entries_from_pairs pairs)" for e
  proof -
    have "se_key e \<in> fst ` set flows" using saved_keys [OF iter] few that by (simp add: pairs_def)
    then obtain u where "?m (se_key e) = Some u" unfolding graph by auto
    then show ?thesis using assms(2) flows_pairedD by (fastforce simp: tracked_def forward_key_def reverse_key_def)
  qed
  have "pairs \<noteq> []" using own by (auto simp: owns_def snapshot_entries_from_pairs_def)
  then obtain listeners digest b where enc: "config_digest (pc_sha256 c) listeners = Inr digest" "ps_file p' = Some b"
    "encode_snapshot (pc_sha256 c) \<lparr>ss_saved_at_unix_ns = pc_unix_now c, ss_node_name = pc_node_name c, ss_config_digest = digest,
      ss_entries = snapshot_entries_from_pairs pairs\<rparr> = Inr b"
    using write_snapshot_file [OF w(1) flows] unfolding pairs_def by blast
  have "length digest = 32" using enc(1) ok by (auto simp: config_digest_def and_then_Inr call_ok_def)
  then have "decode_snapshot (pc_sha256 c) b = Inr \<lparr>ss_saved_at_unix_ns = pc_unix_now c, ss_node_name = pc_node_name c,
      ss_config_digest = digest, ss_entries = map stored_entry (snapshot_entries_from_pairs pairs)\<rparr>"
    using decode_encoded [OF _ _ enc(3)] ok by (simp add: snapshot_typed_def call_ok_def stored_snapshot_def)
  moreover have "fk_pad (se_key (stored_entry e)) = [0, 0, 0]" for e by (simp add: stored_entry_def)
  ultimately show ?thesis using enc(2) stored_own [OF own pads] by simp
qed


definition saved_key :: NativeFlowKey where
  "saved_key = \<lparr>fk_src = 0x0A010203, fk_dst = 0xC0A80001, fk_sport = 4000, fk_dport = to_be16 80, fk_proto = 6, fk_pad = [0, 0, 0]\<rparr>"

definition saved_flow :: NativeFlowValue where
  "saved_flow = \<lparr>fv_listener_id = stable_listener_id (sample_native 80 0), fv_target_id = 0, fv_vip = 0xC0A80001,
     fv_target = 0x0A000001, fv_vip_port = to_be16 80, fv_target_port = 8080, fv_timeout_secs = 240, fv_last_seen_ns = 1000\<rparr>"

definition saved_reply_key :: NativeFlowKey where
  "saved_reply_key = reverse_for saved_key saved_flow"

definition sample_persist_call :: "u64 \<Rightarrow> u64 \<Rightarrow> persist_call" where
  "sample_persist_call mono_ns unix_ns = \<lparr>pc_flow_persistence = Some (default_flow_persistence_config\<lparr>gfp_enabled := True\<rparr>),
     pc_node_name = ''gw'', pc_underlay_ip = V4 0, pc_active_gateway = None, pc_listeners = Some [sample_native 80 0],
     pc_flow_env = \<lparr>fe_flows = PinOpen (plain_ops [saved_key, saved_reply_key]), fe_active = PinMissing\<rparr>,
     pc_sha256 = sample_sha, pc_order = (\<lambda>groups. groups), pc_mono_now = (\<lambda>_. mono_ns), pc_sweep_now = mono_ns, pc_unix_now = unix_ns,
     pc_elapsed_ns = 0, pc_readable = True, pc_metadata = True, pc_writable = True\<rparr>"

definition idle_persistence :: persistence where
  "idle_persistence = \<lparr>ps_file = None,
     ps_status = \<lparr>fps_enabled = False, fps_snapshot_records = 0, fps_snapshot_bytes = 0, fps_snapshot_duration_ms = 0,
       fps_snapshot_errors_total = 0, fps_restore_records_total = 0, fps_restore_skipped_expired_total = 0,
       fps_restore_skipped_config_total = 0, fps_restore_skipped_incomplete_total = 0, fps_restore_duration_ms = 0,
       fps_restore_errors_total = 0\<rparr>,
     ps_dp = fresh_dp\<rparr>"

lemma saved_key_sel [simp]:
  "fk_src saved_key = 0x0A010203" "fk_dst saved_key = 0xC0A80001" "fk_dport saved_key = to_be16 80" "fk_proto saved_key = 6"
  "fk_pad saved_key = [0, 0, 0]"
  by (simp_all add: saved_key_def)

lemma saved_flow_sel [simp]:
  "fv_target saved_flow = 0x0A000001" "fv_vip saved_flow = 0xC0A80001" "fv_vip_port saved_flow = to_be16 80"
  "fv_target_port saved_flow = 8080" "fv_timeout_secs saved_flow = 240" "fv_last_seen_ns saved_flow = 1000"
  "fv_target_id saved_flow = 0" "fv_listener_id saved_flow = stable_listener_id (sample_native 80 0)"
  by (simp_all add: saved_flow_def)

lemma saved_client: "client_flow saved_key saved_flow" "saved_key \<noteq> saved_reply_key"
proof -
  show flow: "client_flow saved_key saved_flow" by (simp add: client_flow_def forward_key_def at_target_def)
  show "saved_key \<noteq> saved_reply_key" unfolding saved_reply_key_def by (rule client_flow_keys(4) [OF flow])
qed

lemma flow_groups:
  assumes "client_flow k v"
  shows "group_entries [entry_of v age k, entry_of v age (reverse_for k v)] =
    [(canonical_flow_pair k v, [entry_of v age k, entry_of v age (reverse_for k v)])]"
    "pair_from_entries (fst (canonical_flow_pair k v)) (snd (canonical_flow_pair k v)) [entry_of v age k, entry_of v age (reverse_for k v)] =
      Some (pair_of v age k)"
proof -
  show "group_entries [entry_of v age k, entry_of v age (reverse_for k v)] =
    [(canonical_flow_pair k v, [entry_of v age k, entry_of v age (reverse_for k v)])]"
    by (simp add: group_entries_def client_flow_keys(3) [OF assms])
  show "pair_from_entries (fst (canonical_flow_pair k v)) (snd (canonical_flow_pair k v)) [entry_of v age k, entry_of v age (reverse_for k v)] =
      Some (pair_of v age k)"
    by (rule pair_from_flow [OF assms]) simp_all
qed

definition saved_persistence :: persistence where
  "saved_persistence = idle_persistence\<lparr>ps_dp := fresh_dp\<lparr>dp_flows := [saved_key \<mapsto> saved_flow, saved_reply_key \<mapsto> saved_flow]\<rparr>\<rparr>"

lemma saved_pairs:
  "dump_flows (pc_flow_env (sample_persist_call 2000 5)) (ps_dp saved_persistence) = Inr [(saved_key, saved_flow), (saved_reply_key, saved_flow)]"
  "collect_snapshot_pairs (\<lambda>groups. groups) [(saved_key, saved_flow), (saved_reply_key, saved_flow)] 2000 (settings (sample_persist_call 2000 5)) =
     [pair_of saved_flow 1000 saved_key]"
proof -
  show "dump_flows (pc_flow_env (sample_persist_call 2000 5)) (ps_dp saved_persistence) = Inr [(saved_key, saved_flow), (saved_reply_key, saved_flow)]"
    using saved_client(2)
    by (simp add: dump_flows_def sample_persist_call_def saved_persistence_def iter_entries_def List.map_filter_def)
  have "snapshot_candidate (saturating_mul 5 1000000000) 2000 (key, saved_flow) = Some (entry_of saved_flow 1000 key)" for key
    by (simp add: snapshot_candidate_def flow_age_def remaining_ttl_ns_def saturating_sub_def saturating_mul_def)
  then show "collect_snapshot_pairs (\<lambda>groups. groups) [(saved_key, saved_flow), (saved_reply_key, saved_flow)] 2000 (settings (sample_persist_call 2000 5)) =
     [pair_of saved_flow 1000 saved_key]"
    using flow_groups [OF saved_client(1), of 1000]
    by (simp add: collect_snapshot_pairs_def settings_def sample_persist_call_def default_flow_persistence_config_def Let_def
        List.map_filter_def saved_reply_key_def case_prod_unfold)
qed

lemma saved_written:
  "\<exists>summary p1. write_snapshot (sample_persist_call 2000 5) saved_persistence = (Inr (Some summary), p1) \<and> su_records summary = 1"
proof -
  let ?c = "sample_persist_call 2000 5" and ?ls = "[sample_native 80 0]"
  have c: "gfp_enabled (settings ?c)" "pc_listeners ?c = Some ?ls" "pc_order ?c = (\<lambda>groups. groups)" "pc_mono_now ?c 0 = 2000" "pc_writable ?c"
    "pc_node_name ?c = ''gw''"
    by (simp_all add: settings_def sample_persist_call_def)
  have "length ?ls \<le> 4096" by simp
  then obtain digest where digest: "config_digest (pc_sha256 ?c) ?ls = Inr digest"
    by (rule stable_assignments_spec) (simp add: config_digest_def)
  have "\<exists>b. encode_snapshot (pc_sha256 ?c) \<lparr>ss_saved_at_unix_ns = pc_unix_now ?c, ss_node_name = ''gw'', ss_config_digest = digest,
      ss_entries = snapshot_entries_from_pairs [pair_of saved_flow 1000 saved_key]\<rparr> = Inr b"
    by (simp add: encode_snapshot_payload snapshot_entries_from_pairs_def)
  then show ?thesis
    using digest c saved_pairs by (auto simp: write_snapshot_def Let_def saved_persistence_def idle_persistence_def)
qed

lemma plain_upsert_chunks:
  assumes "fe_flows env = PinOpen (plain_ops u)"
  shows "\<exists>d'. upsert_chunks env css d = (Inr (), d')"
proof -
  have total: "\<exists>n m'. upsert_entries (plain_ops u) acc es m = (Inr n, m')" for acc es m
    by (induction es arbitrary: acc m) (auto simp: plain_ops_sel)
  have step: "\<exists>n d'. upsert_flows env es d = (Inr n, d')" for es d
  proof -
    obtain n m' where "upsert_entries (plain_ops u) 0 es (dp_flows d) = (Inr n, m')" using total by blast
    then show ?thesis using assms by (simp add: upsert_flows_def)
  qed
  show ?thesis
  proof (induction css arbitrary: d)
    case (Cons es css)
    obtain n d1 where "upsert_flows env es d = (Inr n, d1)" using step by blast
    then show ?case using Cons.IH [of d1] by simp
  qed simp
qed

lemma dom_upserted: "dom (upserted m es) \<subseteq> dom m \<union> fst ` set es"
proof (induction es arbitrary: m)
  case (Cons e es)
  obtain k v where e: "e = (k, v)" by (cases e)
  show ?case using Cons.IH [of "m(k \<mapsto> fresher (m k) v)"] unfolding e by (auto simp del: fun_upd_apply)
qed simp

lemma plain_sweep:
  assumes "dom (dp_flows d) \<subseteq> set u"
  shows "\<exists>n d'. sweep_flows_and_refresh_loads \<lparr>fe_flows = PinOpen (plain_ops u), fe_active = PinMissing\<rparr> now d = (Inr n, d')"
  using assms by (simp add: sweep_flows_and_refresh_loads_def sweep_flows_inner_def iter_entries_def replace_active_flows_def Let_def)

abbreviation "restored_flow \<equiv> saved_flow\<lparr>fv_last_seen_ns := 0\<rparr>"

lemma restored_keys:
  assumes "ss_entries s = [entry_of restored_flow 1000 saved_key, entry_of restored_flow 1000 saved_reply_key]"
  shows "fst ` set (snd (restore_entries_from_snapshot (\<lambda>groups. groups) clock s idx elapsed)) \<subseteq> {saved_key, saved_reply_key}"
proof -
  have flow: "client_flow saved_key restored_flow" using saved_client(1) by (simp add: client_flow_def forward_key_def at_target_def)
  have "collect_restore_pairs (\<lambda>groups. groups) (ss_entries s) = [Some (pair_of restored_flow 1000 saved_key)]"
    using flow_groups [OF flow, of 1000] assms by (simp add: collect_restore_pairs_def saved_reply_key_def case_prod_unfold)
  then show ?thesis
    using restore_fold [of clock idx elapsed "(empty_restore_summary, [])" "[Some (pair_of restored_flow 1000 saved_key)]"]
    by (auto simp: restore_entries_from_snapshot_def pair_keys_def saved_reply_key_def)
qed

lemma saved_restores:
  assumes "ps_file p = Some b" "decode_snapshot sample_sha b = Inr s" "ps_dp p = fresh_dp"
    and entries: "ss_entries s = [entry_of restored_flow 1000 saved_key, entry_of restored_flow 1000 saved_reply_key]"
  shows "\<exists>summary p'. restore_on_start (sample_persist_call mono_ns unix_ns) p = (Inr (Some summary), p')"
proof -
  let ?c = "sample_persist_call mono_ns unix_ns" and ?ls = "[sample_native 80 0]" and ?u = "[saved_key, saved_reply_key]"
  let ?env = "\<lparr>fe_flows = PinOpen (plain_ops ?u), fe_active = PinMissing\<rparr>"
  have c: "gfp_enabled (settings ?c)" "gfp_restore_on_start (settings ?c)" "is_active_gateway ?c" "pc_listeners ?c = Some ?ls"
    "pc_order ?c = (\<lambda>groups. groups)" "pc_readable ?c" "pc_sha256 ?c = sample_sha" "pc_flow_env ?c = ?env"
    by (simp_all add: settings_def sample_persist_call_def default_flow_persistence_config_def is_active_gateway_def)
  have "length ?ls \<le> 4096" by simp
  then obtain digest idx where ids: "config_digest sample_sha ?ls = Inr digest" "ListenerRestoreIndex_new ?ls = Inr idx"
    by (rule stable_assignments_spec) (simp add: config_digest_def ListenerRestoreIndex_new_def)
  obtain rs es where es: "restore_entries_from_snapshot (\<lambda>groups. groups) (pc_mono_now ?c) s idx
      (unix_elapsed_ns (ss_saved_at_unix_ns s) (pc_unix_now ?c)) = (rs, es)" by (rule prod.exhaust)
  have keys: "fst ` set es \<subseteq> set ?u" using restored_keys [OF entries] es by (metis list.set(1,2) snd_conv)
  have env: "fe_flows ?env = PinOpen (plain_ops ?u)" by simp
  obtain d1 where d1: "upsert_chunks ?env (chunks RESTORE_BATCH_SIZE es) fresh_dp = (Inr (), d1)"
    using plain_upsert_chunks [OF env] by blast
  have "concat (chunks RESTORE_BATCH_SIZE es) = es" by (rule concat_chunks) (simp add: RESTORE_BATCH_SIZE_def)
  then have "dp_flows d1 = upserted (dp_flows fresh_dp) es" using upsert_chunks_ok [OF env plain_ops_ok d1] by (simp only:)
  moreover have "dom (dp_flows fresh_dp) = {}" by (simp add: fresh_dp_def)
  ultimately have "dom (dp_flows d1) \<subseteq> set ?u" using dom_upserted [of "dp_flows fresh_dp" es] keys by (metis Un_empty_left subset_trans)
  then obtain n d2 where "sweep_flows_and_refresh_loads ?env (pc_sweep_now ?c) d1 = (Inr n, d2)" using plain_sweep by blast
  then show ?thesis
    using assms(1-3) c ids es d1 by (simp add: restore_on_start_def restore_from_path_def read_snapshot_def Let_def)
qed

lemma saved_configured: "still_configured [sample_native 80 0] saved_key saved_flow"
proof -
  have "probe_id (Suc 4095) {} i = Some i" for i by (simp only: probe_id.simps) simp
  then have "probe_id 4096 {} i = Some i" for i by (simp del: probe_id.simps)
  then have "stable_listener_assignments [sample_native 80 0] = Inr [(stable_listener_id (sample_native 80 0), sample_native 80 0)]"
    by (simp add: stable_listener_assignments_def Let_def)
  moreover have "listener_matches (sample_native 80 0) saved_key saved_flow" "target_position (nl_targets (sample_native 80 0)) saved_flow = Some 0"
    by (simp_all add: listener_matches_def sample_native_def)
  ultimately show ?thesis unfolding still_configured_def
    by (intro exI [of _ "[(stable_listener_id (sample_native 80 0), sample_native 80 0)]"] exI [of _ "sample_native 80 0"]) simp
qed


end
