(* ===== verification/Gateway_Pair.thy ===== *)
theory Gateway_Pair
  imports Xsync Flow_Persistence
begin

text \<open>
  Everything that writes the flow tables of a pair of gateways, as one transition system: packets on the two
  hooks (\<^verbatim>\<open>edge-lb-ebpf\<close>), expiry sweeps and listener updates (\<^verbatim>\<open>edge-lb/src/linux/native_dnat.rs\<close>), replicated entries
  (\<^verbatim>\<open>provider/native/xsync.rs\<close>) and snapshots restored after a restart (\<^verbatim>\<open>provider/native/flow_persistence.rs\<close>).
\<close>

section \<open>Writers keep the entries paired\<close>

abbreviation paired :: "NativeFlowKey \<times> NativeFlowValue \<Rightarrow> bool" where
  "paired e \<equiv> forward_key (fst e) (snd e) \<or> reverse_key (fst e) (snd e)"

definition pin_ok :: "flow_env \<Rightarrow> bool" where
  "pin_ok fe \<longleftrightarrow> (\<forall>ops. fe_flows fe = PinOpen ops \<longrightarrow> map_ops_ok ops)"

lemma upsert_entries_keeps_paired:
  assumes "map_ops_ok ops" "flows_paired m" "\<forall>e\<in>set entries. paired e"
  shows "flows_paired (snd (upsert_entries ops n entries m))"
  using assms
proof (induction ops n entries m rule: upsert_entries.induct)
  case (2 ops accepted key val entries flows)
  have "flows_paired flows'" if "mo_insert ops flows key val = Some flows'" for flows'
    using "2.prems" unfolding map_ops_okD(1) [OF "2.prems"(1) that] by (auto simp: flows_paired_def)
  then show ?case using 2 by (auto split: option.split)
qed simp

lemma upsert_flows_keeps_paired:
  assumes "pin_ok fe" "flows_paired (dp_flows d)" "\<forall>e\<in>set entries. paired e"
  shows "flows_paired (dp_flows (snd (upsert_flows fe entries d)))"
  using assms upsert_entries_keeps_paired [of _ "dp_flows d" entries 0]
  by (auto simp: upsert_flows_def pin_ok_def split: pin.split prod.split)
     (metis snd_conv)

lemma remove_keys_le:
  assumes "map_ops_ok ops"
  shows "foldl (mo_remove ops) m ks \<subseteq>\<^sub>m m"
proof -
  have "mo_remove ops = (\<lambda>m k. m(k := None))" using map_ops_okD(3) [OF assms] by (simp add: fun_eq_iff)
  then show ?thesis by (auto simp: foldl_remove_all map_le_def)
qed

lemma delete_flows_keeps_paired:
  assumes "pin_ok fe" "flows_paired (dp_flows d)"
  shows "flows_paired (dp_flows (snd (delete_flows fe keys d)))"
  using assms flows_paired_le [OF remove_keys_le] by (auto simp: delete_flows_def pin_ok_def split: pin.split)

lemma sweep_keeps_paired:
  assumes "pin_ok fe" "flows_paired (dp_flows d)"
  shows "flows_paired (dp_flows (snd (sweep_flows_inner fe now refresh d)))"
proof (cases "fe_flows fe")
  case (PinOpen ops)
  have le: "flows_paired (foldl (mo_remove ops) (dp_flows d) ks)" for ks
    using flows_paired_le [OF remove_keys_le assms(2)] assms(1) PinOpen by (simp add: pin_ok_def)
  let ?d = "\<lambda>ks. d\<lparr>dp_flows := foldl (mo_remove ops) (dp_flows d) ks\<rparr>"
  have active: "flows_paired (dp_flows d2)" if "replace_active_flows fe loads (?d ks) = (e, d2)" for loads ks e d2
    using replace_active_keeps_flows [of fe loads "?d ks"] le [of ks] that by simp
  show ?thesis
    using assms(2) le active by (auto simp: sweep_flows_inner_def PinOpen Let_def split: option.split prod.split)
qed (simp_all add: sweep_flows_inner_def assms(2))

lemma paired_crosses:
  assumes "entry_from_proto_at (entry_to_proto sent e) now = Inr e'" "paired e"
  shows "paired e'"
proof -
  obtain k v where e: "e = (k, v)" by (cases e)
  have "fk_pad k = [0, 0, 0]" using assms(2) by (auto simp: e forward_key_def reverse_key_def)
  then have "e' = (k, rebased sent now v)" using assms(1) by (simp add: e entry_proto_round_trip)
  then show ?thesis using assms(2) by (simp add: e forward_key_def reverse_key_def rebased_def)
qed

lemma request_keeps_paired:
  assumes fe: "pin_ok fe" and d: "flows_paired (dp_flows d)" and batch: "\<forall>e\<in>set (fb_entries batch). paired e"
  shows "flows_paired (dp_flows (snd (apply_proto_request fe clock (batch_request name token sent batch) d)))"
proof -
  let ?read = "collect (map (\<lambda>(i, e). entry_from_proto_at e (clock i)) (enumerate 0 (map (entry_to_proto sent) (fb_entries batch))))"
  have entries: "\<forall>e\<in>set entries. paired e" if "?read = Inr entries" for entries
  proof
    fix e' assume "e' \<in> set entries"
    then have "Inr e' \<in> set (map (\<lambda>(i, e). entry_from_proto_at e (clock i)) (enumerate 0 (map (entry_to_proto sent) (fb_entries batch))))"
      unfolding that [unfolded collect_Inr] by simp
    then obtain i where i: "i < length (fb_entries batch)"
      "entry_from_proto_at (entry_to_proto sent (fb_entries batch ! i)) (clock i) = Inr e'"
      by (auto simp: in_set_enumerate_eq)
    show "paired e'" by (rule paired_crosses [OF i(2)]) (use batch nth_mem [OF i(1)] in blast)
  qed
  have up: "flows_paired (dp_flows d1)" if "?read = Inr entries" "upsert_flows fe entries d = (r, d1)" for entries r d1
    using upsert_flows_keeps_paired [OF fe d entries [OF that(1)]] that(2) by simp
  show ?thesis
  proof (cases "?read")
    case (Inl e)
    then show ?thesis using d by (simp add: apply_proto_request_def batch_request_def)
  next
    case (Inr entries)
    obtain r d1 where u: "upsert_flows fe entries d = (r, d1)" by (cases "upsert_flows fe entries d")
    note d1 = up [OF Inr u]
    have "flows_paired (dp_flows d2)" if "delete_flows fe deletes d1 = (r', d2)" for deletes r' d2
      using delete_flows_keeps_paired [OF fe d1, of deletes] that by simp
    then show ?thesis
      using d d1 u Inr by (auto simp: apply_proto_request_def batch_request_def and_then_Inr split: sum.split prod.split)
  qed
qed

section \<open>Restored entries\<close>

text \<open>Whatever the file holds, a pair is restored only if it goes to a configured listener.\<close>

lemma remapped_paired:
  assumes "remap_value now v age k idx = Some v'" "fk_pad k = [0, 0, 0]"
  shows "paired (k, v')" "paired (reverse_for k v', v')"
proof -
  have "fk_dst k = fv_vip v \<and> fk_dport k = fv_vip_port v"
    using assms(1) by (auto simp: remap_value_def ListenerRestoreIndex_get_def listener_matches_def Let_def split: option.splits if_splits)
  moreover have "fv_vip v' = fv_vip v \<and> fv_vip_port v' = fv_vip_port v"
    using assms(1) by (auto simp: remap_value_def Let_def split: option.splits)
  ultimately show "paired (k, v')" using assms(2) by (simp add: forward_key_def)
  show "paired (reverse_for k v', v')" by (simp add: reverse_key_def)
qed

lemma restore_pair_paired:
  assumes "\<forall>e\<in>set (snd acc). paired e" "\<And>sp. p = Some sp \<Longrightarrow> fk_pad (sp_forward_key sp) = [0, 0, 0]"
  shows "\<forall>e\<in>set (snd (restore_pair clock idx elapsed acc p)). paired e"
  using assms remapped_paired by (cases acc; cases p) (auto simp: restore_pair_def Let_def split: option.split)

lemma restore_fold_paired:
  assumes "\<forall>e\<in>set (snd acc). paired e" "\<And>sp. Some sp \<in> set ps \<Longrightarrow> fk_pad (sp_forward_key sp) = [0, 0, 0]"
  shows "\<forall>e\<in>set (snd (foldl (restore_pair clock idx elapsed) acc ps)). paired e"
  using assms
proof (induction ps arbitrary: acc)
  case (Cons p ps)
  have "\<forall>e\<in>set (snd (restore_pair clock idx elapsed acc p)). paired e"
    by (rule restore_pair_paired) (use Cons.prems in auto)
  then show ?case using Cons.IH [of "restore_pair clock idx elapsed acc p"] Cons.prems(2) by simp
qed simp

lemma restore_pads:
  assumes "iterates order" "Some sp \<in> set (collect_restore_pairs order entries)" "\<forall>e\<in>set entries. fk_pad (se_key e) = [0, 0, 0]"
  shows "fk_pad (sp_forward_key sp) = [0, 0, 0]"
proof -
  obtain l r g where g: "((l, r), g) \<in> set (group_entries entries)" "pair_from_entries l r g = Some sp"
    using assms(2) iteratesD(1) [OF assms(1)] by (auto simp: collect_restore_pairs_def)
  have sub: "set g \<subseteq> set entries" using g(1) by (auto simp: group_mem)
  obtain e where e: "min_by_age g = Some e" "sp_forward_key sp = fst (forward_reverse_keys (se_key e) (se_value e))"
    using g(2) by (auto simp: pair_from_entries_def split: if_splits option.splits prod.splits)
  have "e \<in> set g" using e(1) by (induction g arbitrary: e) (auto split: option.splits if_splits)
  then show ?thesis using e(2) sub assms(3) by (auto simp: forward_reverse_keys_def)
qed

lemma decoded_pads:
  assumes "read_snapshot c file_bytes = Inr s"
  shows "\<forall>e\<in>set (ss_entries s). fk_pad (se_key e) = [0, 0, 0]"
proof -
  obtain n cu cu' where "decode_entries n cu = Inr (ss_entries s, cu')"
    using assms by (auto simp: read_snapshot_def decode_snapshot_def decode_payload_def map_err_def Let_def and_then_Inr
        split: if_splits sum.splits)
  then have "map stored_entry (ss_entries s) = ss_entries s" using decode_entries_consumes by blast
  then have "\<forall>e\<in>set (ss_entries s). stored_entry e = e" by (metis list.map_ident map_eq_conv)
  moreover have "fk_pad (se_key (stored_entry e)) = [0, 0, 0]" for e by (simp add: stored_entry_def)
  ultimately show ?thesis by metis
qed

lemma restored_paired:
  assumes "iterates (pc_order c)" "read_snapshot c file_bytes = Inr s"
  shows "\<forall>e\<in>set (snd (restore_entries_from_snapshot (pc_order c) clock s idx elapsed)). paired e"
  unfolding restore_entries_from_snapshot_def
  by (rule restore_fold_paired) (use restore_pads [OF assms(1) _ decoded_pads [OF assms(2)]] in simp_all)

lemma upsert_chunks_keeps_paired:
  assumes "pin_ok fe" "flows_paired (dp_flows d)" "\<forall>es\<in>set css. \<forall>e\<in>set es. paired e"
  shows "flows_paired (dp_flows (snd (upsert_chunks fe css d)))"
  using assms(2,3)
proof (induction css arbitrary: d)
  case (Cons es css)
  obtain r d1 where u: "upsert_flows fe es d = (r, d1)" by (cases "upsert_flows fe es d")
  have "flows_paired (dp_flows d1)" using upsert_flows_keeps_paired [OF assms(1) Cons.prems(1), of es] Cons.prems(2) u by simp
  then show ?case using Cons.IH [of d1] Cons.prems(2) u by (auto split: sum.split)
qed simp

lemma chunks_mem: "es \<in> set (chunks n xs) \<Longrightarrow> set es \<subseteq> set xs"
proof (induction n xs rule: chunks.induct)
  case (1 n xs)
  then show ?case using set_take_subset [of n xs] set_drop_subset [of n xs]
    by (subst (asm) (2) chunks.simps) (auto split: if_splits)
qed

lemma restore_from_path_keeps_paired:
  assumes fe: "pin_ok (pc_flow_env c)" and it: "iterates (pc_order c)" and d: "flows_paired (dp_flows d)"
    and run: "restore_from_path c file_bytes d = (r, d')"
  shows "flows_paired (dp_flows d')"
proof (cases "d' = d")
  case False
  obtain s idx elapsed summary entries where s: "read_snapshot c file_bytes = Inr s"
      "restore_entries_from_snapshot (pc_order c) (pc_mono_now c) s idx elapsed = (summary, entries)"
      "(\<exists>e. upsert_chunks (pc_flow_env c) (chunks RESTORE_BATCH_SIZE entries) d = (Inl e, d')) \<or>
       (\<exists>u d1. upsert_chunks (pc_flow_env c) (chunks RESTORE_BATCH_SIZE entries) d = (Inr u, d1) \<and>
          d' = snd (sweep_flows_inner (pc_flow_env c) (pc_sweep_now c) True d1))"
    using run False unfolding restore_from_path_def sweep_flows_and_refresh_loads_def
    by (auto simp: Let_def split: sum.splits option.splits prod.splits)
  have "\<forall>e\<in>set entries. paired e" using restored_paired [OF it s(1)] s(2) by (metis snd_conv)
  then have up: "flows_paired (dp_flows (snd (upsert_chunks (pc_flow_env c) (chunks RESTORE_BATCH_SIZE entries) d)))"
    by (intro upsert_chunks_keeps_paired [OF fe d]) (use chunks_mem in blast)
  from s(3) show ?thesis
  proof
    assume "\<exists>u d1. upsert_chunks (pc_flow_env c) (chunks RESTORE_BATCH_SIZE entries) d = (Inr u, d1) \<and>
          d' = snd (sweep_flows_inner (pc_flow_env c) (pc_sweep_now c) True d1)"
    then show ?thesis using up sweep_keeps_paired [OF fe] by auto
  qed (use up in auto)
qed (use d in simp)

section \<open>Flow events\<close>

definition events_paired :: "NativeFlowEvent list \<Rightarrow> bool" where
  "events_paired events \<longleftrightarrow> (\<forall>ev\<in>set events. ev_op ev \<noteq> 2 \<longrightarrow> paired (ev_key ev, ev_value ev))"

lemma emit_paired:
  "events_paired (dp_flow_events d) \<Longrightarrow> op = 2 \<or> paired (k, v) \<Longrightarrow> events_paired (dp_flow_events (emit_flow_event env k v op d))"
  by (auto simp: emit_flow_event_def Let_def events_paired_def native_bump_def)

lemma keeps_events [simp]: "dp_flow_events (adjust_active_flows env l t n d) = dp_flow_events d"
  "dp_flow_events (insert_flow_pair env k k' v d) = dp_flow_events d" "dp_flow_events (native_bump f d) = dp_flow_events d"
  by (simp_all add: adjust_active_flows_def insert_flow_pair_def native_bump_def Let_def)

lemma expire_events:
  "events_paired (dp_flow_events d) \<Longrightarrow> events_paired (dp_flow_events (expire_flow_pair env k k' v d))"
  by (simp add: expire_flow_pair_def Let_def emit_paired)

lemma ingress_translate_events:
  assumes "ingress_translate env now s d p rw tk = (r, s', d')"
  shows "dp_flow_events d' = dp_flow_events d"
proof -
  have "dp_flow_events e' = dp_flow_events e" if "redirect_forward env s1 tk now e = (a, s2, e')" for s1 e a s2 e'
    using stage_frame_fields(4) [OF fwd.frames [OF that]] .
  then show ?thesis
    using assms by (auto simp: ingress_translate_def destination_def apply_rewrite_def Let_def split: prod.splits bool.splits if_splits)
qed

lemma ingress_new_events:
  assumes ev: "events_paired (dp_flow_events d)" and run: "ingress_new env now s d p (packet_key p) = (r, s', d')"
  shows "events_paired (dp_flow_events d')"
proof -
  have sel: "dp_flow_events d1 = dp_flow_events d" if "select_target k l h d = (t, d1)" for k l h t d1
    using selection_frame_fields [of d d1] select_target_outcome [OF that] by blast
  show ?thesis
    using run ev
    by (auto simp: ingress_new_def Let_def forward_key_def reverse_key_def flow_key_def make_flow_key_def
        split: option.splits prod.splits if_splits dest!: ingress_translate_events sel intro!: emit_paired)
qed

lemma ingress_events:
  assumes ev: "events_paired (dp_flow_events d)" and run: "try_native_dnat_ingress env now s d = (r, s', d')"
  shows "events_paired (dp_flow_events d')"
proof (cases "parse_l4 env s")
  case (Inl e)
  then show ?thesis using ev run by (simp add: try_native_dnat_ingress_def)
next
  case (Inr p)
  have "events_paired (dp_flow_events d')" if "ingress_existing env now s d p k v = (r, s', d')" for k v
    using ingress_translate_events [OF that [unfolded ingress_existing_def Let_def]] ev by simp
  then show ?thesis
    using run Inr ingress_new_events [OF ev] ingress_new_events [OF expire_events [OF ev]]
    by (auto simp: try_native_dnat_ingress_def Let_def split: option.splits if_splits)
qed

lemma return_events:
  assumes ev: "events_paired (dp_flow_events d)" and run: "try_native_dnat_return env now s d = (r, s', d')"
  shows "events_paired (dp_flow_events d')"
proof -
  have "dp_flow_events e' = dp_flow_events e" if "return_forward env s1 now e = (a, s2, e')" for s1 e a s2 e'
    using stage_frame_fields(4) [OF ret.frames [OF that]] .
  then show ?thesis
    using run ev expire_events [OF ev]
    by (auto simp: try_native_dnat_return_def source_def apply_rewrite_def Let_def split: option.splits prod.splits sum.splits bool.splits if_splits)
qed

lemma upsert_flows_events [simp]: "dp_flow_events (snd (upsert_flows fe es d)) = dp_flow_events d"
  by (simp add: upsert_flows_def split: pin.split prod.split)

lemma delete_flows_events [simp]: "dp_flow_events (snd (delete_flows fe ks d)) = dp_flow_events d"
  by (simp add: delete_flows_def split: pin.split)

lemma sweep_events [simp]: "dp_flow_events (snd (sweep_flows_inner fe now refresh d)) = dp_flow_events d"
proof -
  have "dp_flow_events (snd (replace_active_flows fe loads d)) = dp_flow_events d" for loads d
    by (auto simp: replace_active_flows_def split: pin.split prod.split option.split)
  then have "dp_flow_events d2 = dp_flow_events d1" if "replace_active_flows fe loads d1 = (e, d2)" for loads d1 e d2
    using that by (metis snd_conv)
  then show ?thesis
    by (auto simp: sweep_flows_inner_def Let_def split: pin.split option.split prod.split)
qed

lemma request_events [simp]: "dp_flow_events (snd (apply_proto_request fe clock req d)) = dp_flow_events d"
proof -
  have "dp_flow_events d1 = dp_flow_events d" if "upsert_flows fe es d = (r, d1)" for es r d1
    using upsert_flows_events [of fe es d] that by simp
  moreover have "dp_flow_events d2 = dp_flow_events d1" if "delete_flows fe ks d1 = (r, d2)" for ks r d1 d2
    using delete_flows_events [of fe ks d1] that by simp
  ultimately show ?thesis by (auto simp: apply_proto_request_def split: sum.split prod.split)
qed

lemma upsert_chunks_events: "upsert_chunks fe css d = (r, d') \<Longrightarrow> dp_flow_events d' = dp_flow_events d"
proof (induction css arbitrary: d)
  case (Cons es css)
  obtain q d1 where u: "upsert_flows fe es d = (q, d1)" by (cases "upsert_flows fe es d")
  have "dp_flow_events d1 = dp_flow_events d" using upsert_flows_events [of fe es d] u by simp
  then show ?case using Cons u by (auto split: sum.splits)
qed simp

lemma restore_events: "restore_from_path c file_bytes d = (r, d') \<Longrightarrow> dp_flow_events d' = dp_flow_events d"
proof -
  have "dp_flow_events d2 = dp_flow_events d1" if "sweep_flows_and_refresh_loads (pc_flow_env c) (pc_sweep_now c) d1 = (q, d2)" for q d1 d2
    using that by (metis sweep_events sweep_flows_and_refresh_loads_def snd_conv)
  then show "restore_from_path c file_bytes d = (r, d') \<Longrightarrow> dp_flow_events d' = dp_flow_events d"
    unfolding restore_from_path_def
    by (auto simp: Let_def split: sum.splits option.splits prod.splits dest: upsert_chunks_events)
qed

lemma sync_keeps: "sync_pinned_datapath env obs ls d = (e, d') \<Longrightarrow> dp_flows d' = dp_flows d \<and> dp_flow_events d' = dp_flow_events d"
  by (auto simp: sync_pinned_datapath_def sync_listener_map_def sync_target_map_def sync_consistent_hash_bucket_map_def
      split: sum.splits prod.splits option.splits)

section \<open>The pair\<close>

text \<open>The gateways are told apart by a truth value.  \<open>wire\<close> holds the entries that replication has read from a
  table or from the events of a gateway and that it may still send, to either gateway, in batches of any
  size and in any order.\<close>

type_synonym gateway_pair = "(bool \<Rightarrow> dp) \<times> (NativeFlowKey \<times> NativeFlowValue) set"

inductive pair_reach :: "(bool \<Rightarrow> ebpf_env) \<Rightarrow> (bool \<Rightarrow> flow_env) \<Rightarrow> gateway_pair \<Rightarrow> bool" for env fe where
  boot: "(\<And>g. dp_flows (ds g) = Map.empty \<and> dp_flow_events (ds g) = []) \<Longrightarrow> pair_reach env fe (ds, {})"
| client: "pair_reach env fe (ds, wire) \<Longrightarrow> native_dnat_ingress (env g) now s (ds g) = (a, s', d') \<Longrightarrow>
    pair_reach env fe (ds(g := d'), wire)"
| reply: "pair_reach env fe (ds, wire) \<Longrightarrow> native_dnat_return (env g) now s (ds g) = (a, s', d') \<Longrightarrow>
    pair_reach env fe (ds(g := d'), wire)"
| expire: "pair_reach env fe (ds, wire) \<Longrightarrow> sweep_flows_inner (fe g) now refresh (ds g) = (r, d') \<Longrightarrow>
    pair_reach env fe (ds(g := d'), wire)"
| configure: "pair_reach env fe (ds, wire) \<Longrightarrow> sync_pinned_datapath senv obs ls (ds g) = (e, d') \<Longrightarrow>
    pair_reach env fe (ds(g := d'), wire)"
| dumped: "pair_reach env fe (ds, wire) \<Longrightarrow> dump_flows (fe g) (ds g) = Inr entries \<Longrightarrow> pair_reach env fe (ds, wire \<union> set entries)"
| drained: "pair_reach env fe (ds, wire) \<Longrightarrow> mutations = drain_flow_events (map Some (dp_flow_events (ds g))) \<Longrightarrow>
    pair_reach env fe (ds(g := (ds g)\<lparr>dp_flow_events := []\<rparr>), wire \<union> {e. Upsert e \<in> set mutations})"
| replicated: "pair_reach env fe (ds, wire) \<Longrightarrow> set (fb_entries batch) \<subseteq> wire \<Longrightarrow>
    apply_proto_request (fe g) clock (batch_request name token sent batch) (ds g) = (q, d') \<Longrightarrow> pair_reach env fe (ds(g := d'), wire)"
| restored: "pair_reach env fe (ds, wire) \<Longrightarrow> pc_flow_env c = fe g \<Longrightarrow> iterates (pc_order c) \<Longrightarrow>
    restore_from_path c file_bytes (ds g) = (t, d') \<Longrightarrow> pair_reach env fe (ds(g := d'), wire)"

definition tables_paired :: "gateway_pair \<Rightarrow> bool" where
  "tables_paired sys \<longleftrightarrow> (\<forall>g. flows_paired (dp_flows (fst sys g)) \<and> events_paired (dp_flow_events (fst sys g))) \<and> (\<forall>e\<in>snd sys. paired e)"

lemma tables_paired_update:
  "tables_paired (ds, wire) \<Longrightarrow> flows_paired (dp_flows d') \<Longrightarrow> events_paired (dp_flow_events d') \<Longrightarrow> tables_paired (ds(g := d'), wire)"
  by (simp add: tables_paired_def)

lemma drained_paired:
  "events_paired events \<Longrightarrow> Upsert e \<in> set (drain_flow_events (map Some events)) \<Longrightarrow> paired e"
  by (induction events) (auto simp: events_paired_def split: if_splits)

lemma dumped_paired:
  assumes "pin_ok fe" "flows_paired (dp_flows d)" "dump_flows fe d = Inr entries" "e \<in> set entries"
  shows "paired e"
proof -
  have "set entries \<subseteq> {(k, v). dp_flows d k = Some v}"
    using assms(1,3) iter_entries_ok by (fastforce simp: dump_flows_def pin_ok_def split: pin.splits option.splits)
  then have "dp_flows d (fst e) = Some (snd e)" using assms(4) by (cases e) auto
  then show ?thesis by (rule flows_pairedD [OF assms(2)])
qed

lemma pair_tables_paired:
  assumes env: "\<And>g. lru_insert (env_flow_insert (env g))" "\<And>g. pin_ok (fe g)" and "pair_reach env fe sys"
  shows "tables_paired sys"
  using assms(3)
proof induction
  case (boot ds)
  then show ?case by (simp add: tables_paired_def flows_paired_def events_paired_def)
next
  case (client ds wire g now s a s' d')
  obtain r where r: "try_native_dnat_ingress (env g) now s (ds g) = (r, s', d')"
    using client.hyps(2) unfolding native_dnat_ingress_def by (rule entry_pointE)
  have ok: "flows_paired (dp_flows (ds g))" "events_paired (dp_flow_events (ds g))" using client.IH by (simp_all add: tables_paired_def)
  show ?case by (rule tables_paired_update [OF client.IH ingress_keeps_paired [OF env(1) ok(1) r] ingress_events [OF ok(2) r]])
next
  case (reply ds wire g now s a s' d')
  obtain r where r: "try_native_dnat_return (env g) now s (ds g) = (r, s', d')"
    using reply.hyps(2) unfolding native_dnat_return_def by (rule entry_pointE)
  have ok: "flows_paired (dp_flows (ds g))" "events_paired (dp_flow_events (ds g))" using reply.IH by (simp_all add: tables_paired_def)
  show ?case by (rule tables_paired_update [OF reply.IH return_keeps_paired [OF env(1) ok(1) r] return_events [OF ok(2) r]])
next
  case (expire ds wire g now refresh r d')
  then show ?case
    using sweep_keeps_paired [OF env(2), of "ds g" g now refresh] sweep_events [of "fe g" now refresh "ds g"]
    by (intro tables_paired_update) (simp_all add: tables_paired_def)
next
  case (configure ds wire senv obs ls g e d')
  then show ?case using sync_keeps [OF configure.hyps(2)] by (intro tables_paired_update) (simp_all add: tables_paired_def)
next
  case (dumped ds wire g entries)
  have "\<forall>e\<in>set entries. paired e" using dumped_paired [OF env(2) _ dumped.hyps(2)] dumped.IH by (simp add: tables_paired_def)
  then show ?case using dumped.IH by (auto simp: tables_paired_def)
next
  case (drained ds wire mutations g)
  have "\<forall>e\<in>{e. Upsert e \<in> set mutations}. paired e"
    using drained_paired [of "dp_flow_events (ds g)"] drained.IH by (simp add: drained.hyps(2) tables_paired_def)
  then show ?case using drained.IH by (simp add: tables_paired_def events_paired_def ball_Un)
next
  case (replicated ds wire batch g clock name token sent q d')
  have "\<forall>e\<in>set (fb_entries batch). paired e" using replicated.hyps(2) replicated.IH by (auto simp: tables_paired_def)
  then have "flows_paired (dp_flows d')"
    using request_keeps_paired [OF env(2), of "ds g" batch g] replicated.IH replicated.hyps(3) by (metis fst_conv snd_conv tables_paired_def)
  moreover have "dp_flow_events d' = dp_flow_events (ds g)" using request_events replicated.hyps(3) by (metis snd_conv)
  ultimately show ?case using replicated.IH by (intro tables_paired_update) (simp_all add: tables_paired_def)
next
  case (restored ds wire c g file_bytes t d')
  have "flows_paired (dp_flows d')"
    by (rule restore_from_path_keeps_paired [OF _ restored.hyps(3) _ restored.hyps(4)])
      (use restored.hyps(2) restored.IH env(2) in \<open>simp_all add: tables_paired_def\<close>)
  then show ?case
    using restored.IH restore_events [OF restored.hyps(4)] by (intro tables_paired_update) (simp_all add: tables_paired_def)
qed

text \<open>C38. The flow tables of a pair of gateways are well typed.  From empty tables, whatever packets, sweeps,
  listener updates, replicated batches (built from entries and events that either gateway showed at any
  earlier time) and restored snapshot files (of any content) happen on the two gateways in any order,
  every entry of either table stands under the client-side or the backend-side key of the flow that its
  value describes, with zero padding.\<close>

theorem pair_tables_typed:
  assumes "\<And>g. lru_insert (env_flow_insert (env g))" "\<And>g. pin_ok (fe g)" "pair_reach env fe (ds, wire)"
    "dp_flows (ds g) k = Some v"
  shows "forward_key k v \<or> reverse_key k v"
  using pair_tables_paired [OF assms(1-3)] assms(4) by (simp add: tables_paired_def flows_paired_def)

theorem pair_tables_typed_witness:
  "\<exists>s' d' k v. native_dnat_ingress plain_env 7 demo_skb nat_dp = (TC_ACT_PIPE, s', d') \<and>
     pair_reach (\<lambda>_. plain_env) (\<lambda>_. sample_flow_env []) ((\<lambda>_. nat_dp)(True := d'), {}) \<and>
     dp_flows d' k = Some v \<and> (forward_key k v \<or> reverse_key k v)"
proof -
  obtain d' where i: "native_dnat_ingress plain_env 7 demo_skb nat_dp =
      (TC_ACT_PIPE, snd (rewrite_write plain_env demo_rewrite demo_skb 30 24 36 40), d')"
    by (rule demo_ingress)
  have t: "routes_typed nat_dp" by (simp add: routes_typed_def nat_dp_def fresh_dp_def)
  obtain v where v: "dp_flows d' (reverse_for (packet_key demo_packet) v) = Some v"
    by (rule ingress_translated [OF _ _ _ _ t _ _ i _ demo_changed demo_parse]) simp_all
  have reach: "pair_reach (\<lambda>_. plain_env) (\<lambda>_. sample_flow_env []) ((\<lambda>_. nat_dp)(True := d'), {})"
    by (rule client [OF boot i]) (simp add: nat_dp_def fresh_dp_def)
  have pin: "pin_ok (sample_flow_env [])" by (simp add: pin_ok_def sample_flow_env_def plain_ops_ok)
  show ?thesis
    using pair_tables_typed [OF _ pin reach, of True] v i reach by (intro exI conjI) auto
qed

end
