(* ===== verification/Ha_Failover.thy ===== *)
theory Ha_Failover
  imports Ha_State
begin

text \<open>
  Switching the active gateway (\<^verbatim>\<open>edge-lb/src/provider/native/ha.rs\<close>, \<^verbatim>\<open>api/handlers/ha.rs\<close>): the local role is
  applied to the shared address, by binding or releasing it or by running the managed hooks; a switch
  applies the role, tells the peer and stores the new active gateway, and rolls back when one of these
  fails.  The kernel (netlink, gratuitous ARP), the hook programs and the HTTP connection to the peer are
  parameters: each of their operations may fail at every step, and the number of operations so far
  selects the outcome.
\<close>

section \<open>A node\<close>

datatype failover_error =
    HaLoadFailed gateway_error | BadVip string | KernelFailed | HookFailed string | UnknownGateway string
  | NotConfiguredPeer | PeerUnreachable | PeerRefused nat | UnsupportedHookState string
  | RollbackFailed failover_error failover_error

text \<open>The addresses are bound to devices; \<open>nd_last_hook\<close> is the hook state applied last; \<open>nd_hook_runs\<close> are the
  hook programs run so far, with action and address.\<close>

record node =
  nd_store :: gateway_store
  nd_bound :: "(u32 \<times> string) set"
  nd_last_hook :: "(string \<times> string) option"
  nd_hook_runs :: "(string \<times> string \<times> string) list"
  nd_ops :: nat

record node_env =
  ne_gateway :: gateway_env
  ne_cfg :: FileConfig
  ne_query_ok :: "nat \<Rightarrow> bool"
  ne_bind_ok :: "nat \<Rightarrow> bool"
  ne_release_ok :: "nat \<Rightarrow> bool"
  ne_announce_ok :: "nat \<Rightarrow> bool"
  ne_scripts_ok :: "nat \<Rightarrow> bool"
  ne_hook_ok :: "nat \<Rightarrow> bool"

definition tick :: "node \<Rightarrow> node" where
  "tick n = n\<lparr>nd_ops := nd_ops n + 1\<rparr>"

section \<open>Addresses and hooks\<close>

definition vip_bound_on_device :: "node_env \<Rightarrow> u32 \<Rightarrow> string \<Rightarrow> node \<Rightarrow> bool \<times> node" where
  "vip_bound_on_device env vip dev n = (ne_query_ok env (nd_ops n) \<and> (vip, dev) \<in> nd_bound n, tick n)"

definition bind_vip_on_device :: "node_env \<Rightarrow> u32 \<Rightarrow> string \<Rightarrow> node \<Rightarrow> (failover_error + unit) \<times> node" where
  "bind_vip_on_device env vip dev n =
     (if ne_bind_ok env (nd_ops n) then (Inr (), tick n\<lparr>nd_bound := insert (vip, dev) (nd_bound n)\<rparr>)
      else (Inl KernelFailed, tick n))"

definition release_vip_on_device :: "node_env \<Rightarrow> u32 \<Rightarrow> string \<Rightarrow> node \<Rightarrow> (failover_error + unit) \<times> node" where
  "release_vip_on_device env vip dev n =
     (let n1 = tick n in
      if \<not> ne_query_ok env (nd_ops n) then (Inl KernelFailed, n1)
      else if (vip, dev) \<notin> nd_bound n then (Inr (), n1)
      else if ne_release_ok env (nd_ops n1) then (Inr (), tick n1\<lparr>nd_bound := nd_bound n - {(vip, dev)}\<rparr>)
      else (Inl KernelFailed, tick n1))"

definition announce_vip :: "node_env \<Rightarrow> node \<Rightarrow> (failover_error + unit) \<times> node" where
  "announce_vip env n = (if ne_announce_ok env (nd_ops n) then Inr () else Inl KernelFailed, tick n)"

definition run_hook_program :: "node_env \<Rightarrow> string \<Rightarrow> string \<Rightarrow> string \<Rightarrow> node \<Rightarrow> (failover_error + unit) \<times> node" where
  "run_hook_program env path action vip n =
     (if ne_hook_ok env (nd_ops n) then Inr () else Inl (HookFailed action),
      tick n\<lparr>nd_hook_runs := nd_hook_runs n @ [(path, action, vip)]\<rparr>)"

definition run_managed_hook_state ::
    "node_env \<Rightarrow> GatewayHaRuntimeConfig \<Rightarrow> string \<Rightarrow> string \<Rightarrow> node \<Rightarrow> (failover_error + unit) \<times> node" where
  "run_managed_hook_state env ha_cfg state vip n0 =
     (if \<not> ne_scripts_ok env (nd_ops n0) then (Inl (HookFailed ''scripts''), tick n0)
      else
        let n = tick n0; vc = hr_vip ha_cfg;
            chosen = (if state = ''MASTER'' then Some (''promote'', unwrap_or (vip_promote_hook vc) default_promote_hook)
              else if state = ''BACKUP'' then Some (''demote'', unwrap_or (vip_demote_hook vc) default_demote_hook)
              else None) in
        case chosen of
          None \<Rightarrow> (Inl (UnsupportedHookState state), n)
        | Some (action, path) \<Rightarrow>
            (case run_hook_program env path action vip n of
               (Inl e, n) \<Rightarrow> (Inl e, n)
             | (Inr _, n) \<Rightarrow> run_hook_program env (unwrap_or (vip_verify_hook vc) default_verify_hook) ''verify'' vip n))"

definition apply_managed_hook_state ::
    "node_env \<Rightarrow> GatewayHaRuntimeConfig \<Rightarrow> string \<Rightarrow> string option \<Rightarrow> bool \<Rightarrow> node \<Rightarrow> (failover_error + bool) \<times> node" where
  "apply_managed_hook_state env ha_cfg state vip_override force n =
     (let vip = (case vip_override of Some v \<Rightarrow> v | None \<Rightarrow> unwrap_or (vip_private_vip (hr_vip ha_cfg)) []) in
      if \<not> force \<and> nd_last_hook n = Some (state, vip) then (Inr False, n)
      else case run_managed_hook_state env ha_cfg state vip n of
          (Inl e, n) \<Rightarrow> (Inl e, n)
        | (Inr _, n) \<Rightarrow> (Inr True, n\<lparr>nd_last_hook := Some (state, vip)\<rparr>))"

definition vip_device :: "FileConfig \<Rightarrow> VipBindDevice \<Rightarrow> string" where
  "vip_device cfg bind_device = (case bind_device of Underlay \<Rightarrow> nw_underlay_dev (fc_network cfg) | Loopback \<Rightarrow> ''lo'')"

section \<open>The local role\<close>

record LocalHaRoleResult =
  lh_garp_announced :: bool
  lh_vip_bound :: bool

definition default_role_result :: LocalHaRoleResult where
  "default_role_result = \<lparr>lh_garp_announced = False, lh_vip_bound = False\<rparr>"

definition bind_and_announce :: "node_env \<Rightarrow> u32 \<Rightarrow> string \<Rightarrow> node \<Rightarrow> (failover_error + unit) \<times> node" where
  "bind_and_announce env vip device n =
     (case bind_vip_on_device env vip device n of
        (Inl e, n) \<Rightarrow> (Inl e, n)
      | (Inr _, n) \<Rightarrow> announce_vip env n)"

definition apply_l2_role :: "node_env \<Rightarrow> u32 \<Rightarrow> string \<Rightarrow> bool \<Rightarrow> node \<Rightarrow> (failover_error + LocalHaRoleResult) \<times> node" where
  "apply_l2_role env vip device local_active n =
     (case vip_bound_on_device env vip device n of (bound, n) \<Rightarrow>
      if local_active then
        if \<not> bound then
          case bind_and_announce env vip device n of
            (Inl e, n) \<Rightarrow> (Inl e, n)
          | (Inr _, n) \<Rightarrow> (Inr \<lparr>lh_garp_announced = True, lh_vip_bound = True\<rparr>, n)
        else (Inr (default_role_result\<lparr>lh_vip_bound := True\<rparr>), n)
      else if bound then
        case release_vip_on_device env vip device n of
          (Inl e, n) \<Rightarrow> (Inl e, n)
        | (Inr _, n) \<Rightarrow> (Inr default_role_result, n)
      else (Inr default_role_result, n))"

definition apply_local_ha_role ::
    "node_env \<Rightarrow> GatewayHaRuntimeConfig \<Rightarrow> bool \<Rightarrow> bool \<Rightarrow> node \<Rightarrow> (failover_error + LocalHaRoleResult) \<times> node" where
  "apply_local_ha_role env ha_cfg local_active force_hook n =
     (if \<not> hr_enabled ha_cfg then (Inr default_role_result, n)
      else if vip_provider (hr_vip ha_cfg) = Hook then
        case apply_managed_hook_state env ha_cfg (if local_active then ''MASTER'' else ''BACKUP'') None force_hook n of
          (Inl e, n) \<Rightarrow> (Inl e, n)
        | (Inr _, n) \<Rightarrow> (Inr default_role_result, n)
      else if vip_provider (hr_vip ha_cfg) \<noteq> L2 then (Inr default_role_result, n)
      else case vip_private_vip (hr_vip ha_cfg) of
          None \<Rightarrow> (Inr default_role_result, n)
        | Some vip_text \<Rightarrow>
            (case parse_ipv4_addr vip_text of
               None \<Rightarrow> (Inl (BadVip vip_text), n)
             | Some vip \<Rightarrow> apply_l2_role env vip (vip_device (ne_cfg env) (vip_bind_device (hr_vip ha_cfg))) local_active n))"

definition local_gateway_is_active :: "node_env \<Rightarrow> node \<Rightarrow> bool" where
  "local_gateway_is_active env n =
     (case active_gateway (ge_codec (ne_gateway env)) (ne_cfg env) (gs_repo (nd_store n)) of
        Inr gateway \<Rightarrow> gn_name gateway = fc_node_name (ne_cfg env) \<or> gn_underlay_ip gateway = fc_underlay_ip (ne_cfg env)
      | Inl _ \<Rightarrow> False)"

definition load_ha :: "node_env \<Rightarrow> node \<Rightarrow> failover_error + GatewayHaRuntimeConfig" where
  "load_ha env n = map_err HaLoadFailed (load_for_state_dir (ge_codec (ne_gateway env)) (gs_repo (nd_store n)))"

definition node_write_active :: "node_env \<Rightarrow> string \<Rightarrow> node \<Rightarrow> (failover_error + unit) \<times> node" where
  "node_write_active env gateway n =
     (case write_active_gateway (ne_gateway env) gateway (nd_store n) of
        (r, s) \<Rightarrow> (map_err HaLoadFailed r, n\<lparr>nd_store := s\<rparr>))"

definition reconcile_vip_inner :: "node_env \<Rightarrow> bool \<Rightarrow> node \<Rightarrow> (failover_error + bool) \<times> node" where
  "reconcile_vip_inner env force_hook n =
     (case load_ha env n of
        Inl e \<Rightarrow> (Inl e, n)
      | Inr ha_cfg \<Rightarrow>
          if hr_enabled ha_cfg \<and> vip_provider (hr_vip ha_cfg) = Hook
          then apply_managed_hook_state env ha_cfg (if local_gateway_is_active env n then ''MASTER'' else ''BACKUP'') None force_hook n
          else case vip_private_vip (hr_vip ha_cfg) of
            None \<Rightarrow> (Inr False, n)
          | Some vip_text \<Rightarrow>
              (case parse_ipv4_addr vip_text of
                 None \<Rightarrow> (Inl (BadVip vip_text), n)
               | Some vip \<Rightarrow>
                   let device = vip_device (ne_cfg env) (vip_bind_device (hr_vip ha_cfg)) in
                   (case vip_bound_on_device env vip device n of (bound, n) \<Rightarrow>
                    let should_bind = (hr_enabled ha_cfg \<and> vip_provider (hr_vip ha_cfg) = L2 \<and> local_gateway_is_active env n) in
                    if should_bind \<and> \<not> bound then
                      case bind_and_announce env vip device n of (Inl e, n) \<Rightarrow> (Inl e, n) | (Inr _, n) \<Rightarrow> (Inr True, n)
                    else if \<not> should_bind \<and> bound then
                      case release_vip_on_device env vip device n of (Inl e, n) \<Rightarrow> (Inl e, n) | (Inr _, n) \<Rightarrow> (Inr True, n)
                    else (Inr False, n))))"

definition release_local_vip :: "node_env \<Rightarrow> node \<Rightarrow> (failover_error + bool) \<times> node" where
  "release_local_vip env n =
     (case load_ha env n of
        Inl e \<Rightarrow> (Inl e, n)
      | Inr ha_cfg \<Rightarrow>
          if \<not> hr_enabled ha_cfg then (Inr False, n)
          else if vip_provider (hr_vip ha_cfg) = Hook then apply_managed_hook_state env ha_cfg ''BACKUP'' None True n
          else if vip_provider (hr_vip ha_cfg) \<noteq> L2 then (Inr False, n)
          else case vip_private_vip (hr_vip ha_cfg) of
            None \<Rightarrow> (Inr False, n)
          | Some vip_text \<Rightarrow>
              (case parse_ipv4_addr vip_text of
                 None \<Rightarrow> (Inl (BadVip vip_text), n)
               | Some vip \<Rightarrow>
                   let device = vip_device (ne_cfg env) (vip_bind_device (hr_vip ha_cfg)) in
                   (case vip_bound_on_device env vip device n of (bound, n) \<Rightarrow>
                    if \<not> bound then (Inr False, n)
                    else case release_vip_on_device env vip device n of (Inl e, n) \<Rightarrow> (Inl e, n) | (Inr _, n) \<Rightarrow> (Inr True, n))))"

section \<open>Hook events\<close>

record KaHookEvent =
  kh_instance :: string
  kh_state :: string
  kh_vip :: string

definition hook_non_empty :: "string \<Rightarrow> string option" where
  "hook_non_empty v = (let t = trim v in if t = [] then None else Some t)"

definition ascii_upper :: "char \<Rightarrow> char" where
  "ascii_upper c = (if 97 \<le> (of_char c :: nat) \<and> (of_char c :: nat) \<le> 122 then char_of (of_char c - (32 :: nat)) else c)"

definition on_event_vip ::
    "node_env \<Rightarrow> GatewayHaRuntimeConfig \<Rightarrow> KaHookEvent \<Rightarrow> (u32 \<Rightarrow> string \<Rightarrow> node \<Rightarrow> (failover_error + unit) \<times> node) \<Rightarrow> node \<Rightarrow>
     (failover_error + unit) \<times> node" where
  "on_event_vip env ha_cfg event act n =
     (if trim (kh_vip event) = [] then (Inr (), n)
      else case parse_ipv4_addr (kh_vip event) of
          None \<Rightarrow> (Inl (BadVip (kh_vip event)), n)
        | Some vip \<Rightarrow> act vip (vip_device (ne_cfg env) (vip_bind_device (hr_vip ha_cfg))) n)"

definition apply_event_role ::
    "node_env \<Rightarrow> string \<Rightarrow> KaHookEvent \<Rightarrow> (u32 \<Rightarrow> string \<Rightarrow> node \<Rightarrow> (failover_error + unit) \<times> node) \<Rightarrow> node \<Rightarrow>
     (failover_error + unit) \<times> node" where
  "apply_event_role env role event act n =
     (case load_ha env n of
        Inl e \<Rightarrow> (Inl e, n)
      | Inr ha_cfg \<Rightarrow>
          if vip_provider (hr_vip ha_cfg) = Hook then
            case apply_managed_hook_state env ha_cfg role (hook_non_empty (kh_vip event)) True n of
              (Inl e, n) \<Rightarrow> (Inl e, n)
            | (Inr _, n) \<Rightarrow> (Inr (), n)
          else on_event_vip env ha_cfg event act n)"

definition handle_ka_hook_event :: "node_env \<Rightarrow> KaHookEvent \<Rightarrow> node \<Rightarrow> (failover_error + unit) \<times> node" where
  "handle_ka_hook_event env event n =
     (let state = map ascii_upper (trim (kh_state event)) in
      if state = ''MASTER'' then
        case node_write_active env (fc_node_name (ne_cfg env)) n of
          (Inl e, n) \<Rightarrow> (Inl e, n)
        | (Inr _, n) \<Rightarrow> apply_event_role env ''MASTER'' event (bind_and_announce env) n
      else if state = ''BACKUP'' \<or> state = ''STOP'' then apply_event_role env ''BACKUP'' event (release_vip_on_device env) n
      else (Inl (UnsupportedHookState state), n))"

section \<open>Switching\<close>

text \<open>The rest of the world, of any type, changes when a request is posted to a peer; the result is the HTTP status.\<close>

type_synonym 'w post = "GatewayHaPeer \<Rightarrow> string \<Rightarrow> 'w \<Rightarrow> (failover_error + nat) \<times> 'w"

fun notify_each :: "'w post \<Rightarrow> string \<Rightarrow> GatewayHaPeer list \<Rightarrow> 'w \<Rightarrow> (failover_error + unit) \<times> 'w" where
  "notify_each post active [] w = (Inr (), w)"
| "notify_each post active (peer # peers) w =
     (case post peer active w of
        (Inl e, w) \<Rightarrow> (Inl e, w)
      | (Inr status, w) \<Rightarrow>
          if \<not> (200 \<le> status \<and> status < 300) then (Inl (PeerRefused status), w)
          else notify_each post active peers w)"

definition notify_peers_of_active_gateway ::
    "node_env \<Rightarrow> 'w post \<Rightarrow> GatewayHaRuntimeConfig \<Rightarrow> string \<Rightarrow> 'w \<Rightarrow> (failover_error + unit) \<times> 'w" where
  "notify_peers_of_active_gateway env post ha_cfg active w =
     (case notify_each post active (hr_peers ha_cfg) w of
        (Inl e, w) \<Rightarrow> (Inl e, w)
      | (Inr _, w) \<Rightarrow>
          if hr_peers ha_cfg \<noteq> [] \<and> active \<noteq> fc_node_name (ne_cfg env) \<and> active \<notin> hp_name ` set (hr_peers ha_cfg)
          then (Inl NotConfiguredPeer, w) else (Inr (), w))"

definition restore_local_master_after_failed_handoff ::
    "node_env \<Rightarrow> GatewayHaRuntimeConfig \<Rightarrow> failover_error \<Rightarrow> node \<Rightarrow> failover_error \<times> node" where
  "restore_local_master_after_failed_handoff env ha_cfg handoff_error n =
     (case apply_local_ha_role env ha_cfg True True n of
        (Inl rollback_error, n) \<Rightarrow> (RollbackFailed handoff_error rollback_error, n)
      | (Inr _, n) \<Rightarrow> (handoff_error, n))"

definition restore_peer_after_failed_local_takeover ::
    "node_env \<Rightarrow> 'w post \<Rightarrow> GatewayHaRuntimeConfig \<Rightarrow> string option \<Rightarrow> failover_error \<Rightarrow> 'w \<Rightarrow> failover_error \<times> 'w" where
  "restore_peer_after_failed_local_takeover env post ha_cfg previous_active takeover_error w =
     (case previous_active of
        None \<Rightarrow> (takeover_error, w)
      | Some previous \<Rightarrow>
          (case notify_peers_of_active_gateway env post ha_cfg previous w of
             (Inl rollback_error, w) \<Rightarrow> (RollbackFailed takeover_error rollback_error, w)
           | (Inr _, w) \<Rightarrow> (takeover_error, w)))"

definition peer_as_gateway :: "FileConfig \<Rightarrow> string \<Rightarrow> GatewayHaPeer \<Rightarrow> GatewayNode option" where
  "peer_as_gateway cfg target_key peer =
     (if hp_name peer \<noteq> target_key \<and> hp_underlay_ip peer \<noteq> target_key then None
      else case parse_ip_addr (hp_underlay_ip peer) of
          None \<Rightarrow> None
        | Some underlay_ip \<Rightarrow> Some \<lparr>gn_name = hp_name peer,
            gn_public_ip = (case hp_public_ip peer of None \<Rightarrow> underlay_ip | Some v \<Rightarrow> unwrap_or (parse_ip_addr v) underlay_ip),
            gn_underlay_ip = underlay_ip,
            gn_overlay_ip = unwrap_or (hp_overlay_ip peer) (gwc_overlay_ip (fc_gateway cfg))\<rparr>)"

fun find_map :: "('a \<Rightarrow> 'b option) \<Rightarrow> 'a list \<Rightarrow> 'b option" where
  "find_map f [] = None"
| "find_map f (x # xs) = (case f x of Some y \<Rightarrow> Some y | None \<Rightarrow> find_map f xs)"

definition switch_target :: "FileConfig \<Rightarrow> GatewayHaRuntimeConfig \<Rightarrow> string \<Rightarrow> GatewayNode option" where
  "switch_target cfg ha_cfg target_key =
     (case gateway_by_key cfg target_key of
        Some g \<Rightarrow> Some g
      | None \<Rightarrow> find_map (peer_as_gateway cfg target_key) (hr_peers ha_cfg))"

record SwitchActiveResult =
  sr_gateway :: string
  sr_vip :: "string option"
  sr_garp_announced :: bool
  sr_vip_bound :: bool

definition switch_result :: "GatewayNode \<Rightarrow> GatewayHaRuntimeConfig \<Rightarrow> LocalHaRoleResult \<Rightarrow> SwitchActiveResult" where
  "switch_result target ha_cfg applied = \<lparr>sr_gateway = gn_name target, sr_vip = vip_private_vip (hr_vip ha_cfg),
     sr_garp_announced = lh_garp_announced applied, sr_vip_bound = lh_vip_bound applied\<rparr>"

text \<open>The three parts of the switch once the target is known: the local node takes over, the local node
  hands over, or HA is disabled and only the selection is stored.\<close>

definition commit_switch ::
    "node_env \<Rightarrow> GatewayNode \<Rightarrow> GatewayHaRuntimeConfig \<Rightarrow> LocalHaRoleResult \<Rightarrow> node \<Rightarrow> 'w \<Rightarrow>
     (failover_error + SwitchActiveResult) \<times> node \<times> 'w" where
  "commit_switch env target ha_cfg applied n w =
     (case node_write_active env (gn_name target) n of
        (Inl e, n) \<Rightarrow> (Inl e, n, w)
      | (Inr _, n) \<Rightarrow> (Inr (switch_result target ha_cfg applied), n, w))"

definition take_over ::
    "node_env \<Rightarrow> 'w post \<Rightarrow> GatewayHaRuntimeConfig \<Rightarrow> GatewayNode \<Rightarrow> bool \<Rightarrow> string option \<Rightarrow> node \<Rightarrow> 'w \<Rightarrow>
     (failover_error + SwitchActiveResult) \<times> node \<times> 'w" where
  "take_over env post ha_cfg target peer_notified previous_active n w =
     (case apply_local_ha_role env ha_cfg True True n of
        (Inl e, n) \<Rightarrow>
          if peer_notified
          then case restore_peer_after_failed_local_takeover env post ha_cfg previous_active e w of (e, w) \<Rightarrow> (Inl e, n, w)
          else (Inl e, n, w)
      | (Inr applied, n) \<Rightarrow> commit_switch env target ha_cfg applied n w)"

definition hand_over ::
    "node_env \<Rightarrow> 'w post \<Rightarrow> GatewayHaRuntimeConfig \<Rightarrow> GatewayNode \<Rightarrow> node \<Rightarrow> 'w \<Rightarrow>
     (failover_error + SwitchActiveResult) \<times> node \<times> 'w" where
  "hand_over env post ha_cfg target n w =
     (case apply_local_ha_role env ha_cfg False True n of
        (Inl e, n) \<Rightarrow> (Inl e, n, w)
      | (Inr _, n) \<Rightarrow>
          (case notify_peers_of_active_gateway env post ha_cfg (gn_name target) w of
             (Inl e, w) \<Rightarrow> (case restore_local_master_after_failed_handoff env ha_cfg e n of (e, n) \<Rightarrow> (Inl e, n, w))
           | (Inr _, w) \<Rightarrow> commit_switch env target ha_cfg default_role_result n w))"

definition switch_active_gateway_inner ::
    "node_env \<Rightarrow> 'w post \<Rightarrow> string \<Rightarrow> bool \<Rightarrow> node \<Rightarrow> 'w \<Rightarrow> (failover_error + SwitchActiveResult) \<times> node \<times> 'w" where
  "switch_active_gateway_inner env post target_key coordinate_local_takeover n w =
     (case load_ha env n of
        Inl e \<Rightarrow> (Inl e, n, w)
      | Inr ha_cfg \<Rightarrow>
          (case switch_target (ne_cfg env) ha_cfg target_key of
             None \<Rightarrow> (Inl (UnknownGateway target_key), n, w)
           | Some target \<Rightarrow>
               let target_is_local = (gn_name target = fc_node_name (ne_cfg env) \<or> gn_underlay_ip target = fc_underlay_ip (ne_cfg env));
                   target_underlay = show_ip (gn_underlay_ip target);
                   previous_active = (case active_gateway (ge_codec (ne_gateway env)) (ne_cfg env) (gs_repo (nd_store n)) of
                     Inr g \<Rightarrow> Some (gn_name g) | Inl _ \<Rightarrow> None) in
               if hr_enabled ha_cfg \<and> \<not> target_is_local \<and>
                 \<not> (\<exists>peer\<in>set (hr_peers ha_cfg). hp_name peer = gn_name target \<or> hp_underlay_ip peer = target_underlay)
               then (Inl NotConfiguredPeer, n, w)
               else if \<not> hr_enabled ha_cfg then commit_switch env target ha_cfg default_role_result n w
               else if target_is_local then
                 if coordinate_local_takeover \<and> \<not> local_gateway_is_active env n then
                   case notify_peers_of_active_gateway env post ha_cfg (gn_name target) w of
                     (Inl e, w) \<Rightarrow> (Inl e, n, w)
                   | (Inr _, w) \<Rightarrow> take_over env post ha_cfg target True previous_active n w
                 else take_over env post ha_cfg target False previous_active n w
               else hand_over env post ha_cfg target n w))"

definition switch_active_gateway ::
    "node_env \<Rightarrow> 'w post \<Rightarrow> string \<Rightarrow> node \<Rightarrow> 'w \<Rightarrow> (failover_error + SwitchActiveResult) \<times> node \<times> 'w" where
  "switch_active_gateway env post target_key n w = switch_active_gateway_inner env post target_key False n w"

definition switch_active_gateway_coordinated ::
    "node_env \<Rightarrow> 'w post \<Rightarrow> string \<Rightarrow> node \<Rightarrow> 'w \<Rightarrow> (failover_error + SwitchActiveResult) \<times> node \<times> 'w" where
  "switch_active_gateway_coordinated env post target_key n w = switch_active_gateway_inner env post target_key True n w"

definition handoff_or_release_on_shutdown ::
    "node_env \<Rightarrow> 'w post \<Rightarrow> node \<Rightarrow> 'w \<Rightarrow> (failover_error + unit) \<times> node \<times> 'w" where
  "handoff_or_release_on_shutdown env post n w =
     (case load_ha env n of
        Inl e \<Rightarrow> (Inl e, n, w)
      | Inr ha_cfg \<Rightarrow>
          if \<not> hr_enabled ha_cfg \<or> vip_provider (hr_vip ha_cfg) \<notin> {L2, Hook} then (Inr (), n, w)
          else case ha_state (ge_codec (ne_gateway env)) (ne_cfg env) (gs_repo (nd_store n)) of
            Inl e \<Rightarrow> (Inl (HaLoadFailed e), n, w)
          | Inr st \<Rightarrow>
              let release = (\<lambda>n w. case release_local_vip env n of (Inl e, n) \<Rightarrow> (Inl e, n, w) | (Inr _, n) \<Rightarrow> (Inr (), n, w)) in
              if nh_state st = ''MASTER'' \<and> hr_peers ha_cfg \<noteq> [] then
                case switch_active_gateway env post (hp_name (hd (hr_peers ha_cfg))) n w of
                  (Inr _, n, w) \<Rightarrow> (Inr (), n, w)
                | (Inl _, n, w) \<Rightarrow> release n w
              else release n w)"

section \<open>The activation request at the peer\<close>

text \<open>\<^verbatim>\<open>POST /api/v1/ha/peer/activate\<close>, with the gateway that the body names, if it names one.\<close>

definition activation_target :: "FileConfig \<Rightarrow> GatewayHaRuntimeConfig \<Rightarrow> string \<Rightarrow> (string \<times> bool) option" where
  "activation_target cfg ha_cfg target =
     (case gateway_by_key cfg target of
        Some g \<Rightarrow> Some (gn_name g, gn_underlay_ip g = fc_underlay_ip cfg \<or> gn_name g = fc_node_name cfg)
      | None \<Rightarrow>
          map_option (\<lambda>peer. (hp_name peer, False))
            (List.find (\<lambda>peer. hp_name peer = target \<or> hp_underlay_ip peer = target) (hr_peers ha_cfg)))"

definition write_activation :: "node_env \<Rightarrow> string \<Rightarrow> node \<Rightarrow> nat \<times> node" where
  "write_activation env active_name n =
     (case node_write_active env active_name n of (Inl _, n) \<Rightarrow> (500, n) | (Inr _, n) \<Rightarrow> (200, n))"

definition peer_activate :: "node_env \<Rightarrow> string option \<Rightarrow> node \<Rightarrow> nat \<times> node" where
  "peer_activate env body n =
     (if fc_node_role (ne_cfg env) \<noteq> Gateway then (403, n)
      else case body of
        None \<Rightarrow> (400, n)
      | Some target \<Rightarrow>
      (case load_ha env n of
        Inl _ \<Rightarrow> (500, n)
      | Inr ha_cfg \<Rightarrow>
          (case activation_target (ne_cfg env) ha_cfg target of
             None \<Rightarrow> (409, n)
           | Some (active_name, local_active) \<Rightarrow>
               if \<not> hr_enabled ha_cfg then write_activation env active_name n
               else case apply_local_ha_role env ha_cfg local_active True n of
                   (Inl _, n) \<Rightarrow> (500, n)
                 | (Inr _, n) \<Rightarrow>
                     (case vip_private_vip (hr_vip ha_cfg) of
                        Some vip_text \<Rightarrow>
                          if vip_provider (hr_vip ha_cfg) = L2 \<and> \<not> local_active then
                            case parse_ipv4_addr vip_text of
                              None \<Rightarrow> (400, n)
                            | Some vip \<Rightarrow>
                                write_activation env active_name (snd (vip_bound_on_device env vip
                                  (vip_device (ne_cfg env) (vip_bind_device (hr_vip ha_cfg))) n))
                          else write_activation env active_name n
                      | None \<Rightarrow> write_activation env active_name n))))"

section \<open>Two gateways\<close>

text \<open>A request may be delivered, lost, or answered with the answer lost.  \<open>link i\<close> is the fate of the \<open>i\<close>th
  request.\<close>

datatype link = Delivered | RequestLost | ResponseLost

definition post_to :: "node_env \<Rightarrow> (nat \<Rightarrow> link) \<Rightarrow> (node \<times> nat) post" where
  "post_to env link peer active w =
     (case w of (b, i) \<Rightarrow>
      case link i of
        RequestLost \<Rightarrow> (Inl PeerUnreachable, (b, i + 1))
      | Delivered \<Rightarrow> (case peer_activate env (Some active) b of (status, b) \<Rightarrow> (Inr status, (b, i + 1)))
      | ResponseLost \<Rightarrow> (Inl PeerUnreachable, (snd (peer_activate env (Some active) b), i + 1)))"

text \<open>A gateway that shares the address \<open>vip\<close> on layer 2, and can query its kernel.\<close>

definition l2_gateway :: "node_env \<Rightarrow> node \<Rightarrow> GatewayHaRuntimeConfig \<Rightarrow> u32 \<Rightarrow> bool" where
  "l2_gateway env n ha vip \<longleftrightarrow> load_ha env n = Inr ha \<and> hr_enabled ha \<and> vip_provider (hr_vip ha) = L2 \<and>
     (\<exists>t. vip_private_vip (hr_vip ha) = Some t \<and> parse_ipv4_addr t = Some vip) \<and> (\<forall>i. ne_query_ok env i)"

definition vip_slot :: "node_env \<Rightarrow> GatewayHaRuntimeConfig \<Rightarrow> u32 \<Rightarrow> u32 \<times> string" where
  "vip_slot env ha vip = (vip, vip_device (ne_cfg env) (vip_bind_device (hr_vip ha)))"

definition holds_vip :: "node_env \<Rightarrow> GatewayHaRuntimeConfig \<Rightarrow> u32 \<Rightarrow> node \<Rightarrow> bool" where
  "holds_vip env ha vip n \<longleftrightarrow> vip_slot env ha vip \<in> nd_bound n"

lemma apply_role_l2:
  "l2_gateway env n ha vip \<Longrightarrow> apply_local_ha_role env ha active force m = apply_l2_role env vip (snd (vip_slot env ha vip)) active m"
  by (auto simp: l2_gateway_def apply_local_ha_role_def vip_slot_def)

text \<open>What the role changes: only the binding, and the store never.\<close>

lemma role_keeps_store: "nd_store (snd (apply_l2_role env vip dev active n)) = nd_store n"
  by (auto simp: apply_l2_role_def vip_bound_on_device_def bind_and_announce_def bind_vip_on_device_def announce_vip_def
      release_vip_on_device_def tick_def Let_def)

lemma demote_l2:
  assumes "\<And>i. ne_query_ok env i" "apply_l2_role env vip dev False n = (r, n')"
  shows "(\<forall>x. r = Inr x \<longrightarrow> (vip, dev) \<notin> nd_bound n') \<and> ((vip, dev) \<notin> nd_bound n \<longrightarrow> (vip, dev) \<notin> nd_bound n')"
  using assms by (auto simp: apply_l2_role_def vip_bound_on_device_def release_vip_on_device_def tick_def Let_def split: if_splits)

lemma promote_l2:
  assumes "\<And>i. ne_query_ok env i" "apply_l2_role env vip dev True n = (r, n')" "r = Inr x"
  shows "(vip, dev) \<in> nd_bound n'"
  using assms by (auto simp: apply_l2_role_def vip_bound_on_device_def bind_and_announce_def bind_vip_on_device_def announce_vip_def
      tick_def Let_def split: if_splits)

definition stored_active :: "node \<Rightarrow> string \<Rightarrow> bool" where
  "stored_active n name \<longleftrightarrow>
     get_payload (''ha_active_gateway'', ''current'') (gs_repo (nd_store n)) = Some (name @ [char_of (10 :: nat)])"

lemma node_write_active_ok:
  assumes "node_write_active env name n = (r, n')"
  shows "nd_bound n' = nd_bound n \<and> (\<forall>u. r = Inr u \<longrightarrow> stored_active n' name)"
proof -
  obtain r0 st where w: "write_active_gateway (ne_gateway env) name (nd_store n) = (r0, st)" by (rule prod.exhaust)
  then have n': "n' = n\<lparr>nd_store := st\<rparr>" "r = map_err HaLoadFailed r0" using assms by (auto simp: node_write_active_def)
  have "stored_active n' name" if "r = Inr u" for u
  proof -
    have "r0 = Inr ()" using n'(2) that by (cases r0) auto
    then have "store_put (ne_gateway env) (''ha_active_gateway'', ''current'') (name @ [char_of (10 :: nat)]) (nd_store n) = (Inr (), st)"
      using w by (simp add: write_active_gateway_def)
    from store_put_docs [OF this] show ?thesis using n'(1) by (auto simp: stored_active_def get_payload_def get_doc_def)
  qed
  then show ?thesis using n' by auto
qed

text \<open>The handler at the peer that becomes active: it answers 200 only when it holds the address and has stored its role.\<close>

lemma peer_activate_l2:
  assumes "l2_gateway env b hb vip" "fc_node_role (ne_cfg env) = Gateway" "activation_target (ne_cfg env) hb target = Some (name, True)"
  shows "peer_activate env (Some target) b = (case apply_l2_role env vip (snd (vip_slot env hb vip)) True b of
    (Inl _, n) \<Rightarrow> (500, n) | (Inr _, n) \<Rightarrow> write_activation env name n)"
  using assms apply_role_l2 [OF assms(1)]
  by (auto simp: peer_activate_def l2_gateway_def split: sum.splits prod.splits option.splits)

lemma activation_outcome:
  assumes b: "l2_gateway env b hb vip" "fc_node_role (ne_cfg env) = Gateway" "activation_target (ne_cfg env) hb target = Some (name, True)"
    and run: "peer_activate env (Some target) b = (status, b')"
  shows "(status = 200 \<or> status = 500) \<and> (status = 200 \<longrightarrow> holds_vip env hb vip b' \<and> stored_active b' name)"
proof -
  obtain r n where r: "apply_l2_role env vip (snd (vip_slot env hb vip)) True b = (r, n)" by (rule prod.exhaust)
  have query: "\<And>i. ne_query_ok env i" using b(1) by (simp add: l2_gateway_def)
  show ?thesis
  proof (cases r)
    case (Inr x)
    obtain w n' where w: "node_write_active env name n = (w, n')" by (rule prod.exhaust)
    have "(vip, snd (vip_slot env hb vip)) \<in> nd_bound n" by (rule promote_l2 [OF query r Inr])
    then have "holds_vip env hb vip n'" using node_write_active_ok [OF w] by (simp add: holds_vip_def vip_slot_def)
    then show ?thesis
      using run r Inr w node_write_active_ok [OF w] unfolding peer_activate_l2 [OF b] by (auto simp: write_activation_def split: sum.splits)
  qed (use run r in \<open>auto simp: peer_activate_l2 [OF b]\<close>)
qed

lemma notify_single:
  assumes "hr_peers ha = [peer]" "hp_name peer = name"
  shows "notify_peers_of_active_gateway env post ha name w =
    (case post peer name w of
       (Inl e, w) \<Rightarrow> (Inl e, w)
     | (Inr status, w) \<Rightarrow> if 200 \<le> status \<and> status < 300 then (Inr (), w) else (Inl (PeerRefused status), w))"
  using assms by (auto simp: notify_peers_of_active_gateway_def split: prod.splits sum.splits)

text \<open>Two gateways, and a switch on the first that hands the address over to the second.\<close>

definition handing_over ::
    "node_env \<Rightarrow> node \<Rightarrow> GatewayHaRuntimeConfig \<Rightarrow> node_env \<Rightarrow> node \<Rightarrow> GatewayHaRuntimeConfig \<Rightarrow> u32 \<Rightarrow> string \<Rightarrow> string \<Rightarrow> string \<Rightarrow> bool" where
  "handing_over ea a ha eb b hb vip key target name \<longleftrightarrow>
     l2_gateway ea a ha vip \<and> l2_gateway eb b hb vip \<and> fc_node_role (ne_cfg eb) = Gateway \<and>
     (\<exists>peer g. hr_peers ha = [peer] \<and> hp_name peer = target \<and> switch_target (ne_cfg ea) ha key = Some g \<and> gn_name g = target \<and>
       gn_name g \<noteq> fc_node_name (ne_cfg ea) \<and> gn_underlay_ip g \<noteq> fc_underlay_ip (ne_cfg ea)) \<and>
     activation_target (ne_cfg eb) hb target = Some (name, True) \<and> \<not> holds_vip eb hb vip b"

lemma handing_over_run:
  assumes "handing_over ea a ha eb b hb vip key target name"
  shows "\<exists>g peer. gn_name g = target \<and> hr_peers ha = [peer] \<and> hp_name peer = target \<and>
    switch_active_gateway ea (post_to eb link) key a (b, i) = hand_over ea (post_to eb link) ha g a (b, i)"
  using assms by (auto simp: handing_over_def switch_active_gateway_def switch_active_gateway_inner_def l2_gateway_def Let_def)

lemma commit_switch_ok:
  assumes "commit_switch env g ha applied n w = (r, n', w')"
  shows "nd_bound n' = nd_bound n \<and> w' = w \<and> (\<forall>x. r = Inr x \<longrightarrow> stored_active n' (gn_name g))"
  using assms node_write_active_ok [of env "gn_name g" n]
  by (auto simp: commit_switch_def split: prod.splits sum.splits)

text \<open>The four ways in which handing over ends.\<close>

lemma hand_over_cases:
  assumes h: "handing_over ea a ha eb b hb vip key target name"
    and run: "switch_active_gateway ea (post_to eb link) key a (b, i) = (r, a', (b', i'))"
  obtains (stuck) e where "r = Inl e" "b' = b"
  | (lost) e where "r = Inl e" "link i = RequestLost" "b' = b"
  | (failed) e where "r = Inl e" "link i = ResponseLost \<or> fst (peer_activate eb (Some target) b) \<noteq> 200" "b' = snd (peer_activate eb (Some target) b)"
  | (moved) "link i = Delivered" "peer_activate eb (Some target) b = (200, b')" "\<not> holds_vip ea ha vip a'"
      "\<forall>x. r = Inr x \<longrightarrow> stored_active a' target"
proof -
  obtain g peer where g: "gn_name g = target" "hr_peers ha = [peer]" "hp_name peer = target"
    "hand_over ea (post_to eb link) ha g a (b, i) = (r, a', (b', i'))"
    using handing_over_run [OF h, of link i] run by auto
  have la: "l2_gateway ea a ha vip" and lb: "l2_gateway eb b hb vip" "fc_node_role (ne_cfg eb) = Gateway"
    "activation_target (ne_cfg eb) hb target = Some (name, True)"
    using h by (auto simp: handing_over_def)
  have query: "\<And>i. ne_query_ok ea i" using la by (simp add: l2_gateway_def)
  obtain r1 a1 where r1: "apply_l2_role ea vip (snd (vip_slot ea ha vip)) False a = (r1, a1)" by (rule prod.exhaust)
  show thesis
  proof (cases r1)
    case (Inl e)
    then show thesis using g(4) r1 by (intro stuck [of e]) (auto simp: hand_over_def apply_role_l2 [OF la])
  next
    case (Inr x)
    have free: "\<not> holds_vip ea ha vip a1" using demote_l2 [OF query r1] Inr by (simp add: holds_vip_def vip_slot_def)
    obtain st b1 where st: "peer_activate eb (Some target) b = (st, b1)" by (rule prod.exhaust)
    have code: "st = 200 \<or> st = 500" using activation_outcome [OF lb st] by simp
    have ho: "(case (case post_to eb link peer target (b, i) of
         (Inl e, w) \<Rightarrow> (Inl e, w)
       | (Inr status, w) \<Rightarrow> if 200 \<le> status \<and> status < 300 then (Inr (), w) else (Inl (PeerRefused status), w)) of
        (Inl e, w) \<Rightarrow> (case restore_local_master_after_failed_handoff ea ha e a1 of (e, n) \<Rightarrow> (Inl e, n, w))
      | (Inr _, w) \<Rightarrow> commit_switch ea g ha default_role_result a1 w) = (r, a', (b', i'))"
      using g(4) r1 Inr by (simp add: hand_over_def apply_role_l2 [OF la] notify_single [OF g(2,3)] g(1))
    show thesis
    proof (cases "link i = Delivered \<and> st = 200")
      case True
      then have "commit_switch ea g ha default_role_result a1 (b1, i + 1) = (r, a', (b', i'))" using ho st by (simp add: post_to_def)
      from commit_switch_ok [OF this] show thesis
        using True st free g(1) by (intro moved) (auto simp: holds_vip_def)
    next
      case False
      then show thesis
        using ho st code lost failed by (cases "link i") (auto simp: post_to_def split: prod.splits)
    qed
  qed
qed

text \<open>The peer binds the address and then cannot announce it: the first gateway takes the address back.\<close>

lemma unannounced_handoff:
  assumes h: "handing_over ea a ha eb b hb vip key target name"
    and run: "switch_active_gateway ea (post_to eb link) key a (b, i) = (r, a', (b', i'))"
    and held: "holds_vip ea ha vip a" "ne_release_ok ea (nd_ops a + 2)" "ne_bind_ok ea (nd_ops a + 4)"
    and peer: "link i = Delivered" "ne_bind_ok eb (nd_ops b + 1)" "\<not> ne_announce_ok eb (nd_ops b + 2)"
  shows "holds_vip ea ha vip a' \<and> holds_vip eb hb vip b'"
proof -
  obtain g p where g: "gn_name g = target" "hr_peers ha = [p]" "hp_name p = target"
    "hand_over ea (post_to eb link) ha g a (b, i) = (r, a', (b', i'))"
    using handing_over_run [OF h, of link i] run by auto
  have la: "l2_gateway ea a ha vip" and lb: "l2_gateway eb b hb vip" "fc_node_role (ne_cfg eb) = Gateway"
    "activation_target (ne_cfg eb) hb target = Some (name, True)" "\<not> holds_vip eb hb vip b"
    using h by (auto simp: handing_over_def)
  have query: "ne_query_ok ea j" "ne_query_ok eb j" for j using la lb(1) by (simp_all add: l2_gateway_def)
  let ?dev = "snd (vip_slot ea ha vip)"
  have slots: "vip_slot ea ha vip = (vip, ?dev)" "vip_slot eb hb vip = (vip, snd (vip_slot eb hb vip))" by (simp_all add: vip_slot_def)
  have "apply_l2_role eb vip (snd (vip_slot eb hb vip)) True b =
      (Inl KernelFailed, b\<lparr>nd_ops := nd_ops b + 3, nd_bound := insert (vip_slot eb hb vip) (nd_bound b)\<rparr>)"
    using peer(2,3) lb(4) slots(2) query(2)
    by (simp add: apply_l2_role_def vip_bound_on_device_def bind_and_announce_def bind_vip_on_device_def announce_vip_def tick_def holds_vip_def)
  then have act: "peer_activate eb (Some target) b = (500, b\<lparr>nd_ops := nd_ops b + 3, nd_bound := insert (vip_slot eb hb vip) (nd_bound b)\<rparr>)"
    by (simp add: peer_activate_l2 [OF lb(1-3)])
  define a1 where "a1 = a\<lparr>nd_ops := nd_ops a + 3, nd_bound := nd_bound a - {(vip, ?dev)}\<rparr>"
  have down: "apply_local_ha_role ea ha False True a = (Inr default_role_result, a1)"
    using held(1,2) slots(1) query(1)
    by (simp add: apply_role_l2 [OF la] apply_l2_role_def vip_bound_on_device_def release_vip_on_device_def tick_def holds_vip_def Let_def a1_def)
  have "(vip, ?dev) \<in> nd_bound (snd (apply_local_ha_role ea ha True True a1))"
    using held(3) [unfolded add.commute [of _ 4]] query(1)
    by (simp add: apply_role_l2 [OF la] apply_l2_role_def vip_bound_on_device_def bind_and_announce_def bind_vip_on_device_def
        announce_vip_def tick_def Let_def a1_def split: sum.split)
  then have "(vip, ?dev) \<in> nd_bound (snd (restore_local_master_after_failed_handoff ea ha e a1))" for e
    by (auto simp: restore_local_master_after_failed_handoff_def split: prod.splits sum.splits)
  moreover have "a' = snd (restore_local_master_after_failed_handoff ea ha (PeerRefused 500) a1) \<and>
      b' = b\<lparr>nd_ops := nd_ops b + 3, nd_bound := insert (vip_slot eb hb vip) (nd_bound b)\<rparr>"
    using g(4) down by (simp add: hand_over_def notify_single [OF g(2,3)] g(1) post_to_def peer(1) act split: prod.splits)
  ultimately show ?thesis using slots(1) by (simp add: holds_vip_def)
qed


definition shared_vip :: u32 where "shared_vip = 0xC00002C8"

definition vip_ha :: "GatewayHaPeer \<Rightarrow> GatewayHaRuntimeConfig" where
  "vip_ha peer = default_ha_runtime_config\<lparr>hr_enabled := True, hr_peers := [peer],
     hr_vip := default_vip_config\<lparr>vip_provider := L2, vip_private_vip := Some (show_ipv4 shared_vip)\<rparr>\<rparr>"

definition vip_node :: "GatewayHaPeer \<Rightarrow> (u32 \<times> string) set \<Rightarrow> node" where
  "vip_node peer bound = \<lparr>nd_store = \<lparr>gs_repo = repo_of [((''ha'', ''config''), cd_ha text_codec (vip_ha peer)),
       ((''ha_active_gateway'', ''current''), ''gw-a'')], gs_last = 1\<rparr>,
     nd_bound = bound, nd_last_hook = None, nd_hook_runs = [], nd_ops = 0\<rparr>"

definition vip_env :: "FileConfig \<Rightarrow> bool \<Rightarrow> node_env" where
  "vip_env cfg announces = \<lparr>ne_gateway = \<lparr>ge_storage = sample_storage, ge_codec = text_codec, ge_clock_ms = 5\<rparr>, ne_cfg = cfg,
     ne_query_ok = (\<lambda>_. True), ne_bind_ok = (\<lambda>_. True), ne_release_ok = (\<lambda>_. True), ne_announce_ok = (\<lambda>_. announces),
     ne_scripts_ok = (\<lambda>_. True), ne_hook_ok = (\<lambda>_. True)\<rparr>"

abbreviation vip_a :: node where "vip_a \<equiv> vip_node (pair_peer ''gw-b'' (show_ipv4 0xC000020B)) {(shared_vip, ''lo'')}"

abbreviation vip_b :: node where "vip_b \<equiv> vip_node (pair_peer ''gw-a'' (show_ipv4 0xC000020A)) {}"

abbreviation vip_ha_of :: "GatewayHaPeer \<Rightarrow> GatewayHaRuntimeConfig" where
  "vip_ha_of peer \<equiv> normalize_runtime_config (vip_ha peer)"

lemma vip_node_sel [simp]: "nd_bound (vip_node peer bound) = bound" "nd_ops (vip_node peer bound) = 0"
  by (simp_all add: vip_node_def)

lemma vip_env_sel [simp]:
  "ne_query_ok (vip_env cfg x) i" "ne_bind_ok (vip_env cfg x) i" "ne_release_ok (vip_env cfg x) i" "ne_announce_ok (vip_env cfg x) i = x"
  by (simp_all add: vip_env_def)

lemma parse_ipv4_addr_show: "parse_ipv4_addr (show_ipv4 a) = Some a"
proof -
  have "length (show_nat (octet i a)) \<le> 3" for i
    by (rule length_show_nat) (simp_all add: less_trans [OF octet_lt])
  from this [of 0] this [of 1] this [of 2] this [of 3] have "length (show_ipv4 a) \<le> 15" by (simp add: show_ipv4_def)
  then show ?thesis using read_ipv4_addr_show [of "[]" a] by (simp add: parse_ipv4_addr_def)
qed

lemma vip_node_l2: "l2_gateway (vip_env cfg announces) (vip_node peer bound) (vip_ha_of peer) shared_vip"
  by (simp add: l2_gateway_def load_ha_def load_for_state_dir_def get_payload_def repo_of_def vip_node_def vip_env_def text_codec_simps
      vip_ha_def normalize_runtime_config_def default_vip_config_def parse_ipv4_addr_show Let_def default_ha_runtime_config_def)

lemma vip_slot_loopback: "vip_slot (vip_env cfg announces) (vip_ha_of peer) v = (v, ''lo'')"
  by (simp add: vip_slot_def vip_device_def vip_ha_def normalize_runtime_config_def default_vip_config_def Let_def default_ha_runtime_config_def)

lemma vip_handing_over:
  "handing_over (vip_env (pair_cfg ''gw-a'' 0xC000020A) x) vip_a (vip_ha_of (pair_peer ''gw-b'' (show_ipv4 0xC000020B)))
     (vip_env (pair_cfg ''gw-b'' 0xC000020B) y) vip_b (vip_ha_of (pair_peer ''gw-a'' (show_ipv4 0xC000020A))) shared_vip ''gw-b'' ''gw-b'' ''gw-b''"
  unfolding handing_over_def holds_vip_def vip_slot_loopback
  using vip_node_l2 names_are_no_addresses [of "''gw-b''" "0xC000020A"]
  by (auto simp: vip_node_def vip_env_def pair_cfg_def pair_peer_def vip_ha_def normalize_runtime_config_def Let_def switch_target_def
      gateway_by_key_def peer_as_gateway_def activation_target_def sample_config_def default_file_config_def default_ha_runtime_config_def
      show_ip_def)

lemma vip_write_active: "\<exists>n'. node_write_active (vip_env cfg x) name (vip_node peer bound\<lparr>nd_ops := k, nd_bound := b\<rparr>) = (Inr (), n')"
  by (simp add: node_write_active_def write_active_gateway_def store_put_def put_def insert_revision_def upsert_document_def next_revision_def
      vip_node_def vip_env_def repo_of_def sample_storage_def Let_def)

lemma vip_hand_over_succeeds:
  "\<exists>r a' w'. switch_active_gateway (vip_env (pair_cfg ''gw-a'' 0xC000020A) x)
     (post_to (vip_env (pair_cfg ''gw-b'' 0xC000020B) True) (\<lambda>_. Delivered)) ''gw-b'' vip_a (vip_b, 0) = (Inr r, a', w')"
proof -
  let ?ea = "vip_env (pair_cfg ''gw-a'' 0xC000020A) x" and ?eb = "vip_env (pair_cfg ''gw-b'' 0xC000020B) True"
  let ?pa = "pair_peer ''gw-b'' (show_ipv4 0xC000020B)" and ?pb = "pair_peer ''gw-a'' (show_ipv4 0xC000020A)"
  note h = vip_handing_over [of x True]
  obtain g peer where g: "gn_name g = ''gw-b''" "hr_peers (vip_ha_of ?pa) = [peer]" "hp_name peer = ''gw-b''"
    "switch_active_gateway ?ea (post_to ?eb (\<lambda>_. Delivered)) ''gw-b'' vip_a (vip_b, 0) =
     hand_over ?ea (post_to ?eb (\<lambda>_. Delivered)) (vip_ha_of ?pa) g vip_a (vip_b, 0)"
    using handing_over_run [OF h] by blast
  have lb: "fc_node_role (ne_cfg ?eb) = Gateway" "activation_target (ne_cfg ?eb) (vip_ha_of ?pb) ''gw-b'' = Some (''gw-b'', True)"
    using h by (simp_all add: handing_over_def)
  have up: "apply_l2_role ?eb shared_vip ''lo'' True vip_b =
      (Inr \<lparr>lh_garp_announced = True, lh_vip_bound = True\<rparr>, vip_b\<lparr>nd_ops := 3, nd_bound := {(shared_vip, ''lo'')}\<rparr>)"
    by (simp add: apply_l2_role_def vip_bound_on_device_def bind_and_announce_def bind_vip_on_device_def announce_vip_def tick_def)
  obtain b' where b': "node_write_active ?eb ''gw-b'' (vip_b\<lparr>nd_ops := 3, nd_bound := {(shared_vip, ''lo'')}\<rparr>) = (Inr (), b')"
    using vip_write_active by blast
  have act: "peer_activate ?eb (Some ''gw-b'') vip_b = (200, b')"
    using up b' by (simp add: peer_activate_l2 [OF vip_node_l2 lb] vip_slot_loopback write_activation_def)
  have down: "apply_local_ha_role ?ea (vip_ha_of ?pa) False True vip_a = (Inr default_role_result, vip_a\<lparr>nd_ops := 3, nd_bound := {}\<rparr>)"
    by (simp add: apply_role_l2 [OF vip_node_l2] vip_slot_loopback apply_l2_role_def vip_bound_on_device_def release_vip_on_device_def
        tick_def Let_def)
  obtain a' where "node_write_active ?ea ''gw-b'' (vip_a\<lparr>nd_ops := 3, nd_bound := {}\<rparr>) = (Inr (), a')"
    using vip_write_active by blast
  then show ?thesis
    using g down act by (simp add: hand_over_def notify_single [OF g(2,3)] post_to_def commit_switch_def)
qed


end
