(* ===== verification/Bfd_Election.thy ===== *)
theory Bfd_Election
  imports Ha_Failover
begin

text \<open>
  Liveness of the peer and the election (\<^verbatim>\<open>edge-lb/src/runtime/bfd.rs\<close>): authenticated control packets,
  the loop that sends and receives them and watches the detection time, the queue of election requests
  and their handling.  The protocol machine of the crate \<^verbatim>\<open>wren_bfd\<close>, HMAC-SHA-256 and the JSON reader are
  parameters; the socket, the clock and the reachability of the peer are arguments.  Times are in
  milliseconds.
\<close>

section \<open>Status\<close>

record BfdStatus =
  bs_peer_ip :: "string option"
  bs_source_ip :: "string option"
  bs_state :: string
  bs_last_rx_ms :: "nat option"
  bs_last_error :: "string option"

definition initial_bfd_status :: BfdStatus where
  "initial_bfd_status = \<lparr>bs_peer_ip = None, bs_source_ip = None, bs_state = ''disabled'', bs_last_rx_ms = None, bs_last_error = None\<rparr>"

definition set_bfd_state :: "string \<Rightarrow> string option \<Rightarrow> string option \<Rightarrow> BfdStatus \<Rightarrow> BfdStatus" where
  "set_bfd_state state_value peer_ip source_ip v =
     (let v1 = v\<lparr>bs_state := state_value, bs_peer_ip := peer_ip, bs_source_ip := source_ip, bs_last_error := None\<rparr> in
      if state_value = ''up'' then v1\<lparr>bs_last_rx_ms := Some 0\<rparr> else v1)"

definition set_bfd_error :: "string \<Rightarrow> BfdStatus \<Rightarrow> BfdStatus" where
  "set_bfd_error error v = v\<lparr>bs_state := ''error'', bs_last_error := Some error\<rparr>"

section \<open>Packets\<close>

text \<open>A session \<open>'s\<close> and a control packet \<open>'c\<close> of \<^verbatim>\<open>wren_bfd\<close>; a transition is reported by the labels of the two
  states.\<close>

record ('s, 'c) bfd_ops =
  bo_mandatory_len :: nat
  bo_encode :: "'c \<Rightarrow> bytes"
  bo_decode :: "bytes \<Rightarrow> 'c option"
  bo_new :: "u32 \<Rightarrow> u32 \<times> u32 \<times> u8 \<Rightarrow> 's"
  bo_build_control :: "'s \<Rightarrow> 'c"
  bo_on_packet :: "'s \<Rightarrow> 'c \<Rightarrow> (string \<times> string) option \<times> 's"
  bo_is_up :: "'s \<Rightarrow> bool"
  bo_on_detect_timeout :: "'s \<Rightarrow> 's"
  bo_hmac :: "bytes \<Rightarrow> bytes \<Rightarrow> bytes"

definition AUTH_LEN :: nat where "AUTH_LEN = 32"

definition BFD_PACKET_LEN :: "('s, 'c) bfd_ops \<Rightarrow> nat" where
  "BFD_PACKET_LEN ops = bo_mandatory_len ops + AUTH_LEN"

definition authenticated_packet :: "('s, 'c) bfd_ops \<Rightarrow> 'c \<Rightarrow> string \<Rightarrow> bytes" where
  "authenticated_packet ops control token =
     (let encoded = bo_encode ops control in encoded @ bo_hmac ops (as_bytes token) encoded)"

definition parse_control :: "('s, 'c) bfd_ops \<Rightarrow> bytes \<Rightarrow> string \<Rightarrow> 'c option" where
  "parse_control ops packet token =
     (if length packet < BFD_PACKET_LEN ops then None
      else
        let header = take (bo_mandatory_len ops) packet;
            trailer = take AUTH_LEN (drop (bo_mandatory_len ops) packet) in
        if bo_hmac ops (as_bytes token) header \<noteq> trailer then None else bo_decode ops header)"

definition rotate_left5 :: "u32 \<Rightarrow> u32" where
  "rotate_left5 x = push_bit 5 x OR drop_bit 27 x"

text \<open>The eight 16-bit segments of an IPv6 address are folded into the discriminator.\<close>

definition discriminator :: "IpAddr \<Rightarrow> u32" where
  "discriminator ip =
     (case ip of
        V4 a \<Rightarrow> a
      | V6 a \<Rightarrow> foldl (\<lambda>hash part. rotate_left5 hash XOR part) 0
          (map (\<lambda>i. ucast (take_bit 16 (drop_bit (112 - 16 * i) a))) [0..<8]))"

section \<open>The loop\<close>

record bfd_params =
  bp_peer_ip :: IpAddr
  bp_source_ip :: IpAddr
  bp_token :: string
  bp_bfd :: BfdConfig

definition bfd_interval_ms :: "BfdConfig \<Rightarrow> u64" where
  "bfd_interval_ms c = max (bfc_interval_ms c) 50"

definition try_u32 :: "u64 \<Rightarrow> u32" where
  "try_u32 x = (if unat x < 2 ^ 32 then ucast x else - 1)"

definition session_config :: "BfdConfig \<Rightarrow> u32 \<times> u32 \<times> u8" where
  "session_config c =
     (let us = try_u32 (saturating_mul (bfd_interval_ms c) 1000); mult = max (bfc_detect_multiplier c) 1 in
      (us, us, if unat mult < 256 then ucast mult else - 1))"

definition detection_ms :: "BfdConfig \<Rightarrow> u64" where
  "detection_ms c = bfd_interval_ms c * ucast (max (bfc_detect_multiplier c) 1)"

record 's bfd_loop =
  bl_session :: 's
  bl_last_rx :: "nat option"
  bl_last_tx :: nat
  bl_was_up :: bool
  bl_status :: BfdStatus
  bl_sent :: "bytes list"
  bl_published :: "(string \<times> string) list"

text \<open>What happens in one round: when the clock is read for sending, whether sending succeeds, what is
  received and when, and when the detection time is checked.\<close>

datatype bfd_recv = Datagram IpAddr bytes | NothingReceived | ReceiveFailed string

record bfd_round =
  br_now_tx :: nat
  br_send_ok :: bool
  br_recv :: bfd_recv
  br_now_rx :: nat
  br_now_check :: nat

definition start_loop :: "('s, 'c) bfd_ops \<Rightarrow> bfd_params \<Rightarrow> nat \<Rightarrow> BfdStatus \<Rightarrow> 's bfd_loop" where
  "start_loop ops p now status =
     \<lparr>bl_session = bo_new ops (discriminator (bp_source_ip p)) (session_config (bp_bfd p)), bl_last_rx = None,
      bl_last_tx = now - 1000, bl_was_up = False,
      bl_status = set_bfd_state ''down'' (Some (show_ip (bp_peer_ip p))) (Some (show_ip (bp_source_ip p))) status,
      bl_sent = [], bl_published = []\<rparr>"

definition bfd_transmit :: "('s, 'c) bfd_ops \<Rightarrow> bfd_params \<Rightarrow> bfd_round \<Rightarrow> 's bfd_loop \<Rightarrow> 's bfd_loop" where
  "bfd_transmit ops p rnd l =
     (if br_now_tx rnd - bl_last_tx l \<ge> unat (bfd_interval_ms (bp_bfd p)) then
        let packet = authenticated_packet ops (bo_build_control ops (bl_session l)) (bp_token p) in
        if br_send_ok rnd then l\<lparr>bl_sent := bl_sent l @ [packet], bl_last_tx := br_now_tx rnd\<rparr>
        else l\<lparr>bl_status := set_bfd_error ''sending BFD packet'' (bl_status l), bl_last_tx := br_now_tx rnd\<rparr>
      else l)"

definition publish_bfd_transition :: "string \<Rightarrow> string \<Rightarrow> 's bfd_loop \<Rightarrow> 's bfd_loop" where
  "publish_bfd_transition from_label to_label l =
     (if from_label = to_label then l else l\<lparr>bl_published := bl_published l @ [(from_label, to_label)]\<rparr>)"

text \<open>An election request carries whether the peer was up; it is listed with the state that the status shows when
  it is queued.\<close>

type_synonym election_request = "bool \<times> string"

definition set_loop_state :: "bfd_params \<Rightarrow> string \<Rightarrow> 's bfd_loop \<Rightarrow> 's bfd_loop" where
  "set_loop_state p state l =
     l\<lparr>bl_status := set_bfd_state state (Some (show_ip (bp_peer_ip p))) (Some (show_ip (bp_source_ip p))) (bl_status l)\<rparr>"

definition on_control ::
    "('s, 'c) bfd_ops \<Rightarrow> bfd_params \<Rightarrow> bfd_round \<Rightarrow> 'c \<Rightarrow> 's bfd_loop \<Rightarrow> 's bfd_loop \<times> election_request list" where
  "on_control ops p rnd control l =
     (case bo_on_packet ops (bl_session l) control of (transition, session) \<Rightarrow>
      let up = bo_is_up ops session;
          l1 = set_loop_state p (if up then ''up'' else ''negotiating'')
            (l\<lparr>bl_session := session, bl_last_rx := Some (br_now_rx rnd), bl_was_up := up\<rparr>) in
      case transition of
        None \<Rightarrow> (l1, [])
      | Some (from_label, to_label) \<Rightarrow>
          (publish_bfd_transition from_label to_label l1, [(up, bs_state (bl_status l1))]))"

definition receive_round ::
    "('s, 'c) bfd_ops \<Rightarrow> bfd_params \<Rightarrow> bfd_round \<Rightarrow> 's bfd_loop \<Rightarrow> 's bfd_loop \<times> election_request list" where
  "receive_round ops p rnd l =
     (case br_recv rnd of
        Datagram source packet \<Rightarrow>
          if source = bp_peer_ip p then
            case parse_control ops (take 64 packet) (bp_token p) of
              None \<Rightarrow> (l, [])
            | Some control \<Rightarrow> on_control ops p rnd control l
          else (l, [])
      | NothingReceived \<Rightarrow> (l, [])
      | ReceiveFailed error \<Rightarrow> (l\<lparr>bl_status := set_bfd_error error (bl_status l)\<rparr>, []))"

definition silent_too_long :: "bfd_params \<Rightarrow> bfd_round \<Rightarrow> 's bfd_loop \<Rightarrow> bool" where
  "silent_too_long p rnd l =
     (case bl_last_rx l of
        None \<Rightarrow> True
      | Some received \<Rightarrow> br_now_check rnd - received > unat (detection_ms (bp_bfd p)))"

definition check_detection ::
    "('s, 'c) bfd_ops \<Rightarrow> bfd_params \<Rightarrow> bfd_round \<Rightarrow> 's bfd_loop \<Rightarrow> 's bfd_loop \<times> election_request list" where
  "check_detection ops p rnd l =
     (if silent_too_long p rnd l then
        let peer_was_up = bl_was_up l;
            l1 = set_loop_state p ''down'' (l\<lparr>bl_was_up := False, bl_session := bo_on_detect_timeout ops (bl_session l)\<rparr>) in
        if peer_was_up then (publish_bfd_transition ''up'' ''down'' l1, [(True, bs_state (bl_status l1))])
        else (l1, [])
      else (l, []))"

definition bfd_iteration ::
    "('s, 'c) bfd_ops \<Rightarrow> bfd_params \<Rightarrow> bfd_round \<Rightarrow> 's bfd_loop \<Rightarrow> 's bfd_loop \<times> election_request list" where
  "bfd_iteration ops p rnd l =
     (case receive_round ops p rnd (bfd_transmit ops p rnd l) of (l1, reqs1) \<Rightarrow>
      case check_detection ops p rnd l1 of (l2, reqs2) \<Rightarrow> (l2, reqs1 @ reqs2))"

text \<open>The channel to the election worker holds eight requests; more are dropped.\<close>

definition queue_election :: "bool \<Rightarrow> bool list \<Rightarrow> bool list" where
  "queue_election peer_was_up queue = (if length queue < 8 then queue @ [peer_was_up] else queue)"

text \<open>What \<open>run\<close> does before its loop: it ends with a status, or has the parameters of the loop.\<close>

definition prepare_run ::
    "codec \<Rightarrow> FileConfig \<Rightarrow> bool \<Rightarrow> Repository \<Rightarrow> BfdStatus \<Rightarrow> BfdStatus + bfd_params" where
  "prepare_run c cfg bind_ok repo status =
     (let source_ip = Some (show_ip (fc_underlay_ip cfg)) in
      case load_for_state_dir c repo of
        Inl _ \<Rightarrow> Inl (set_bfd_error ''loading HA config'' status)
      | Inr ha_cfg \<Rightarrow>
          if \<not> hr_enabled ha_cfg \<or> hr_failover ha_cfg \<noteq> BfdAuto then Inl (set_bfd_state ''disabled'' None source_ip status)
          else case hr_peers ha_cfg of
            [] \<Rightarrow> Inl (set_bfd_state ''unconfigured'' None source_ip status)
          | peer # _ \<Rightarrow>
              (case parse_ip_addr (hp_underlay_ip peer) of
                 None \<Rightarrow> Inl (set_bfd_error (''invalid BFD peer address '' @ hp_underlay_ip peer) status)
               | Some peer_ip \<Rightarrow>
                   if \<not> bind_ok then Inl (set_bfd_error ''binding'' status)
                   else case load_secrets_for_state_dir c repo of
                     Inl _ \<Rightarrow> Inl (set_bfd_error ''loading BFD peer token'' status)
                   | Inr (Some secret) \<Rightarrow>
                       if sec_session_token secret \<noteq> []
                       then Inr \<lparr>bp_peer_ip = peer_ip, bp_source_ip = fc_underlay_ip cfg, bp_token = sec_session_token secret,
                         bp_bfd = hr_bfd ha_cfg\<rparr>
                       else Inl (set_bfd_error ''BFD peer token is unavailable'' status)
                   | Inr None \<Rightarrow> Inl (set_bfd_error ''BFD peer token is unavailable'' status)))"

section \<open>The election\<close>

definition should_promote_local :: "string \<Rightarrow> string option \<Rightarrow> string \<Rightarrow> bool \<Rightarrow> bool \<Rightarrow> bool \<Rightarrow> bool" where
  "should_promote_local local_name preferred_active bfd_state peer_was_up active_is_peer active_peer_reachable =
     (if bfd_state = ''up'' then False
      else if bfd_state = ''down'' then
        peer_was_up \<or>
        (active_is_peer \<and> \<not> active_peer_reachable \<and> preferred_active \<noteq> Some local_name) \<or>
        (\<not> active_is_peer \<and> preferred_active = Some local_name)
      else False)"

text \<open>The address that is probed; \<open>connects\<close> is whether a TCP connection to it succeeds in time.\<close>

definition reachability_target :: "FileConfig \<Rightarrow> GatewayHaRuntimeConfig \<Rightarrow> GatewayHaPeer \<Rightarrow> (IpAddr \<times> u16) option" where
  "reachability_target cfg ha_cfg peer =
     (case (case hp_xds_addr peer of None \<Rightarrow> None | Some addr \<Rightarrow> parse_socket_addr addr) of
        Some target \<Rightarrow> Some target
      | None \<Rightarrow>
          (case parse_ip_addr (hp_underlay_ip peer) of
             None \<Rightarrow> None
           | Some ip \<Rightarrow> Some (ip, case parse_socket_addr (cpc_listen (fc_control_plane cfg)) of
                 Some addr \<Rightarrow> snd addr | None \<Rightarrow> xsc_port (hr_xsync ha_cfg))))"

definition peer_control_plane_reachable ::
    "(IpAddr \<times> u16 \<Rightarrow> bool) \<Rightarrow> FileConfig \<Rightarrow> GatewayHaRuntimeConfig \<Rightarrow> GatewayHaPeer \<Rightarrow> bool" where
  "peer_control_plane_reachable connects cfg ha_cfg peer =
     (case reachability_target cfg ha_cfg peer of None \<Rightarrow> False | Some target \<Rightarrow> connects target)"

text \<open>JSON values \<open>'j\<close> and their reader are those of \<^verbatim>\<open>serde_json\<close>.\<close>

record 'j json_ops =
  jo_from_str :: "string \<Rightarrow> 'j option"
  jo_get :: "'j \<Rightarrow> string \<Rightarrow> 'j option"
  jo_as_str :: "'j \<Rightarrow> string option"
  jo_as_i64 :: "'j \<Rightarrow> int option"

definition peer_status_is_newer_master :: "'j json_ops \<Rightarrow> string \<Rightarrow> GatewayHaPeer \<Rightarrow> int \<Rightarrow> bool" where
  "peer_status_is_newer_master js body peer local_revision =
     (case jo_from_str js body of
        None \<Rightarrow> False
      | Some v \<Rightarrow>
          (case jo_get js v ''native'' of
             None \<Rightarrow> False
           | Some native \<Rightarrow>
               let text = (\<lambda>field. Option.bind (jo_get js native field) (jo_as_str js)) in
               if text ''state'' \<noteq> Some ''MASTER'' then False
               else
                 let peer_is_active = (case (text ''active_gateway'', text ''node'') of
                       (Some active, Some node) \<Rightarrow> active = node \<and> (node = hp_name peer \<or> active = hp_name peer)
                     | _ \<Rightarrow> False) in
                 peer_is_active \<and>
                 unwrap_or (Option.bind (jo_get js native ''active_revision'') (jo_as_i64 js)) 0 > local_revision))"

text \<open>\<open>response\<close> is the answer of the peer, if there is one.\<close>

definition peer_reports_newer_master ::
    "'j json_ops \<Rightarrow> (nat \<times> string) option \<Rightarrow> Repository \<Rightarrow> GatewayHaPeer \<Rightarrow> bool" where
  "peer_reports_newer_master js response repo peer =
     (let local_revision = unwrap_or (active_gateway_revision repo) 0 in
      case response of
        None \<Rightarrow> False
      | Some (status, body) \<Rightarrow> 200 \<le> status \<and> status < 300 \<and> peer_status_is_newer_master js body peer local_revision)"

record 'j election_env =
  ee_json :: "'j json_ops"
  ee_connects :: "IpAddr \<times> u16 \<Rightarrow> bool"
  ee_response :: "(nat \<times> string) option"

datatype election_outcome =
    Adopted string "failover_error + SwitchActiveResult" | Promoted "failover_error + SwitchActiveResult" | NoElection

definition active_is_peer_of :: "node_env \<Rightarrow> GatewayHaRuntimeConfig \<Rightarrow> node \<Rightarrow> bool" where
  "active_is_peer_of env ha_cfg n =
     (case (active_gateway (ge_codec (ne_gateway env)) (ne_cfg env) (gs_repo (nd_store n)), hr_peers ha_cfg) of
        (Inr active, peer # _) \<Rightarrow> gn_name active = hp_name peer \<or> show_ip (gn_underlay_ip active) = hp_underlay_ip peer
      | _ \<Rightarrow> False)"

definition reconcile_election ::
    "node_env \<Rightarrow> 'w post \<Rightarrow> 'j election_env \<Rightarrow> GatewayHaRuntimeConfig \<Rightarrow> string \<Rightarrow> bool \<Rightarrow> node \<Rightarrow> 'w \<Rightarrow>
     election_outcome \<times> node \<times> 'w" where
  "reconcile_election env post ee ha_cfg state peer_was_up n w =
     (let cfg = ne_cfg env;
          already_local = local_gateway_is_active env n;
          active_is_peer = active_is_peer_of env ha_cfg n;
          active_peer_reachable = (active_is_peer \<and> \<not> peer_was_up \<and>
            (case hr_peers ha_cfg of [] \<Rightarrow> False | peer # _ \<Rightarrow> peer_control_plane_reachable (ee_connects ee) cfg ha_cfg peer));
          adopt = (case hr_peers ha_cfg of
             [] \<Rightarrow> False
           | peer # _ \<Rightarrow> state = ''up'' \<and> already_local \<and>
               peer_reports_newer_master (ee_json ee) (ee_response ee) (gs_repo (nd_store n)) peer) in
      if adopt then
        (case switch_active_gateway env post (hp_name (hd (hr_peers ha_cfg))) n w of
           (r, n, w) \<Rightarrow> (Adopted (hp_name (hd (hr_peers ha_cfg))) r, n, w))
      else if should_promote_local (fc_node_name cfg) (hr_preferred_active ha_cfg) state peer_was_up active_is_peer active_peer_reachable \<and>
          \<not> already_local then
        (case switch_active_gateway env post (fc_node_name cfg) n w of (r, n, w) \<Rightarrow> (Promoted r, n, w))
      else (NoElection, n, w))"

section \<open>Packets are authenticated\<close>

definition bfd_ops_ok :: "('s, 'c) bfd_ops \<Rightarrow> bool" where
  "bfd_ops_ok ops \<longleftrightarrow> (\<forall>c. length (bo_encode ops c) = bo_mandatory_len ops \<and> bo_decode ops (bo_encode ops c) = Some c) \<and>
     (\<forall>key msg. length (bo_hmac ops key msg) = 32)"

lemma packet_round_trip: "bfd_ops_ok ops \<Longrightarrow> parse_control ops (authenticated_packet ops control token) token = Some control"
  by (simp add: bfd_ops_ok_def parse_control_def authenticated_packet_def BFD_PACKET_LEN_def AUTH_LEN_def Let_def)

lemma parsed_is_authentic:
  "parse_control ops packet token = Some control \<Longrightarrow>
   \<exists>header rest. packet = header @ bo_hmac ops (as_bytes token) header @ rest \<and> length header = bo_mandatory_len ops \<and>
     bo_decode ops header = Some control"
  by (rule exI [of _ "take (bo_mandatory_len ops) packet"], rule exI [of _ "drop 32 (drop (bo_mandatory_len ops) packet)"])
    (auto simp: parse_control_def BFD_PACKET_LEN_def AUTH_LEN_def Let_def simp del: drop_drop split: if_splits)

section \<open>Promotion\<close>

inductive bfd_reach :: "('s, 'c) bfd_ops \<Rightarrow> bfd_params \<Rightarrow> 's bfd_loop \<Rightarrow> bool" for ops p where
  started: "bfd_reach ops p (start_loop ops p now status)"
| turned: "bfd_reach ops p l \<Longrightarrow> bfd_iteration ops p rnd l = (l', reqs) \<Longrightarrow> bfd_reach ops p l'"

definition up_is_heard :: "('s, 'c) bfd_ops \<Rightarrow> 's bfd_loop \<Rightarrow> bool" where
  "up_is_heard ops l \<longleftrightarrow> (bl_was_up l \<longrightarrow> bo_is_up ops (bl_session l) \<and> bl_last_rx l \<noteq> None)"

lemma transmit_keeps: "bl_session (bfd_transmit ops p rnd l) = bl_session l" "bl_last_rx (bfd_transmit ops p rnd l) = bl_last_rx l"
  "bl_was_up (bfd_transmit ops p rnd l) = bl_was_up l"
  by (simp_all add: bfd_transmit_def Let_def)

lemma publish_keeps: "bl_session (publish_bfd_transition a b l) = bl_session l" "bl_last_rx (publish_bfd_transition a b l) = bl_last_rx l"
  "bl_was_up (publish_bfd_transition a b l) = bl_was_up l" "bl_status (publish_bfd_transition a b l) = bl_status l"
  by (simp_all add: publish_bfd_transition_def)

lemma set_loop_state_sel: "bl_session (set_loop_state p st l) = bl_session l" "bl_last_rx (set_loop_state p st l) = bl_last_rx l"
  "bl_was_up (set_loop_state p st l) = bl_was_up l" "bs_state (bl_status (set_loop_state p st l)) = st"
  by (simp_all add: set_loop_state_def set_bfd_state_def Let_def)

lemmas loop_keeps = transmit_keeps publish_keeps set_loop_state_sel

lemma receive_up_is_heard: "up_is_heard ops l \<Longrightarrow> up_is_heard ops (fst (receive_round ops p rnd l))"
  by (auto simp: receive_round_def on_control_def up_is_heard_def loop_keeps Let_def split: bfd_recv.split option.split prod.split)

lemma transmit_up_is_heard: "up_is_heard ops l \<Longrightarrow> up_is_heard ops (bfd_transmit ops p rnd l)"
  by (simp add: up_is_heard_def loop_keeps)

lemma check_up_is_heard: "up_is_heard ops l \<Longrightarrow> up_is_heard ops (fst (check_detection ops p rnd l))"
  by (auto simp: check_detection_def up_is_heard_def loop_keeps Let_def)

lemma reach_up_is_heard: "bfd_reach ops p l \<Longrightarrow> up_is_heard ops l"
proof (induction rule: bfd_reach.induct)
  case (started now status)
  show ?case by (simp add: start_loop_def up_is_heard_def)
next
  case (turned l rnd l' reqs)
  have "l' = fst (check_detection ops p rnd (fst (receive_round ops p rnd (bfd_transmit ops p rnd l))))"
    using turned.hyps(2) by (auto simp: bfd_iteration_def split: prod.splits)
  then show ?case using turned.IH by (simp add: check_up_is_heard receive_up_is_heard transmit_up_is_heard)
qed

text \<open>The requests of a packet are never made in the state \<^verbatim>\<open>down\<close>; the only request that is comes from a session that was up.\<close>

lemma receive_requests: "(pwu, st) \<in> set (snd (receive_round ops p rnd l)) \<Longrightarrow> st = (if pwu then ''up'' else ''negotiating'')"
  by (auto simp: receive_round_def on_control_def loop_keeps Let_def split: bfd_recv.splits option.splits prod.splits if_splits)

lemma check_requests:
  "set (snd (check_detection ops p rnd l)) = (if silent_too_long p rnd l \<and> bl_was_up l then {(True, ''down'')} else {})"
  by (simp add: check_detection_def loop_keeps Let_def)

text \<open>The peer was up when it was last heard, and has been silent for longer than the detection time.\<close>

definition peer_lost :: "('s, 'c) bfd_ops \<Rightarrow> bfd_params \<Rightarrow> bfd_round \<Rightarrow> 's bfd_loop \<Rightarrow> bool" where
  "peer_lost ops p rnd l \<longleftrightarrow> bl_was_up l \<and> bo_is_up ops (bl_session l) \<and>
     (\<exists>t. bl_last_rx l = Some t \<and> br_now_check rnd - t > unat (detection_ms (bp_bfd p)))"

lemma peer_lost_iff: "up_is_heard ops l \<Longrightarrow> peer_lost ops p rnd l \<longleftrightarrow> bl_was_up l \<and> silent_too_long p rnd l"
  by (auto simp: up_is_heard_def peer_lost_def silent_too_long_def split: option.splits)

lemma promoted_iff:
  assumes "st = ''down'' \<longrightarrow> pwu" "pwu \<or> st \<noteq> ''down''"
  shows "(\<exists>r n' w'. reconcile_election env post ee ha_cfg st pwu n w = (Promoted r, n', w')) \<longleftrightarrow>
    st = ''down'' \<and> pwu \<and> \<not> local_gateway_is_active env n"
proof (cases "st = ''down''")
  case True
  obtain r n' w' where "switch_active_gateway env post (fc_node_name (ne_cfg env)) n w = (r, n', w')" by (metis prod.exhaust)
  then show ?thesis
    using True assms by (auto simp: reconcile_election_def should_promote_local_def Let_def split: list.splits)
next
  case False
  then show ?thesis
    by (auto simp: reconcile_election_def should_promote_local_def Let_def split: list.splits prod.splits if_splits)
qed

text \<open>C40. A gateway promotes itself exactly when it loses a session.  In every state that the loop can reach, a
  round makes a request that ends in a promotion, when it is handled in the state in which it was
  queued, if and only if the peer was up when it was last heard, nothing authentic has come from it for
  longer than the detection time, and the local gateway is not active yet.  Preference, the recorded
  active gateway and the reachability of the peer do not matter: in particular a session that has never
  been up leads to no promotion at all, although two of the three rules are for that case.\<close>

theorem promotion_iff_session_lost:
  assumes "bfd_reach ops p l" "bfd_iteration ops p rnd l = (l', reqs)"
  shows "(\<exists>pwu st r n' w'. (pwu, st) \<in> set reqs \<and> reconcile_election env post ee ha_cfg st pwu n w = (Promoted r, n', w')) \<longleftrightarrow>
    peer_lost ops p rnd (fst (receive_round ops p rnd (bfd_transmit ops p rnd l))) \<and> \<not> local_gateway_is_active env n"
proof -
  define l1 where "l1 = fst (receive_round ops p rnd (bfd_transmit ops p rnd l))"
  have heard: "up_is_heard ops l1" unfolding l1_def by (intro receive_up_is_heard transmit_up_is_heard reach_up_is_heard [OF assms(1)])
  have reqs: "set reqs = set (snd (receive_round ops p rnd (bfd_transmit ops p rnd l))) \<union> set (snd (check_detection ops p rnd l1))"
    using assms(2) by (auto simp: bfd_iteration_def l1_def split: prod.splits)
  have st: "(st = ''down'' \<longrightarrow> pwu) \<and> (pwu \<or> st \<noteq> ''down'') \<and> (st = ''down'' \<longleftrightarrow> (pwu, st) \<in> set (snd (check_detection ops p rnd l1)))"
    if "(pwu, st) \<in> set reqs" for pwu st
    using that receive_requests [of pwu st ops p rnd "bfd_transmit ops p rnd l"] unfolding reqs check_requests by (auto split: if_splits)
  have "(\<exists>pwu st r n' w'. (pwu, st) \<in> set reqs \<and> reconcile_election env post ee ha_cfg st pwu n w = (Promoted r, n', w')) \<longleftrightarrow>
      (\<exists>pwu st. (pwu, st) \<in> set reqs \<and> st = ''down'' \<and> pwu \<and> \<not> local_gateway_is_active env n)"
    using st promoted_iff by metis
  also have "\<dots> \<longleftrightarrow> (True, ''down'') \<in> set (snd (check_detection ops p rnd l1)) \<and> \<not> local_gateway_is_active env n"
    using st [of True "''down''"] unfolding reqs by auto
  also have "\<dots> \<longleftrightarrow> peer_lost ops p rnd l1 \<and> \<not> local_gateway_is_active env n"
    unfolding check_requests peer_lost_iff [OF heard] by auto
  finally show ?thesis by (simp only: l1_def)
qed

text \<open>A session with two states that is up after the first packet.\<close>

definition two_state_ops :: "(bool, unit) bfd_ops" where
  "two_state_ops = \<lparr>bo_mandatory_len = 24, bo_encode = (\<lambda>_. replicate 24 0), bo_decode = (\<lambda>_. Some ()), bo_new = (\<lambda>_ _. False),
     bo_build_control = (\<lambda>_. ()), bo_on_packet = (\<lambda>s _. (if s then None else Some (''Down'', ''Up''), True)), bo_is_up = id,
     bo_on_detect_timeout = (\<lambda>_. False), bo_hmac = (\<lambda>_ _. replicate 32 0)\<rparr>"

definition watch_params :: bfd_params where
  "watch_params = \<lparr>bp_peer_ip = V4 0xC000020A, bp_source_ip = V4 0xC000020B, bp_token = ''secret'', bp_bfd = default_bfd_config\<rparr>"

definition heard_round :: bfd_round where
  "heard_round = \<lparr>br_now_tx = 2000, br_send_ok = True,
     br_recv = Datagram (V4 0xC000020A) (authenticated_packet two_state_ops () ''secret''), br_now_rx = 2010, br_now_check = 2010\<rparr>"

definition silent_round :: bfd_round where
  "silent_round = \<lparr>br_now_tx = 2911, br_send_ok = False, br_recv = NothingReceived, br_now_rx = 2911, br_now_check = 2911\<rparr>"

definition quiet_election :: "unit election_env" where
  "quiet_election = \<lparr>ee_json = \<lparr>jo_from_str = (\<lambda>_. None), jo_get = (\<lambda>_ _. None), jo_as_str = (\<lambda>_. None), jo_as_i64 = (\<lambda>_. None)\<rparr>,
     ee_connects = (\<lambda>_. False), ee_response = None\<rparr>"

abbreviation watched :: "bool bfd_loop" where
  "watched \<equiv> fst (bfd_iteration two_state_ops watch_params heard_round (start_loop two_state_ops watch_params 1500 initial_bfd_status))"

lemma watched_reach: "bfd_reach two_state_ops watch_params watched"
  by (rule turned [OF started prod.collapse [symmetric]])

lemma watched_heard: "bl_was_up watched" "bl_session watched" "bl_last_rx watched = Some 2010"
  by (simp_all add: bfd_iteration_def receive_round_def check_detection_def silent_too_long_def on_control_def heard_round_def watch_params_def
      two_state_ops_def parse_control_def BFD_PACKET_LEN_def AUTH_LEN_def authenticated_packet_def loop_keeps detection_ms_def
      bfd_interval_ms_def default_bfd_config_def Let_def)

lemma backup_is_not_active: "\<not> local_gateway_is_active (vip_env (pair_cfg ''gw-b'' 0xC000020B) True) vip_b"
  using names_are_no_addresses [of "''gw-a''" "0xC000020B"]
  by (simp add: local_gateway_is_active_def active_gateway_def known_gateways_def load_for_state_dir_def get_payload_def repo_of_def
      vip_node_def vip_env_def text_codec_simps with_peer_def pair_cfg_def pair_peer_def vip_ha_def normalize_runtime_config_def
      sample_config_def default_file_config_def default_ha_runtime_config_def default_ha_config_def trim_def is_space_def show_ip_def Let_def)

theorem promotion_iff_session_lost_witness:
  "(\<exists>pwu st r n' w'. (pwu, st) \<in> set (snd (bfd_iteration two_state_ops watch_params silent_round watched)) \<and>
      reconcile_election (vip_env (pair_cfg ''gw-b'' 0xC000020B) True) (post_to (vip_env (pair_cfg ''gw-a'' 0xC000020A) True) (\<lambda>_. RequestLost))
        quiet_election (vip_ha (pair_peer ''gw-a'' (show_ipv4 0xC000020A))) st pwu vip_b (vip_a, 0) = (Promoted r, n', w'))"
  by (rule promotion_iff_session_lost [OF watched_reach prod.collapse [symmetric], THEN iffD2])
    (use watched_heard backup_is_not_active in \<open>simp add: peer_lost_def receive_round_def silent_round_def loop_keeps two_state_ops_def
      watch_params_def detection_ms_def bfd_interval_ms_def default_bfd_config_def\<close>)

end
