(* ===== verification/Spec2Isabelle.thy ===== *)
theory Spec2Isabelle
  imports Datapath Dscp_Mark Backend_Return Native_Model Ha_Pairing Xsync Gateway_Pair Bfd_Election
begin

text \<open>
  Verification of edge-lb, an L4 load balancer with an eBPF datapath.

  \<^bold>\<open>The program.\<close>  A gateway translates packets of clients to backends in eBPF programs attached to its
  network devices (\<^verbatim>\<open>src/edge-lb-ebpf\<close>), which share their maps with a daemon (\<^verbatim>\<open>src/edge-lb\<close>).  The daemon
  reads and validates the configuration, publishes listeners and targets into the maps, sweeps and saves
  the flow table, and, with a second gateway, replicates flows and configuration, watches the peer and
  moves the shared address.  The types of the maps are in \<^verbatim>\<open>src/edge-lb-common\<close>.

  \<^bold>\<open>Ground.\<close>  \<open>Prelude\<close> has the machine integers, saturating operations and byte orders; \<open>Rust_Result\<close> the
  error sums and sequencing; \<open>Rust_Std\<close> strings, numbers and addresses of the standard library; \<open>Common\<close> the
  map types and the two keys of a flow; \<open>Skb\<close> the packet buffer, the record \<open>dp\<close> of all maps, and the
  kernel helpers as the fields of \<open>ebpf_env\<close> with the hypotheses about them (\<open>load_reads\<close>, \<open>store_writes\<close>,
  \<open>csum_local\<close>, \<open>lru_insert\<close>, ...), which \<open>plain_env\<close> satisfies.

  \<^bold>\<open>Datapath.\<close>
  \<^item> \<open>Selector\<close>: \<open>select_target\<close> of \<^verbatim>\<open>main.rs\<close>.  The six selectors interpret the locale \<open>target_selector\<close>.
    A selected slot is usable, one is found where there is one, shares, minima and rotation are exact.
  \<^item> \<open>Nat_Rewrite\<close>, \<open>Datapath\<close>: \<^verbatim>\<open>nat.rs\<close> and the two NAT programs.  Round trip of a connection, no packet
    with half a rewrite, paired flow entries, stickiness.
  \<^item> \<open>Redirect_Packet\<close>, \<open>Redirect\<close>: the redirect stages after a rewrite (\<^verbatim>\<open>redirect.rs\<close>, \<^verbatim>\<open>redirect_packet.rs\<close>,
    \<^verbatim>\<open>return_redirect.rs\<close>), both interpretations of the locale \<open>redirect_stage\<close>.
  \<^item> \<open>Dscp_Mark\<close>, \<open>Backend_Return\<close>: marking with an incremental checksum, and the return path of a backend
    (\<^verbatim>\<open>backend_redirect.rs\<close>).

  \<^bold>\<open>Configuration.\<close>
  \<^item> \<open>Config_Model\<close>, \<open>Config_Normalize\<close>, \<open>Config_Validate\<close>: \<^verbatim>\<open>src/edge-lb/src/config\<close>.  Distinct overlay
    addresses, disjoint marks and tables, and a derived contract that validation refuses.
  \<^item> \<open>Native_Model\<close>, \<open>Listener_Ids\<close>, \<open>Map_Sync\<close>: \<^verbatim>\<open>provider/native/model.rs\<close> and \<^verbatim>\<open>linux/native_dnat.rs\<close>.  A valid
    configuration projects to listeners, identifiers are stable, and after a synchronisation the
    datapath selects among the configured targets.  The map operations are the parameter \<open>map_ops\<close>.

  \<^bold>\<open>Flows.\<close>
  \<^item> \<open>Flow_Table\<close>: upserts, deletes and sweeps of \<^verbatim>\<open>linux/native_dnat.rs\<close>.
  \<^item> \<open>Xsync\<close>: replication (\<^verbatim>\<open>provider/native/xsync.rs\<close>).  A round mirrors the table, batches drain.
  \<^item> \<open>Flow_Persistence\<close>: snapshots (\<^verbatim>\<open>provider/native/flow_persistence.rs\<close>).  The file format round trips and
    a connection survives a restart.
  \<^item> \<open>Gateway_Pair\<close>: all writers of the flow tables of two gateways as one transition system, with the type
    invariant of the tables.

  \<^bold>\<open>High availability.\<close>
  \<^item> \<open>Storage\<close>, \<open>Proxy_Replication\<close>: the document repository (\<^verbatim>\<open>storage/repository.rs\<close>, an interpretation of the
    locale \<open>versioned_store\<close>) and the replicated configuration on it (\<^verbatim>\<open>storage/proxy_replication.rs\<close>,
    \<^verbatim>\<open>storage/proxy_config.rs\<close>).  Mutations are atomic, replicas store what the master sent.
  \<^item> \<open>Ha_Config\<close>, \<open>Ha_State\<close>, \<open>Ha_Pairing\<close>: \<^verbatim>\<open>runtime/ha.rs\<close>, the role in \<^verbatim>\<open>provider/native/ha.rs\<close> and the pairing
    of \<^verbatim>\<open>control/peer.rs\<close>, \<^verbatim>\<open>control/gateway.rs\<close>.  Pairing elects one master.
  \<^item> \<open>Ha_Failover\<close>: roles, the shared address and switching (\<^verbatim>\<open>provider/native/ha.rs\<close>, \<^verbatim>\<open>api/handlers/ha.rs\<close>).
  \<^item> \<open>Bfd_Election\<close>: the liveness loop and the election (\<^verbatim>\<open>runtime/bfd.rs\<close>).
  \<^item> \<open>Sample_Codec\<close>: a codec that satisfies \<open>codec_ok\<close>, the hypothesis on the stored text.
  \<^item> This theory: two gateways that pair replicate flows from the master to the backup.

  \<^bold>\<open>Parameters.\<close>  Kernel helpers, the eBPF map operations, \<^verbatim>\<open>serde_json\<close>, SHA-256, HMAC, \<^verbatim>\<open>wren_bfd\<close>, SQLite outcomes,
  clocks and the iteration order of hash maps are arguments with named hypotheses, and each witness
  supplies a concrete one.

  \<^bold>\<open>Bounds.\<close>  They are those of the code: 64 slots in a scan of targets, 4096 listener identifiers, 4096
  operations in a batch and entries in a restored chunk, 16 attempts of a compare-and-put loop, 8 queued
  election requests.  Exhausted attempts are an error value.  No other fuel occurs; every recursion has a
  termination proof.

  \<^bold>\<open>Not modelled.\<close>  Attaching programs, netlink, tc, nftables and sysctl (\<^verbatim>\<open>linux/\<close>, including the control side
  of the redirect maps), sockets and gRPC services, the registration of backends (\<^verbatim>\<open>control/registry.rs\<close>,
  \<^verbatim>\<open>control/snapshot.rs\<close>), health probes (their observations are arguments), the other HTTP handlers,
  notifications, automations, metrics, discovery, process start and the tools: they are calls to the
  kernel, the network or the file system.  Threads appear as the rounds of their loops.  An election
  request is paired with the status at the time it was queued.
\<close>

section \<open>A paired gateway replicates\<close>

text \<open>A gateway that knows only itself, at an IPv4 address, and takes its active gateway from the repository.\<close>

definition alone :: "FileConfig \<Rightarrow> bool" where
  "alone cfg \<longleftrightarrow> fc_node_role cfg = Gateway \<and> is_ipv4 (fc_underlay_ip cfg) \<and> hac_active_source (fc_ha cfg) \<noteq> SourceXds \<and>
     (\<exists>g. fc_gateway_nodes cfg = [g] \<and> gn_name g = fc_node_name cfg \<and> gn_underlay_ip g = fc_underlay_ip cfg)"

definition distinguishable :: "FileConfig \<Rightarrow> FileConfig \<Rightarrow> bool" where
  "distinguishable a b \<longleftrightarrow> fc_node_name a \<noteq> fc_node_name b \<and> fc_underlay_ip a \<noteq> fc_underlay_ip b \<and> pair_names_ok a b"

lemma show_ip_inj: "is_ipv4 a \<Longrightarrow> is_ipv4 b \<Longrightarrow> show_ip a = show_ip b \<longleftrightarrow> a = b"
  by (auto simp: is_ipv4_def show_ip_def split: IpAddr.splits)

lemma parse_show_ip: "is_ipv4 a \<Longrightarrow> parse_ip_addr (show_ip a) = Some a"
  by (auto simp: is_ipv4_def show_ip_def split: IpAddr.splits)

lemma known_after_pairing:
  assumes "alone cfg" "alone other" "distinguishable cfg other"
    and ha: "load_for_state_dir c repo = Inr (normalize_runtime_config ha)" "hr_peers ha = [peer]"
    and peer: "hp_name peer = fc_node_name other" "hp_underlay_ip peer = show_ip (fc_underlay_ip other)"
  shows "\<exists>g h. known_gateways c cfg repo = [g, h] \<and> node_keys g = own_keys cfg \<and> node_keys h = own_keys other \<and>
    gn_name g = fc_node_name cfg \<and> gn_underlay_ip g = fc_underlay_ip cfg \<and> gn_name h \<noteq> fc_node_name cfg \<and> gn_underlay_ip h \<noteq> fc_underlay_ip cfg"
proof -
  obtain g where g: "fc_gateway_nodes cfg = [g]" "gn_name g = fc_node_name cfg" "gn_underlay_ip g = fc_underlay_ip cfg"
    using assms(1) by (auto simp: alone_def)
  have parse: "parse_ip_addr (hp_underlay_ip peer) = Some (fc_underlay_ip other)"
    using assms(2) by (simp add: peer(2) parse_show_ip alone_def)
  show ?thesis
    using assms(1,3) g parse peer ha
    by (auto simp: known_gateways_def with_peer_def normalize_keeps alone_def distinguishable_def node_keys_def own_keys_def)
qed

lemma own_keys_disjoint:
  assumes "alone a" "alone b" "distinguishable a b"
  shows "own_keys a \<inter> own_keys b = {}"
  using assms by (auto simp: own_keys_def alone_def distinguishable_def pair_names_ok_def show_ip_inj)

lemma role_after_pairing:
  assumes two: "alone cfg" "alone other" "distinguishable cfg other"
    and b: "read_bundle c cfg repo = Inr b" "bu_scope b \<in> {Master pid peer, Backup pid peer}"
    and peer: "hp_name peer = fc_node_name other" "hp_underlay_ip peer = show_ip (fc_underlay_ip other)"
    and key: "map_option trim (get_payload (''ha_active_gateway'', ''current'') repo) = Some key" "key \<in> own_keys cfg \<union> own_keys other" "key \<noteq> []"
  shows "\<exists>st. ha_state c cfg repo = Inr st \<and> (nh_state st = ''MASTER'' \<longleftrightarrow> bu_scope b = Master pid peer)"
proof -
  obtain ha where ha: "load_for_state_dir c repo = Inr (normalize_runtime_config ha)" "hr_peers ha = [peer]"
    using read_bundle_peer [OF b] by blast
  obtain g h where known: "known_gateways c cfg repo = [g, h]" "node_keys g = own_keys cfg" "node_keys h = own_keys other"
      "gn_name g = fc_node_name cfg" "gn_underlay_ip g = fc_underlay_ip cfg"
    using known_after_pairing [OF two ha peer] by blast
  have "keys_unambiguous cfg (known_gateways c cfg repo)"
    unfolding keys_unambiguous_def known(1) using known(2-5) own_keys_disjoint [OF two] by auto
  moreover have "active_key_known c cfg repo key" using key known(2,3) by (auto simp: active_key_known_def known(1))
  moreover have "hac_active_source (fc_ha cfg) \<noteq> SourceXds" using two(1) by (simp add: alone_def)
  moreover have "bu_scope b \<noteq> Standalone" using b(2) by auto
  ultimately show ?thesis using roles_coincide [OF b(1)] b(2) by force
qed

lemma master_session:
  assumes b: "read_bundle c cfg repo = Inr b" "bu_scope b = Master pid peer" and st: "ha_state c cfg repo = Inr st" "nh_state st = ''MASTER''"
    and sec: "load_secrets_for_state_dir c repo = Inr (Some sec)"
  shows "\<exists>endpoint. session_target c cfg repo = Inr (Some (peer, endpoint, sec_session_token sec))"
    "authorize_proto_request c cfg repo remote req \<noteq> Inr ()"
proof -
  obtain ha where ha: "load_for_state_dir c repo = Inr (normalize_runtime_config ha)" "hr_enabled ha" "hr_peers ha = [peer]"
    using read_bundle_peer [OF b(1), of pid peer] b(2) by blast
  have "hr_connection_sync (normalize_runtime_config ha)" by (simp add: normalize_runtime_config_def Let_def)
  then show "\<exists>endpoint. session_target c cfg repo = Inr (Some (peer, endpoint, sec_session_token sec))"
    using st sec ha by (simp add: session_target_def normalize_keeps Let_def)
  show "authorize_proto_request c cfg repo remote req \<noteq> Inr ()"
    using st by (auto simp: authorize_proto_request_def and_then_Inr)
qed

lemma backup_session:
  assumes b: "read_bundle c cfg repo = Inr b" "bu_scope b = Backup pid peer" and st: "ha_state c cfg repo = Inr st" "nh_state st \<noteq> ''MASTER''"
    and sec: "load_secrets_for_state_dir c repo = Inr (Some sec)" "session_token_matches (Some sec) (fq_token req)"
    and remote: "parse_ip_addr (hp_underlay_ip peer) = Some ip" "fq_source req = hp_name peer"
  shows "session_target c cfg repo = Inr None" "authorize_proto_request c cfg repo (Some ip) req = Inr ()"
proof -
  obtain ha where ha: "load_for_state_dir c repo = Inr (normalize_runtime_config ha)" "hr_enabled ha" "hr_peers ha = [peer]"
    using read_bundle_peer [OF b(1), of pid peer] b(2) by blast
  show "session_target c cfg repo = Inr None" using st ha by (simp add: session_target_def)
  show "authorize_proto_request c cfg repo (Some ip) req = Inr ()"
    using st sec remote ha by (simp add: authorize_proto_request_def normalize_keeps)
qed

text \<open>The state of a pair: the master opens sessions to the backup, the backup accepts them, and not the
  other way round.\<close>

definition replicates_to :: "codec \<Rightarrow> FileConfig \<Rightarrow> Repository \<Rightarrow> FileConfig \<Rightarrow> Repository \<Rightarrow> bool" where
  "replicates_to c cfgM repoM cfgB repoB \<longleftrightarrow>
     (\<exists>peer endpoint token. session_target c cfgM repoM = Inr (Some (peer, endpoint, token)) \<and> hp_name peer = fc_node_name cfgB \<and>
        authorize_proto_request c cfgB repoB (Some (fc_underlay_ip cfgM)) (handshake_request cfgM token) = Inr ()) \<and>
     session_target c cfgB repoB = Inr None \<and> (\<forall>remote req. authorize_proto_request c cfgM repoM remote req \<noteq> Inr ())"

lemma pair_replicates:
  assumes two: "alone cfgM" "alone cfgB" "distinguishable cfgM cfgB"
    and M: "read_bundle c cfgM repoM = Inr bM" "bu_scope bM = Master pid (peer_from_identity (local_identity vB cfgB))"
    and B: "read_bundle c cfgB repoB = Inr bB" "bu_scope bB = Backup pid (peer_from_identity (local_identity vM cfgM))"
    and sec: "load_secrets_for_state_dir c repoM = Inr (Some secM)" "load_secrets_for_state_dir c repoB = Inr (Some secB)"
      "session_token_matches (Some secB) (sec_session_token secM)"
    and key: "map_option trim (get_payload (''ha_active_gateway'', ''current'') repoM) = Some key"
      "map_option trim (get_payload (''ha_active_gateway'', ''current'') repoB) = Some key" "key \<in> own_keys cfgM \<union> own_keys cfgB" "key \<noteq> []"
  shows "replicates_to c cfgM repoM cfgB repoB"
proof -
  let ?pB = "peer_from_identity (local_identity vB cfgB)" and ?pM = "peer_from_identity (local_identity vM cfgM)"
  have peers: "hp_name ?pB = fc_node_name cfgB" "hp_underlay_ip ?pB = show_ip (fc_underlay_ip cfgB)"
    "hp_name ?pM = fc_node_name cfgM" "hp_underlay_ip ?pM = show_ip (fc_underlay_ip cfgM)"
    by (simp_all add: peer_from_identity_def local_identity_def Let_def)
  have sym: "distinguishable cfgB cfgM" using two(3) by (auto simp: distinguishable_def pair_names_ok_def)
  obtain stM where stM: "ha_state c cfgM repoM = Inr stM" "nh_state stM = ''MASTER''"
    using role_after_pairing [OF two M(1) _ peers(1,2) key(1,3,4), of pid] M(2) by auto
  obtain stB where stB: "ha_state c cfgB repoB = Inr stB" "nh_state stB \<noteq> ''MASTER''"
    using role_after_pairing [OF two(2,1) sym B(1) _ peers(3,4) key(2) _ key(4), of pid] key(3) B(2) by auto
  obtain endpoint where session: "session_target c cfgM repoM = Inr (Some (?pB, endpoint, sec_session_token secM))"
    using master_session(1) [OF M stM sec(1)] by blast
  let ?req = "handshake_request cfgM (sec_session_token secM)"
  have "parse_ip_addr (hp_underlay_ip ?pM) = Some (fc_underlay_ip cfgM)"
    using two(1) by (simp add: peers(4) parse_show_ip alone_def)
  moreover have "session_token_matches (Some secB) (fq_token ?req)" "fq_source ?req = hp_name ?pM"
    using sec(3) peers(3) by (simp_all add: handshake_request_def)
  ultimately have "session_target c cfgB repoB = Inr None" "authorize_proto_request c cfgB repoB (Some (fc_underlay_ip cfgM)) ?req = Inr ()"
    using backup_session [OF B stB sec(2)] by blast+
  then show ?thesis unfolding replicates_to_def
    using session peers(1) master_session(2) [OF M stM sec(1)] by blast
qed

text \<open>C35. Pairing enables connection sync in one direction.  After two gateways that knew only themselves
  have completed the pairing handshake, exactly one of them opens flow-sync sessions; it addresses the
  other, which authorises its handshake; the other opens none, and the first refuses every flow-sync
  request.\<close>

theorem paired_gateways_replicate:
  assumes codec: "codec_ok c" "ge_codec envI = c" "ge_codec envR = c" "trim (cd_ha c desired) \<noteq> []"
    and cfgR: "responder_config renv fallback = Inr cfgR"
    and names: "pair_names_ok cfgI cfgR" "preferred_member desired cfgI cfgR" and alone: "alone cfgI" "alone cfgR"
    and before: "read_bundle c cfgI (gs_repo sI) = Inr bI" "read_bundle c cfgR (gs_repo sR) = Inr bR"
    and ok: "pair_gateway envI vI nowI (responder_call envR renv fallback remote) cfgI endpoint bootstrap desired token (sI, sR) =
      (Inr result, sI', sR')"
  shows "replicates_to c cfgI (gs_repo sI') cfgR (gs_repo sR') \<noteq> replicates_to c cfgR (gs_repo sR') cfgI (gs_repo sI')"
proof -
  let ?pI = "peer_from_identity (local_identity vI cfgI)" and ?pR = "peer_from_identity (local_identity (re_version renv) cfgR)"
  obtain bI' bR' pid secI secR key where o: "read_bundle c cfgI (gs_repo sI') = Inr bI'" "read_bundle c cfgR (gs_repo sR') = Inr bR'"
      "bu_scope bI' = Master pid ?pR \<and> bu_scope bR' = Backup pid ?pI \<or> bu_scope bI' = Backup pid ?pR \<and> bu_scope bR' = Master pid ?pI"
      "load_secrets_for_state_dir c (gs_repo sI') = Inr (Some secI)" "load_secrets_for_state_dir c (gs_repo sR') = Inr (Some secR)"
      "session_token_matches (Some secR) (sec_session_token secI)" "session_token_matches (Some secI) (sec_session_token secR)"
      "map_option trim (get_payload (''ha_active_gateway'', ''current'') (gs_repo sI')) = Some key"
      "map_option trim (get_payload (''ha_active_gateway'', ''current'') (gs_repo sR')) = Some key"
      "key \<in> own_keys cfgI \<union> own_keys cfgR" "key \<noteq> []"
    and dist: "fc_node_name cfgI \<noteq> fc_node_name cfgR" "show_ip (fc_underlay_ip cfgI) \<noteq> show_ip (fc_underlay_ip cfgR)"
    using pairing_outcome [OF codec cfgR names before ok] by blast
  have two: "distinguishable cfgI cfgR" "distinguishable cfgR cfgI"
    using dist names(1) by (auto simp: distinguishable_def pair_names_ok_def)
  have one: "\<not> (replicates_to c cfgI (gs_repo sI') cfgR (gs_repo sR') \<and> replicates_to c cfgR (gs_repo sR') cfgI (gs_repo sI'))"
    by (auto simp: replicates_to_def)
  from o(3) show ?thesis
  proof
    assume "bu_scope bI' = Master pid ?pR \<and> bu_scope bR' = Backup pid ?pI"
    then have "replicates_to c cfgI (gs_repo sI') cfgR (gs_repo sR')"
      using pair_replicates [OF alone two(1) o(1) _ o(2) _ o(4,5,6,8,9,10,11)] by blast
    then show ?thesis using one by blast
  next
    assume "bu_scope bI' = Backup pid ?pR \<and> bu_scope bR' = Master pid ?pI"
    then have "replicates_to c cfgR (gs_repo sR') cfgI (gs_repo sI')"
      using pair_replicates [OF alone(2,1) two(2) o(2) _ o(1) _ o(5,4,7,9,8) _ o(11)] o(10) by blast
    then show ?thesis using one by blast
  qed
qed

theorem paired_gateways_replicate_witness:
  "\<exists>result sI' sR'. pair_gateway sample_genv ''1.0'' 7 (responder_call sample_genv sample_renv cfg_b (V4 0x7F000001)) caller_cfg
       ''192.0.2.11:50051'' ''secret'' default_ha_runtime_config ''token'' (new_store, new_store) = (Inr result, sI', sR') \<and>
     replicates_to text_codec caller_cfg (gs_repo sI') cfg_b (gs_repo sR') \<noteq> replicates_to text_codec cfg_b (gs_repo sR') caller_cfg (gs_repo sI')"
proof -
  obtain result sI' sR' where run: "pair_gateway sample_genv ''1.0'' 7 (responder_call sample_genv sample_renv cfg_b (V4 0x7F000001)) caller_cfg
       ''192.0.2.11:50051'' ''secret'' default_ha_runtime_config ''token'' (new_store, new_store) = (Inr result, sI', sR')"
    using sample_pairing by blast
  obtain bI bR where b: "read_bundle text_codec caller_cfg (gs_repo new_store) = Inr bI" "read_bundle text_codec cfg_b (gs_repo new_store) = Inr bR"
    using read_new_store by metis
  have genv: "ge_codec sample_genv = text_codec" by (simp add: sample_genv_def)
  have alone: "alone caller_cfg" "alone cfg_b"
    by (simp_all add: alone_def identity_defs is_ipv4_def default_ha_config_def)
  from paired_gateways_replicate [OF text_codec_ok genv genv desired_not_blank sample_responder sample_pair_names alone b run] run
  show ?thesis by blast
qed

end
